(* ===== verification/Vyzzer_Prelude.thy ===== *)
theory Vyzzer_Prelude imports Main "HOL-Library.AList" "HOL-Library.Sublist" begin

text \<open>
  What the component theories share: Python exceptions as values, the state-and-exception monad
  in which the stateful methods are written, the frame logic in which their effects are proved,
  Python's text of integers (decimal, hexadecimal) and the dictionary operations that keep the
  insertion order of a Python dict.
\<close>

section \<open>Exceptions and the state monad\<close>

datatype py_error =
    KeyError string
  | ValueError string
  | TypeError string
  | AttributeError string
  | IndexError string
  | RecursionError
  | OverflowError
  | TypeRangeError int

type_synonym 'a res = "py_error + 'a"

text \<open>A stateful method: it raises, or returns a value and the new state.\<close>

type_synonym ('s, 'a) stm = "'s \<Rightarrow> ('a \<times> 's) res"

definition bindR :: "'a res \<Rightarrow> ('a \<Rightarrow> 'b res) \<Rightarrow> 'b res" where
  "bindR r k = (case r of Inl e \<Rightarrow> Inl e | Inr x \<Rightarrow> k x)"

definition returnM :: "'a \<Rightarrow> ('s, 'a) stm" where
  "returnM x = (\<lambda>s. Inr (x, s))"

definition raiseM :: "py_error \<Rightarrow> ('s, 'a) stm" where
  "raiseM e = (\<lambda>s. Inl e)"

definition bindM :: "('s, 'a) stm \<Rightarrow> ('a \<Rightarrow> ('s, 'b) stm) \<Rightarrow> ('s, 'b) stm" where
  "bindM m k = (\<lambda>s. case m s of Inl e \<Rightarrow> Inl e | Inr (x, t) \<Rightarrow> k x t)"

definition liftR :: "'a res \<Rightarrow> ('s, 'a) stm" where
  "liftR r = (\<lambda>s. case r of Inl e \<Rightarrow> Inl e | Inr x \<Rightarrow> Inr (x, s))"

definition getM :: "('s \<Rightarrow> 'a) \<Rightarrow> ('s, 'a) stm" where
  "getM f = (\<lambda>s. Inr (f s, s))"

definition modM :: "('s \<Rightarrow> 's) \<Rightarrow> ('s, unit) stm" where
  "modM f = (\<lambda>s. Inr ((), f s))"

abbreviation seqM :: "('s, 'a) stm \<Rightarrow> ('s, 'b) stm \<Rightarrow> ('s, 'b) stm" where
  "seqM m k \<equiv> bindM m (\<lambda>_. k)"

named_theorems monad_defs "the monad's operations, unfolded"

lemmas [monad_defs] =
  bindR_def returnM_def raiseM_def bindM_def liftR_def getM_def modM_def

lemma bindR_simps [simp]:
  "bindR (Inl e) k = Inl e"
  "bindR (Inr x) k = k x"
  by (simp_all add: bindR_def)

lemma bindR_Inr_iff: "bindR r k = Inr y \<longleftrightarrow> (\<exists>x. r = Inr x \<and> k x = Inr y)"
  by (cases r) auto

lemma bindM_Inr_iff:
  "bindM m k s = Inr (y, u) \<longleftrightarrow> (\<exists>x t. m s = Inr (x, t) \<and> k x t = Inr (y, u))"
  by (auto simp: bindM_def split: sum.splits)

lemma bindM_InrE:
  assumes "bindM m k s = Inr (y, u)"
  obtains x t where "m s = Inr (x, t)" and "k x t = Inr (y, u)"
  using assms by (auto simp: bindM_Inr_iff)

lemma returnM_apply [simp]: "returnM x s = Inr (x, s)"
  by (simp add: returnM_def)

lemma raiseM_apply [simp]: "raiseM e s = Inl e"
  by (simp add: raiseM_def)

lemma getM_apply [simp]: "getM f s = Inr (f s, s)"
  by (simp add: getM_def)

lemma modM_apply [simp]: "modM f s = Inr ((), f s)"
  by (simp add: modM_def)

lemma liftR_apply [simp]:
  "liftR (Inl e) s = Inl e"
  "liftR (Inr x) s = Inr (x, s)"
  by (simp_all add: liftR_def)

lemma liftR_Inr_iff: "liftR r s = Inr (x, t) \<longleftrightarrow> r = Inr x \<and> t = s"
  by (cases r) auto

lemma bind_returnM [simp]: "bindM (returnM x) k = k x"
  by (simp add: bindM_def fun_eq_iff)

lemma bind_assocM: "bindM (bindM m f) g = bindM m (\<lambda>x. bindM (f x) g)"
  by (rule ext) (simp add: bindM_def split: sum.split prod.split)

section \<open>Frame logic\<close>

text \<open>
  A relation between the state before and the state after a method. The locale's laws make it
  compose along the control flow; the rules of the collection \<open>keeps\<close> then reduce a
  claim about a method to claims about the calls in its body.
\<close>

named_theorems keeps "rules that push a frame claim through the monad"

locale frame_rel =
  fixes R :: "'s \<Rightarrow> 's \<Rightarrow> bool"
  assumes refl: "R s s"
    and trans: "R s t \<Longrightarrow> R t u \<Longrightarrow> R s u"
begin

definition keepsM :: "('s, 'a) stm \<Rightarrow> bool" where
  "keepsM m \<longleftrightarrow> (\<forall>s x t. m s = Inr (x, t) \<longrightarrow> R s t)"

lemma keepsI: "(\<And>s x t. m s = Inr (x, t) \<Longrightarrow> R s t) \<Longrightarrow> keepsM m"
  by (simp add: keepsM_def)

lemma keepsD: "keepsM m \<Longrightarrow> m s = Inr (x, t) \<Longrightarrow> R s t"
  by (simp add: keepsM_def)

lemma keeps_return [keeps]: "keepsM (returnM x)"
  by (simp add: keepsM_def refl)

lemma keeps_raise [keeps]: "keepsM (raiseM e)"
  by (simp add: keepsM_def)

lemma keeps_get [keeps]: "keepsM (getM f)"
  by (simp add: keepsM_def refl)

lemma keeps_lift [keeps]: "keepsM (liftR r)"
  by (auto simp: keepsM_def liftR_Inr_iff refl)

lemma keeps_bind [keeps]:
  "keepsM m \<Longrightarrow> (\<And>x. keepsM (k x)) \<Longrightarrow> keepsM (bindM m k)"
  unfolding keepsM_def bindM_Inr_iff using trans by blast

lemma keeps_mod: "(\<And>s. R s (f s)) \<Longrightarrow> keepsM (modM f)"
  by (simp add: keepsM_def)

lemma keeps_if [keeps]:
  "(b \<Longrightarrow> keepsM m) \<Longrightarrow> (\<not> b \<Longrightarrow> keepsM n) \<Longrightarrow> keepsM (if b then m else n)"
  by simp

lemma keeps_option [keeps]:
  "keepsM n \<Longrightarrow> (\<And>x. keepsM (f x)) \<Longrightarrow> keepsM (case z of None \<Rightarrow> n | Some x \<Rightarrow> f x)"
  by (simp split: option.split)

lemma keeps_prod [keeps]:
  "(\<And>a b. keepsM (f a b)) \<Longrightarrow> keepsM (case p of (a, b) \<Rightarrow> f a b)"
  by (simp split: prod.split)

lemma keeps_let [keeps]: "keepsM (f x) \<Longrightarrow> keepsM (Let x f)"
  by simp

end

section \<open>Python's text of integers\<close>

definition digit_char :: "nat \<Rightarrow> char" where
  "digit_char d = ''0123456789'' ! d"

fun nat_str :: "nat \<Rightarrow> string" where
  "nat_str n = (if n < 10 then [digit_char n] else nat_str (n div 10) @ [digit_char (n mod 10)])"

declare nat_str.simps [simp del]

text \<open>Python's \<^verbatim>\<open>str(i)\<close> of an integer.\<close>

definition py_str :: "int \<Rightarrow> string" where
  "py_str i = (if i < 0 then ''-'' @ nat_str (nat (- i)) else nat_str (nat i))"

definition hex_char :: "nat \<Rightarrow> char" where
  "hex_char d = ''0123456789abcdef'' ! d"

fun nat_hex :: "nat \<Rightarrow> string" where
  "nat_hex n = (if n < 16 then [hex_char n] else nat_hex (n div 16) @ [hex_char (n mod 16)])"

declare nat_hex.simps [simp del]

text \<open>Python's \<^verbatim>\<open>hex(n)\<close> of a non-negative integer.\<close>

definition py_hex :: "nat \<Rightarrow> string" where
  "py_hex n = ''0x'' @ nat_hex n"

definition digit_val :: "char \<Rightarrow> nat option" where
  "digit_val c = (let k = of_char c :: nat in if 48 \<le> k \<and> k \<le> 57 then Some (k - 48) else None)"

definition is_digit :: "char \<Rightarrow> bool" where
  "is_digit c = (digit_val c \<noteq> None)"

fun digits_val :: "nat \<Rightarrow> string \<Rightarrow> nat" where
  "digits_val a [] = a"
| "digits_val a (c # cs) = digits_val (10 * a + the (digit_val c)) cs"

text \<open>\<^verbatim>\<open>sep.join(xs)\<close>.\<close>

fun py_join :: "string \<Rightarrow> string list \<Rightarrow> string" where
  "py_join sep [] = ''''"
| "py_join sep [x] = x"
| "py_join sep (x # y # xs) = x @ sep @ py_join sep (y # xs)"

lemma less_ten_cases:
  "n < 10 \<Longrightarrow> n = 0 \<or> n = 1 \<or> n = 2 \<or> n = 3 \<or> n = 4 \<or> n = 5 \<or> n = 6 \<or> n = 7 \<or> n = 8 \<or> n = (9::nat)"
  by arith

lemma digit_val_digit_char: "d < 10 \<Longrightarrow> digit_val (digit_char d) = Some d"
  by (drule less_ten_cases) (auto simp: digit_val_def digit_char_def Let_def)

lemma is_digit_digit_char [simp]: "d < 10 \<Longrightarrow> is_digit (digit_char d)"
  by (simp add: is_digit_def digit_val_digit_char)

lemma digits_val_append: "digits_val a (xs @ ys) = digits_val (digits_val a xs) ys"
  by (induction xs arbitrary: a) auto

lemma nat_str_ne [simp]: "nat_str n \<noteq> []"
  by (subst nat_str.simps) simp

lemma nat_str_digits: "c \<in> set (nat_str n) \<Longrightarrow> is_digit c"
proof (induction n rule: nat_str.induct)
  case (1 n)
  show ?case
  proof (cases "n < 10")
    case True
    then show ?thesis using "1.prems" by (subst (asm) nat_str.simps) simp
  next
    case False
    then show ?thesis using "1.prems" "1.IH" by (subst (asm) nat_str.simps) auto
  qed
qed

lemma digits_val_nat_str [simp]: "digits_val 0 (nat_str n) = n"
proof (induction n rule: nat_str.induct)
  case (1 n)
  show ?case
  proof (cases "n < 10")
    case True
    then show ?thesis by (subst nat_str.simps) (simp add: digit_val_digit_char)
  next
    case False
    then show ?thesis using "1.IH"
      by (subst nat_str.simps) (simp add: digits_val_append digit_val_digit_char)
  qed
qed

lemma nat_str_inj: "nat_str m = nat_str n \<longleftrightarrow> m = n"
  by (metis digits_val_nat_str)

lemma digit_not_minus: "is_digit c \<Longrightarrow> c \<noteq> CHR ''-''"
  by (auto simp: is_digit_def digit_val_def Let_def)

lemma hd_nat_str_digit: "is_digit (hd (nat_str n))"
  by (rule nat_str_digits [of _ n]) simp

lemma nat_str_not_minus [simp]: "nat_str n \<noteq> CHR ''-'' # xs"
  using hd_nat_str_digit [of n] digit_not_minus [of "CHR ''-''"] by (metis list.sel(1))

text \<open>The text of an integer determines it.\<close>

lemma py_str_inj: "py_str i = py_str j \<longleftrightarrow> i = j"
proof
  assume eq: "py_str i = py_str j"
  show "i = j"
  proof (cases "i < 0 \<longleftrightarrow> j < 0")
    case True
    then show ?thesis using eq by (auto simp: py_str_def nat_str_inj split: if_splits)
  next
    case False
    then show ?thesis
      using eq nat_str_not_minus [of "nat i" "nat_str (nat (- j))"]
        nat_str_not_minus [of "nat j" "nat_str (nat (- i))"]
      by (simp add: py_str_def del: nat_str_not_minus split: if_splits)
  qed
qed simp

lemma length_nat_hex: "n < 16 ^ k \<Longrightarrow> 0 < k \<Longrightarrow> length (nat_hex n) \<le> k"
proof (induction n arbitrary: k rule: nat_hex.induct)
  case (1 n)
  show ?case
  proof (cases "n < 16")
    case True
    then show ?thesis using "1.prems" by (subst nat_hex.simps) simp
  next
    case False
    then obtain k' where k: "k = Suc k'" "0 < k'"
      using "1.prems" by (cases k; cases "k - 1") auto
    have "n div 16 < 16 ^ k'"
      using "1.prems" k by (simp add: less_mult_imp_div_less)
    then show ?thesis using False "1.IH" k by (subst nat_hex.simps) simp
  qed
qed

section \<open>Dictionaries in insertion order\<close>

text \<open>
  A dict is an association list with distinct keys. \<open>AList.update\<close> replaces the value of
  a key in place and appends a new key at the end, as a Python dict does.
\<close>

definition dget :: "('k \<times> 'v) list \<Rightarrow> 'k \<Rightarrow> 'v \<Rightarrow> 'v" where
  "dget d k z = (case map_of d k of None \<Rightarrow> z | Some v \<Rightarrow> v)"

definition dhas :: "('k \<times> 'v) list \<Rightarrow> 'k \<Rightarrow> bool" where
  "dhas d k = (map_of d k \<noteq> None)"

lemma dget_update: "dget (AList.update k v d) j z = (if j = k then v else dget d j z)"
  by (simp add: dget_def update_conv')

lemma dhas_update: "dhas (AList.update k v d) j = (j = k \<or> dhas d j)"
  by (auto simp: dhas_def update_conv')

lemma dget_Nil [simp]: "dget [] k z = z"
  by (simp add: dget_def)

lemma dhas_Nil [simp]: "\<not> dhas [] k"
  by (simp add: dhas_def)

lemma dget_single [simp]: "dget [(k, v)] j z = (if j = k then v else z)"
  by (simp add: dget_def)

lemma dget_not_has: "\<not> dhas d k \<Longrightarrow> dget d k z = z"
  by (simp add: dget_def dhas_def)

lemma dget_default: "dhas d k \<Longrightarrow> dget d k z = dget d k z'"
  by (auto simp: dget_def dhas_def)

lemma dhas_iff_key: "dhas d k \<longleftrightarrow> k \<in> fst ` set d"
  by (auto simp: dhas_def map_of_eq_None_iff)

end
