(* ===== verification/Proto.thy ===== *)
theory Proto imports Vyzzer_Prelude "HOL-Library.Word" begin

text \<open>
  Protobuf messages as the converters see them (\<^verbatim>\<open>vyperProtoNew.proto\<close>): a message carries
  the name of its descriptor and the fields that are present, in field-number order, which is what
  \<^verbatim>\<open>ListFields\<close> returns. \<open>HasField\<close>, \<open>hasattr\<close> and the accessors
  consult the schema, so that a field a message type does not declare raises as it does in Python
  and an absent field reads as its default.
\<close>

section \<open>Messages\<close>

text \<open>
  Text fields hold Unicode code points, byte fields hold bytes. Enumerators are integers.
\<close>

datatype fval =
    VInt int
  | VBool bool
  | VStr "nat list"
  | VBytes "8 word list"
  | VMsg msg
  | VRep "msg list"
and msg = Msg (mtype: string) (mfields: "(string \<times> fval) list")

section \<open>The schema\<close>

text \<open>
  Unsigned and signed integers of a width, enumerations with their number of enumerators, sub-messages
  and repeated sub-messages.
\<close>

datatype fkind = KUInt nat | KSInt nat | KEnum nat | KBool | KString | KBytes | KMsg string | KRep string

text \<open>Message types with their fields, in field-number order.\<close>

definition proto_message :: "string \<Rightarrow> (string \<times> fkind) list" where
  "proto_message t = (
     if t = ''Int'' then [(''n'', KUInt 32), (''sign'', KBool)] else
     if t = ''Bool'' then [] else
     if t = ''Decimal'' then [] else
     if t = ''BytesM'' then [(''m'', KUInt 32)] else
     if t = ''String'' then [(''max_len'', KUInt 32)] else
     if t = ''Address'' then [] else
     if t = ''ByteArray'' then [(''max_len'', KUInt 32)] else
     if t = ''VarRef'' then [(''i'', KMsg ''Int''), (''b'', KMsg ''Bool''),
       (''d'', KMsg ''Decimal''), (''bM'', KMsg ''BytesM''), (''s'', KMsg ''String''),
       (''adr'', KMsg ''Address''), (''barr'', KMsg ''ByteArray''), (''varnum'', KUInt 32),
       (''list'', KMsg ''FixedList''), (''dyn'', KMsg ''DynArray'')] else
     if t = ''BoolBinOp'' then [(''op'', KEnum 4), (''left'', KMsg ''BoolExpression''),
       (''right'', KMsg ''BoolExpression'')] else
     if t = ''IntBoolBinOp'' then [(''op'', KEnum 6), (''left'', KMsg ''IntExpression''),
       (''right'', KMsg ''IntExpression'')] else
     if t = ''DecimalBoolBinOp'' then [(''op'', KEnum 6), (''left'', KMsg ''DecimalExpression''),
       (''right'', KMsg ''DecimalExpression'')] else
     if t = ''BoolUnOp'' then [(''expr'', KMsg ''BoolExpression'')] else
     if t = ''BoolExpression'' then [(''boolBinOp'', KMsg ''BoolBinOp''),
       (''boolUnOp'', KMsg ''BoolUnOp''), (''intBoolBinOp'', KMsg ''IntBoolBinOp''),
       (''decBoolBinOp'', KMsg ''DecimalBoolBinOp''), (''lit'', KMsg ''Literal''),
       (''varRef'', KMsg ''VarRef''), (''raw_call'', KMsg ''RawCall''),
       (''convert_int'', KMsg ''ConvertFromInt''),
       (''convert_decimal'', KMsg ''DecimalExpression''),
       (''convert_address'', KMsg ''AddressExpression''),
       (''convert_bytesm'', KMsg ''ConvertFromBytesM''),
       (''convert_bytes'', KMsg ''BytesExpression''),
       (''convert_string'', KMsg ''StringExpression'')] else
     if t = ''AddressExpression'' then [(''cmp'', KMsg ''CreateMinimalProxy''),
       (''cfb'', KMsg ''CreateFromBlueprint''), (''lit'', KMsg ''Literal''),
       (''varRef'', KMsg ''VarRef''), (''cco'', KMsg ''CreateCopyOf''),
       (''ecRec'', KMsg ''EcRecover''), (''convert_int'', KMsg ''ConvertFromInt''),
       (''convert_bytesm'', KMsg ''ConvertFromBytesM''),
       (''convert_bytes'', KMsg ''BytesExpression'')] else
     if t = ''IntBinOp'' then [(''op'', KEnum 11), (''left'', KMsg ''IntExpression''),
       (''right'', KMsg ''IntExpression'')] else
     if t = ''IntUnOp'' then [(''expr'', KMsg ''IntExpression'')] else
     if t = ''DecimalBinOp'' then [(''op'', KEnum 5), (''left'', KMsg ''DecimalExpression''),
       (''right'', KMsg ''DecimalExpression'')] else
     if t = ''DecimalUnOp'' then [(''expr'', KMsg ''DecimalExpression'')] else
     if t = ''IntExpression'' then [(''lit'', KMsg ''Literal''), (''binOp'', KMsg ''IntBinOp''),
       (''unOp'', KMsg ''IntUnOp''), (''varRef'', KMsg ''VarRef''),
       (''convert_int'', KMsg ''ConvertFromInt''),
       (''convert_decimal'', KMsg ''DecimalExpression''),
       (''convert_bool'', KMsg ''BoolExpression''),
       (''convert_address'', KMsg ''AddressExpression''),
       (''convert_bytesm'', KMsg ''ConvertFromBytesM''),
       (''convert_bytes'', KMsg ''BytesExpression'')] else
     if t = ''ConvertFromInt'' then [(''exp'', KMsg ''IntExpression''),
       (''i'', KMsg ''Int'')] else
     if t = ''ConvertFromBytesM'' then [(''exp'', KMsg ''BytesMExpression''),
       (''bM'', KMsg ''BytesM'')] else
     if t = ''BytesMExpression'' then [(''sha'', KMsg ''Sha256''), (''varRef'', KMsg ''VarRef''),
       (''lit'', KMsg ''Literal''), (''keccak'', KMsg ''Keccak256''),
       (''convert_int'', KMsg ''ConvertFromInt''),
       (''convert_decimal'', KMsg ''DecimalExpression''),
       (''convert_bool'', KMsg ''BoolExpression''),
       (''convert_address'', KMsg ''AddressExpression''),
       (''convert_bytesm'', KMsg ''ConvertFromBytesM''),
       (''convert_bytes'', KMsg ''BytesExpression'')] else
     if t = ''BytesExpression'' then [(''varRef'', KMsg ''VarRef''),
       (''raw_call'', KMsg ''RawCall''), (''lit'', KMsg ''Literal''),
       (''concat'', KMsg ''ConcatBytes''), (''convert_string'', KMsg ''StringExpression'')] else
     if t = ''StringExpression'' then [(''varRef'', KMsg ''VarRef''),
       (''concat'', KMsg ''ConcatString''), (''lit'', KMsg ''Literal''),
       (''convert_bytes'', KMsg ''BytesExpression'')] else
     if t = ''DecimalExpression'' then [(''binOp'', KMsg ''DecimalBinOp''),
       (''unOp'', KMsg ''DecimalUnOp''), (''lit'', KMsg ''Literal''),
       (''varRef'', KMsg ''VarRef''), (''convert_int'', KMsg ''ConvertFromInt''),
       (''convert_bool'', KMsg ''BoolExpression''),
       (''convert_bytesm'', KMsg ''ConvertFromBytesM''),
       (''convert_bytes'', KMsg ''BytesExpression'')] else
     if t = ''TypedExpression'' then [(''addrExp'', KMsg ''AddressExpression''),
       (''boolExp'', KMsg ''BoolExpression''), (''bmExp'', KMsg ''BytesMExpression''),
       (''bExp'', KMsg ''BytesExpression''), (''strExp'', KMsg ''StringExpression''),
       (''decExpression'', KMsg ''DecimalExpression''), (''intExp'', KMsg ''IntExpression''),
       (''addrList'', KMsg ''FixedListAddress''), (''boolList'', KMsg ''FixedListBool''),
       (''bmList'', KMsg ''FixedListBytesM''), (''intList'', KMsg ''FixedListInt''),
       (''decList'', KMsg ''FixedListDecimal''), (''addrDyn'', KMsg ''DynArrayAddress''),
       (''boolDyn'', KMsg ''DynArrayBool''), (''bmDyn'', KMsg ''DynArrayBytesM''),
       (''intDyn'', KMsg ''DynArrayInt''), (''decDyn'', KMsg ''DynArrayDecimal''),
       (''strDyn'', KMsg ''DynArrayString''), (''bytesDyn'', KMsg ''DynArrayByteArray''),
       (''ladrDyn'', KMsg ''DynArrayListAddress''), (''ldecDyn'', KMsg ''DynArrayListDecimal''),
       (''lboolByn'', KMsg ''DynArrayListBool''), (''lbmDyn'', KMsg ''DynArrayListBytesM''),
       (''lintDyn'', KMsg ''DynArrayListInt'')] else
     if t = ''FixedListAddress'' then [(''rexp'', KMsg ''AddressExpression''),
       (''exp'', KRep ''AddressExpression''), (''varRef'', KMsg ''VarRef'')] else
     if t = ''FixedListBool'' then [(''rexp'', KMsg ''BoolExpression''),
       (''exp'', KRep ''BoolExpression''), (''varRef'', KMsg ''VarRef'')] else
     if t = ''FixedListBytesM'' then [(''rexp'', KMsg ''BytesMExpression''),
       (''exp'', KRep ''BytesMExpression''), (''varRef'', KMsg ''VarRef'')] else
     if t = ''FixedListInt'' then [(''rexp'', KMsg ''IntExpression''),
       (''exp'', KRep ''IntExpression''), (''varRef'', KMsg ''VarRef''),
       (''ecadd'', KMsg ''EcAdd''), (''ecmul'', KMsg ''EcMul'')] else
     if t = ''FixedListDecimal'' then [(''rexp'', KMsg ''DecimalExpression''),
       (''exp'', KRep ''DecimalExpression''), (''varRef'', KMsg ''VarRef'')] else
     if t = ''DynArrayAddress'' then [(''rexp'', KMsg ''AddressExpression''),
       (''exp'', KRep ''AddressExpression''), (''varRef'', KMsg ''VarRef'')] else
     if t = ''DynArrayBool'' then [(''rexp'', KMsg ''BoolExpression''),
       (''exp'', KRep ''BoolExpression''), (''varRef'', KMsg ''VarRef'')] else
     if t = ''DynArrayBytesM'' then [(''rexp'', KMsg ''BytesMExpression''),
       (''exp'', KRep ''BytesMExpression''), (''varRef'', KMsg ''VarRef'')] else
     if t = ''DynArrayInt'' then [(''rexp'', KMsg ''IntExpression''),
       (''exp'', KRep ''IntExpression''), (''varRef'', KMsg ''VarRef'')] else
     if t = ''DynArrayDecimal'' then [(''rexp'', KMsg ''DecimalExpression''),
       (''exp'', KRep ''DecimalExpression''), (''varRef'', KMsg ''VarRef'')] else
     if t = ''DynArrayString'' then [(''rexp'', KMsg ''StringExpression''),
       (''exp'', KRep ''StringExpression''), (''varRef'', KMsg ''VarRef'')] else
     if t = ''DynArrayByteArray'' then [(''rexp'', KMsg ''BytesExpression''),
       (''exp'', KRep ''BytesExpression''), (''varRef'', KMsg ''VarRef'')] else
     if t = ''DynArrayListAddress'' then [(''rexp'', KMsg ''FixedListAddress''),
       (''exp'', KRep ''FixedListAddress''), (''varRef'', KMsg ''VarRef'')] else
     if t = ''DynArrayListDecimal'' then [(''rexp'', KMsg ''FixedListDecimal''),
       (''exp'', KRep ''FixedListDecimal''), (''varRef'', KMsg ''VarRef'')] else
     if t = ''DynArrayListBool'' then [(''rexp'', KMsg ''FixedListBool''),
       (''exp'', KRep ''FixedListBool''), (''varRef'', KMsg ''VarRef'')] else
     if t = ''DynArrayListBytesM'' then [(''rexp'', KMsg ''FixedListBytesM''),
       (''exp'', KRep ''FixedListBytesM''), (''varRef'', KMsg ''VarRef'')] else
     if t = ''DynArrayListInt'' then [(''rexp'', KMsg ''FixedListInt''),
       (''exp'', KRep ''FixedListInt''), (''varRef'', KMsg ''VarRef'')] else
     if t = ''Literal'' then [(''intval'', KUInt 64), (''boolval'', KBool),
       (''decimalval'', KUInt 64), (''bMval'', KBytes), (''strval'', KString),
       (''addval'', KUInt 64), (''barrval'', KUInt 64)] else
     if t = ''IfStmtCase'' then [(''cond'', KMsg ''BoolExpression''),
       (''if_body'', KMsg ''Block'')] else
     if t = ''IfStmt'' then [(''cases'', KRep ''IfStmtCase''),
       (''else_case'', KMsg ''Block'')] else
     if t = ''ForStmtRanged'' then [(''start'', KSInt 32), (''stop'', KSInt 32)] else
     if t = ''ForStmtVariable'' then [(''ref_id'', KMsg ''VarRef''), (''length'', KUInt 32)] else
     if t = ''ForStmt'' then [(''ranged'', KMsg ''ForStmtRanged''),
       (''variable'', KMsg ''ForStmtVariable''), (''body'', KMsg ''Block'')] else
     if t = ''VarDecl'' then [(''i'', KMsg ''Int''), (''b'', KMsg ''Bool''),
       (''d'', KMsg ''Decimal''), (''bM'', KMsg ''BytesM''), (''s'', KMsg ''String''),
       (''adr'', KMsg ''Address''), (''barr'', KMsg ''ByteArray''),
       (''expr'', KMsg ''TypedExpression''), (''mut'', KEnum 3), (''list'', KMsg ''FixedList''),
       (''dyn'', KMsg ''DynArray'')] else
     if t = ''AssignmentStatement'' then [(''ref_id'', KMsg ''VarRef''),
       (''expr'', KMsg ''TypedExpression'')] else
     if t = ''FuncCall'' then [(''func_num'', KUInt 32),
       (''params'', KMsg ''ReturnPayload'')] else
     if t = ''Statement'' then [(''decl'', KMsg ''VarDecl''),
       (''assignment'', KMsg ''AssignmentStatement''), (''for_stmt'', KMsg ''ForStmt''),
       (''if_stmt'', KMsg ''IfStmt''), (''func_call'', KMsg ''FuncCall''),
       (''cont_stmt'', KMsg ''ContinueStatement''), (''break_stmt'', KMsg ''BreakStatement''),
       (''assert_stmt'', KMsg ''AssertStatement''), (''append_stmt'', KMsg ''AppendArray''),
       (''pop_stmt'', KMsg ''PopArray''), (''send_stmt'', KMsg ''SendStatement''),
       (''raw_call'', KMsg ''RawCall''), (''raw_log'', KMsg ''RawLog'')] else
     if t = ''RawLog'' then [(''topics'', KMsg ''FixedListBytesM''), (''topic_amount'', KUInt 32),
       (''data_bs'', KMsg ''BytesExpression''), (''data_bm'', KMsg ''BytesMExpression'')] else
     if t = ''Block'' then [(''statements'', KRep ''Statement''),
       (''exit_d'', KMsg ''ExitStatement'')] else
     if t = ''Reentrancy'' then [(''key'', KString)] else
     if t = ''FixedList'' then [(''i'', KMsg ''Int''), (''b'', KMsg ''Bool''),
       (''d'', KMsg ''Decimal''), (''bM'', KMsg ''BytesM''), (''adr'', KMsg ''Address''),
       (''n'', KUInt 32)] else
     if t = ''DynArray'' then [(''i'', KMsg ''Int''), (''b'', KMsg ''Bool''),
       (''d'', KMsg ''Decimal''), (''bM'', KMsg ''BytesM''), (''s'', KMsg ''String''),
       (''adr'', KMsg ''Address''), (''barr'', KMsg ''ByteArray''),
       (''list'', KMsg ''FixedList''), (''n'', KUInt 32)] else
     if t = ''FuncParam'' then [(''i'', KMsg ''Int''), (''b'', KMsg ''Bool''),
       (''d'', KMsg ''Decimal''), (''bM'', KMsg ''BytesM''), (''s'', KMsg ''String''),
       (''adr'', KMsg ''Address''), (''barr'', KMsg ''ByteArray''),
       (''list'', KMsg ''FixedList''), (''dyn'', KMsg ''DynArray'')] else
     if t = ''Func'' then [(''vis'', KEnum 2), (''mut'', KEnum 4), (''ret'', KMsg ''Reentrancy''),
       (''input_params'', KRep ''FuncParam''), (''output_params'', KRep ''FuncParam''),
       (''block'', KMsg ''Block'')] else
     if t = ''ContractInit'' then [(''mut'', KEnum 2), (''input_params'', KRep ''FuncParam''),
       (''block'', KMsg ''Block''), (''flag'', KBool)] else
     if t = ''DefaultFunc'' then [(''mut'', KEnum 4), (''ret'', KMsg ''Reentrancy''),
       (''output_params'', KRep ''FuncParam''), (''block'', KMsg ''Block'')] else
     if t = ''Contract'' then [(''decls'', KRep ''VarDecl''), (''functions'', KRep ''Func''),
       (''init'', KMsg ''ContractInit''), (''def_func'', KMsg ''DefaultFunc'')] else
     if t = ''CreateMinimalProxy'' then [(''target'', KMsg ''AddressExpression''),
       (''value'', KMsg ''IntExpression''), (''salt'', KMsg ''BytesMExpression'')] else
     if t = ''CreateCopyOf'' then [(''target'', KMsg ''AddressExpression''),
       (''value'', KMsg ''IntExpression''), (''salt'', KMsg ''BytesMExpression'')] else
     if t = ''EcRecover'' then [(''hash'', KMsg ''BytesMExpression''),
       (''v8'', KMsg ''IntExpression''), (''vi'', KMsg ''IntExpression''),
       (''rb'', KMsg ''BytesMExpression''), (''ri'', KMsg ''IntExpression''),
       (''sb'', KMsg ''BytesMExpression''), (''si'', KMsg ''IntExpression'')] else
     if t = ''RawArgs'' then [(''arg'', KMsg ''BytesExpression''),
       (''flag'', KMsg ''Literal'')] else
     if t = ''CreateFromBlueprint'' then [(''target'', KMsg ''AddressExpression''),
       (''rawArgs'', KMsg ''RawArgs''), (''value'', KMsg ''IntExpression''),
       (''code_offset'', KMsg ''IntExpression''), (''salt'', KMsg ''BytesMExpression'')] else
     if t = ''SendStatement'' then [(''to'', KMsg ''AddressExpression''),
       (''amount'', KMsg ''IntExpression''), (''gas'', KMsg ''IntExpression'')] else
     if t = ''Selfdestruct'' then [(''to'', KMsg ''AddressExpression'')] else
     if t = ''Sha256'' then [(''strVal'', KMsg ''StringExpression''),
       (''bVal'', KMsg ''BytesExpression''), (''bmVal'', KMsg ''BytesMExpression'')] else
     if t = ''Keccak256'' then [(''strVal'', KMsg ''StringExpression''),
       (''bVal'', KMsg ''BytesExpression''), (''bmVal'', KMsg ''BytesMExpression'')] else
     if t = ''ExitStatement'' then [(''flag'', KBool), (''payload'', KMsg ''ReturnPayload''),
       (''selfd'', KMsg ''Selfdestruct''), (''raise_st'', KMsg ''RaiseStatement''),
       (''raw_revert'', KMsg ''RawRevert'')] else
     if t = ''RaiseStatement'' then [(''errval'', KMsg ''StringExpression'')] else
     if t = ''RawRevert'' then [(''data'', KMsg ''BytesExpression'')] else
     if t = ''ReturnPayload'' then [(''one'', KMsg ''TypedExpression''),
       (''two'', KMsg ''TypedExpression''), (''three'', KMsg ''TypedExpression''),
       (''four'', KMsg ''TypedExpression''), (''five'', KMsg ''TypedExpression'')] else
     if t = ''BreakStatement'' then [] else
     if t = ''ContinueStatement'' then [] else
     if t = ''AssertStatement'' then [(''cond'', KMsg ''BoolExpression''),
       (''reason'', KMsg ''StringExpression'')] else
     if t = ''AppendArray'' then [(''varRef'', KMsg ''VarRef''),
       (''expr'', KMsg ''TypedExpression'')] else
     if t = ''PopArray'' then [(''varRef'', KMsg ''VarRef'')] else
     if t = ''RawCall'' then [(''to'', KMsg ''AddressExpression''),
       (''data'', KMsg ''BytesExpression''), (''max_out'', KMsg ''Literal''),
       (''gas'', KMsg ''IntExpression''), (''value'', KMsg ''IntExpression''),
       (''delegate'', KMsg ''Literal''), (''static'', KMsg ''Literal''),
       (''revert'', KMsg ''Literal'')] else
     if t = ''EcAdd'' then [(''x'', KMsg ''FixedListInt''), (''y'', KMsg ''FixedListInt'')] else
     if t = ''EcMul'' then [(''point'', KMsg ''FixedListInt''),
       (''scalar'', KMsg ''IntExpression'')] else
     if t = ''ConcatString'' then [(''a'', KMsg ''StringTypeSize''),
       (''b'', KMsg ''StringTypeSize''), (''c'', KRep ''StringTypeSize'')] else
     if t = ''StringTypeSize'' then [(''s'', KMsg ''StringExpression''),
       (''s_size'', KUInt 32)] else
     if t = ''ConcatBytes'' then [(''a'', KMsg ''BytesTypesSize''),
       (''b'', KMsg ''BytesTypesSize''), (''c'', KRep ''BytesTypesSize'')] else
     if t = ''BytesTypesSize'' then [(''b_bm'', KMsg ''BytesMExpression''),
       (''b_bs'', KMsg ''BytesExpression''), (''s_size'', KUInt 32)] else [])"

text \<open>
  \<^verbatim>\<open>vyperProtoNewNoDecimal.proto\<close> is the same file without the messages and fields for
  decimals. Which one is loaded depends on the compiler version and the configuration
  (\<^verbatim>\<open>proto_loader.py\<close>), so the model carries it as a flag.
\<close>

definition decimal_messages :: "string list" where
  "decimal_messages = [''Decimal'', ''DecimalBoolBinOp'', ''DecimalBinOp'', ''DecimalUnOp'',
     ''DecimalExpression'', ''FixedListDecimal'', ''DynArrayDecimal'', ''DynArrayListDecimal'']"

definition is_decimal_field :: "string \<times> fkind \<Rightarrow> bool" where
  "is_decimal_field p = (fst p = ''decimalval'' \<or>
     (case snd p of KMsg t \<Rightarrow> t \<in> set decimal_messages | KRep t \<Rightarrow> t \<in> set decimal_messages
        | _ \<Rightarrow> False))"

definition proto_fields :: "bool \<Rightarrow> string \<Rightarrow> (string \<times> fkind) list" where
  "proto_fields decimals t =
     (if decimals then proto_message t
      else if t \<in> set decimal_messages then []
      else filter (\<lambda>p. \<not> is_decimal_field p) (proto_message t))"

definition field_kind :: "bool \<Rightarrow> string \<Rightarrow> string \<Rightarrow> fkind option" where
  "field_kind decimals t f = map_of (proto_fields decimals t) f"

section \<open>Reflection and accessors\<close>

definition present :: "msg \<Rightarrow> string \<Rightarrow> fval option" where
  "present m f = map_of (mfields m) f"

definition hasattr :: "bool \<Rightarrow> msg \<Rightarrow> string \<Rightarrow> bool" where
  "hasattr d m f = (field_kind d (mtype m) f \<noteq> None)"

text \<open>\<^verbatim>\<open>HasField\<close> is defined for singular message fields; any other name raises.\<close>

definition HasField :: "bool \<Rightarrow> msg \<Rightarrow> string \<Rightarrow> bool res" where
  "HasField d m f =
     (case field_kind d (mtype m) f of
        Some (KMsg t) \<Rightarrow> Inr (present m f \<noteq> None)
      | _ \<Rightarrow> Inl (ValueError f))"

definition is_int_kind :: "fkind \<Rightarrow> bool" where
  "is_int_kind k = (case k of KUInt w \<Rightarrow> True | KSInt w \<Rightarrow> True | KEnum c \<Rightarrow> True | _ \<Rightarrow> False)"

definition get_msg :: "bool \<Rightarrow> msg \<Rightarrow> string \<Rightarrow> msg res" where
  "get_msg d m f =
     (case field_kind d (mtype m) f of
        None \<Rightarrow> Inl (AttributeError f)
      | Some (KMsg t) \<Rightarrow> (case present m f of Some (VMsg x) \<Rightarrow> Inr x | _ \<Rightarrow> Inr (Msg t []))
      | Some _ \<Rightarrow> Inl (TypeError f))"

definition get_int :: "bool \<Rightarrow> msg \<Rightarrow> string \<Rightarrow> int res" where
  "get_int d m f =
     (case field_kind d (mtype m) f of
        None \<Rightarrow> Inl (AttributeError f)
      | Some k \<Rightarrow>
          (if is_int_kind k then (case present m f of Some (VInt x) \<Rightarrow> Inr x | _ \<Rightarrow> Inr 0)
           else Inl (TypeError f)))"

definition get_bool :: "bool \<Rightarrow> msg \<Rightarrow> string \<Rightarrow> bool res" where
  "get_bool d m f =
     (case field_kind d (mtype m) f of
        None \<Rightarrow> Inl (AttributeError f)
      | Some KBool \<Rightarrow> (case present m f of Some (VBool x) \<Rightarrow> Inr x | _ \<Rightarrow> Inr False)
      | Some _ \<Rightarrow> Inl (TypeError f))"

definition get_str :: "bool \<Rightarrow> msg \<Rightarrow> string \<Rightarrow> nat list res" where
  "get_str d m f =
     (case field_kind d (mtype m) f of
        None \<Rightarrow> Inl (AttributeError f)
      | Some KString \<Rightarrow> (case present m f of Some (VStr x) \<Rightarrow> Inr x | _ \<Rightarrow> Inr [])
      | Some _ \<Rightarrow> Inl (TypeError f))"

definition get_bytes :: "bool \<Rightarrow> msg \<Rightarrow> string \<Rightarrow> 8 word list res" where
  "get_bytes d m f =
     (case field_kind d (mtype m) f of
        None \<Rightarrow> Inl (AttributeError f)
      | Some KBytes \<Rightarrow> (case present m f of Some (VBytes x) \<Rightarrow> Inr x | _ \<Rightarrow> Inr [])
      | Some _ \<Rightarrow> Inl (TypeError f))"

definition get_rep :: "bool \<Rightarrow> msg \<Rightarrow> string \<Rightarrow> msg list res" where
  "get_rep d m f =
     (case field_kind d (mtype m) f of
        None \<Rightarrow> Inl (AttributeError f)
      | Some (KRep t) \<Rightarrow> (case present m f of Some (VRep x) \<Rightarrow> Inr x | _ \<Rightarrow> Inr [])
      | Some _ \<Rightarrow> Inl (TypeError f))"

section \<open>Messages that conform to the schema\<close>

text \<open>
  What the protobuf runtime guarantees of a message the mutator built: declared fields only, each
  at most once and with a value of its kind, integers within their width, declared enumerators.
\<close>

fun conforms :: "bool \<Rightarrow> msg \<Rightarrow> bool"
and conforms_val :: "bool \<Rightarrow> fkind \<Rightarrow> fval \<Rightarrow> bool"
where
  "conforms d (Msg t fs) =
     (distinct (map fst fs) \<and>
      list_all (\<lambda>p. case field_kind d t (fst p) of None \<Rightarrow> False | Some k \<Rightarrow> conforms_val d k (snd p)) fs)"
| "conforms_val d (KUInt w) (VInt i) = (0 \<le> i \<and> i < 2 ^ w)"
| "conforms_val d (KSInt w) (VInt i) = (- (2 ^ (w - 1)) \<le> i \<and> i < 2 ^ (w - 1))"
| "conforms_val d (KEnum c) (VInt i) = (0 \<le> i \<and> i < int c)"
| "conforms_val d KBool (VBool b) = True"
| "conforms_val d KString (VStr s) = True"
| "conforms_val d KBytes (VBytes b) = True"
| "conforms_val d (KMsg t) (VMsg m) = (mtype m = t \<and> conforms d m)"
| "conforms_val d (KRep t) (VRep ms) = list_all (\<lambda>m. mtype m = t \<and> conforms d m) ms"
| "conforms_val d k v = False"

lemma conforms_present:
  assumes "conforms d m" and "present m f = Some v"
  obtains k where "field_kind d (mtype m) f = Some k" and "conforms_val d k v"
proof -
  obtain t fs where m: "m = Msg t fs" by (cases m)
  have "(f, v) \<in> set fs" using assms(2) m by (auto simp: present_def dest: map_of_SomeD)
  then show thesis using assms(1) m that by (fastforce simp: list_all_iff split: option.splits)
qed

lemma conforms_empty [simp]: "conforms d (Msg t [])"
  by simp

lemma conforms_val_KMsg: "conforms_val d (KMsg t) v \<longleftrightarrow> (\<exists>m. v = VMsg m \<and> mtype m = t \<and> conforms d m)"
  by (cases v) auto

lemma conforms_val_KRep:
  "conforms_val d (KRep t) v \<longleftrightarrow> (\<exists>ms. v = VRep ms \<and> (\<forall>m \<in> set ms. mtype m = t \<and> conforms d m))"
  by (cases v) (auto simp: list_all_iff)

text \<open>Reading a declared sub-message never fails and yields a conforming message of its type.\<close>

lemma get_msg_conforms:
  assumes "conforms d m" and "field_kind d (mtype m) f = Some (KMsg t)"
  obtains x where "get_msg d m f = Inr x" and "mtype x = t" and "conforms d x"
proof (cases "present m f")
  case None
  then show thesis using assms that [of "Msg t []"] by (simp add: get_msg_def)
next
  case (Some v)
  then obtain x where "v = VMsg x" "mtype x = t" "conforms d x"
    using assms by (metis conforms_present conforms_val_KMsg option.inject)
  then show thesis using assms Some that [of x] by (simp add: get_msg_def)
qed

lemma get_rep_conforms:
  assumes "conforms d m" and "field_kind d (mtype m) f = Some (KRep t)"
  obtains xs where "get_rep d m f = Inr xs" and "\<forall>x \<in> set xs. mtype x = t \<and> conforms d x"
proof (cases "present m f")
  case None
  then show thesis using assms that [of "[]"] by (simp add: get_rep_def)
next
  case (Some v)
  then obtain xs where "v = VRep xs" "\<forall>x \<in> set xs. mtype x = t \<and> conforms d x"
    using assms by (metis conforms_present conforms_val_KRep option.inject)
  then show thesis using assms Some that [of xs] by (simp add: get_rep_def)
qed

lemma get_int_unsigned:
  assumes "conforms d m" and "field_kind d (mtype m) f = Some (KUInt w)"
  obtains i where "get_int d m f = Inr i" and "0 \<le> i" and "i < 2 ^ w"
proof (cases "present m f")
  case None
  then show thesis using assms that [of 0] by (simp add: get_int_def is_int_kind_def)
next
  case (Some v)
  then have "conforms_val d (KUInt w) v"
    using assms by (metis conforms_present option.inject)
  then obtain i where "v = VInt i" "0 \<le> i" "i < 2 ^ w" by (cases v) auto
  then show thesis using assms Some that [of i] by (simp add: get_int_def is_int_kind_def)
qed

lemma HasField_declared:
  "field_kind d (mtype m) f = Some (KMsg t) \<Longrightarrow> HasField d m f = Inr (present m f \<noteq> None)"
  by (simp add: HasField_def)

end
