(* ===== verification/Py_Eval.thy ===== *)
theory Py_Eval imports Proto begin

unbundle bit_operations_syntax

text \<open>
  What the converters use of Python's \<^verbatim>\<open>eval\<close>: it is applied to the text of a generated
  integer or decimal expression, inside a \<^verbatim>\<open>try\<close> whose handler catches everything. The
  text is an arithmetic expression over integer and float literals, or it mentions a name or a call,
  and evaluating it raises; a raise is \<open>None\<close>. Integer arithmetic is computed here. Float
  arithmetic is the hardware's and the C library's, so it comes as operations on bit patterns in the
  environment, next to the other things the program takes from outside the repository.
\<close>

section \<open>The environment\<close>

text \<open>An IEEE 754 double, as its bit pattern.\<close>

type_synonym pyfloat = "64 word"

datatype pyval = PyInt int | PyFloat pyfloat | PyComplex pyfloat pyfloat

text \<open>
  \<open>decimals\<close> says which protocol file is loaded, \<open>checksum_encode\<close> is the function
  of \<^verbatim>\<open>vyper.utils\<close>, \<open>max_bits\<close> bounds the integers that fit into memory and
  \<open>max_parens\<close> the parentheses that the parser nests; the
  other fields are float literals, conversions, arithmetic (\<open>None\<close>: ZeroDivisionError or
  OverflowError), comparisons with an integer and the text of a float.
\<close>

record pyenv =
  decimals :: bool
  checksum_encode :: "string \<Rightarrow> string"
  max_bits :: nat
  max_parens :: nat
  f_parse :: "string \<Rightarrow> pyfloat"
  f_of_int :: "int \<Rightarrow> pyfloat option"
  f_int_div :: "int \<Rightarrow> int \<Rightarrow> pyfloat option"
  f_neg :: "pyfloat \<Rightarrow> pyfloat"
  f_bin :: "string \<Rightarrow> pyfloat \<Rightarrow> pyfloat \<Rightarrow> pyval option"
  f_complex :: "string \<Rightarrow> pyval \<Rightarrow> pyval \<Rightarrow> pyval option"
  f_less :: "pyfloat \<Rightarrow> int \<Rightarrow> bool"
  f_greater :: "pyfloat \<Rightarrow> int \<Rightarrow> bool"
  f_equal :: "pyfloat \<Rightarrow> int \<Rightarrow> bool"
  f_repr :: "pyfloat \<Rightarrow> string"

section \<open>Arithmetic\<close>

fun bit_length :: "nat \<Rightarrow> nat" where
  "bit_length n = (if n = 0 then 0 else Suc (bit_length (n div 2)))"

declare bit_length.simps [simp del]

text \<open>Powers and shifts whose result does not fit into memory raise.\<close>

definition int_pow :: "pyenv \<Rightarrow> int \<Rightarrow> nat \<Rightarrow> pyval option" where
  "int_pow E a k =
     (if 2 \<le> \<bar>a\<bar> \<and> max_bits E < k * bit_length (nat \<bar>a\<bar>) then None else Some (PyInt (a ^ k)))"

definition int_shl :: "pyenv \<Rightarrow> int \<Rightarrow> nat \<Rightarrow> pyval option" where
  "int_shl E a k =
     (if a = 0 then Some (PyInt 0)
      else if max_bits E < k + bit_length (nat \<bar>a\<bar>) then None
      else Some (PyInt (a * 2 ^ k)))"

definition float_bin :: "pyenv \<Rightarrow> string \<Rightarrow> pyfloat option \<Rightarrow> pyfloat option \<Rightarrow> pyval option" where
  "float_bin E opr a b =
     (case (a, b) of (Some x, Some y) \<Rightarrow> f_bin E opr x y | _ \<Rightarrow> None)"

definition int_bin :: "pyenv \<Rightarrow> string \<Rightarrow> int \<Rightarrow> int \<Rightarrow> pyval option" where
  "int_bin E opr a b =
     (if opr = ''+'' then Some (PyInt (a + b))
      else if opr = ''-'' then Some (PyInt (a - b))
      else if opr = ''*'' then Some (PyInt (a * b))
      else if opr = ''/'' then (if b = 0 then None else map_option PyFloat (f_int_div E a b))
      else if opr = ''//'' then (if b = 0 then None else Some (PyInt (a div b)))
      else if opr = ''%'' then (if b = 0 then None else Some (PyInt (a mod b)))
      else if opr = ''**'' then
        (if b < 0 then float_bin E opr (f_of_int E a) (f_of_int E b) else int_pow E a (nat b))
      else if opr = ''&'' then Some (PyInt (a AND b))
      else if opr = ''|'' then Some (PyInt (a OR b))
      else if opr = ''^'' then Some (PyInt (a XOR b))
      else if opr = ''<<'' then (if b < 0 then None else int_shl E a (nat b))
      else if opr = ''>>'' then (if b < 0 then None else Some (PyInt (drop_bit (nat b) a)))
      else None)"

text \<open>Mixed operands are converted to float; bit operations do not take floats.\<close>

definition is_bit_op :: "string \<Rightarrow> bool" where
  "is_bit_op opr = (opr \<in> set [''&'', ''|'', ''^'', ''<<'', ''>>''])"

fun as_float :: "pyenv \<Rightarrow> pyval \<Rightarrow> pyfloat option" where
  "as_float E (PyInt i) = f_of_int E i"
| "as_float E (PyFloat f) = Some f"
| "as_float E (PyComplex a b) = None"

definition is_complex :: "pyval \<Rightarrow> bool" where
  "is_complex v = (case v of PyComplex a b \<Rightarrow> True | _ \<Rightarrow> False)"

definition val_bin :: "pyenv \<Rightarrow> string \<Rightarrow> pyval \<Rightarrow> pyval \<Rightarrow> pyval option" where
  "val_bin E opr v w =
     (case (v, w) of
        (PyInt a, PyInt b) \<Rightarrow> int_bin E opr a b
      | _ \<Rightarrow>
        (if is_bit_op opr then None
         else if is_complex v \<or> is_complex w then f_complex E opr v w
         else float_bin E opr (as_float E v) (as_float E w)))"

fun val_neg :: "pyenv \<Rightarrow> pyval \<Rightarrow> pyval" where
  "val_neg E (PyInt i) = PyInt (- i)"
| "val_neg E (PyFloat f) = PyFloat (f_neg E f)"
| "val_neg E (PyComplex a b) = PyComplex (f_neg E a) (f_neg E b)"

section \<open>Tokens\<close>

datatype token = TInt int | TFloat string | TOp string | TLpar | TRpar

definition skip_digits :: "string \<Rightarrow> string \<times> string" where
  "skip_digits s = (takeWhile is_digit s, dropWhile is_digit s)"

text \<open>The fraction and the exponent of a float literal: the text read and the rest.\<close>

definition lex_fraction :: "string \<Rightarrow> string \<times> string" where
  "lex_fraction s =
     (case s of
        c # r \<Rightarrow> (if c = CHR ''.'' then (c # fst (skip_digits r), snd (skip_digits r)) else ([], s))
      | [] \<Rightarrow> ([], s))"

definition lex_exponent :: "string \<Rightarrow> (string \<times> string) option" where
  "lex_exponent s =
     (case s of
        c # r \<Rightarrow>
          (if c \<noteq> CHR ''e'' then Some ([], s)
           else
             (case r of
                [] \<Rightarrow> None
              | g # r' \<Rightarrow>
                  (let (sg, ds) = (if g = CHR ''+'' \<or> g = CHR ''-'' then ([g], r') else ([], r))
                   in if fst (skip_digits ds) = [] then None
                      else Some (c # sg @ fst (skip_digits ds), snd (skip_digits ds)))))
      | [] \<Rightarrow> Some ([], s))"

text \<open>A number; an integer literal has no leading zero.\<close>

definition lex_number :: "string \<Rightarrow> (token \<times> string) option" where
  "lex_number s =
     (let ds = fst (skip_digits s); (fr, r) = lex_fraction (snd (skip_digits s))
      in case lex_exponent r of
           None \<Rightarrow> None
         | Some (ex, r') \<Rightarrow>
             (if fr = [] \<and> ex = [] then
                (if 1 < length ds \<and> hd ds = CHR ''0'' \<and> digits_val 0 ds \<noteq> 0 then None
                 else Some (TInt (int (digits_val 0 ds)), r'))
              else Some (TFloat (ds @ fr @ ex), r')))"

definition lex_op :: "string \<Rightarrow> (string \<times> string) option" where
  "lex_op s =
     (case s of
        [] \<Rightarrow> None
      | c # r \<Rightarrow>
          (if r \<noteq> [] \<and> hd r = c \<and> c \<in> set ''*/<>'' then Some ([c, c], tl r)
           else if c \<in> set ''+-*/%&|^'' then Some ([c], r)
           else None))"

lemma skip_digits_le: "length (snd (skip_digits s)) \<le> length s"
  by (simp add: skip_digits_def length_dropWhile_le)

lemma lex_fraction_le: "length (snd (lex_fraction s)) \<le> length s"
  using skip_digits_le by (auto simp: lex_fraction_def le_SucI split: list.split)

lemma lex_exponent_le: "lex_exponent s = Some (e, r) \<Longrightarrow> length r \<le> length s"
proof -
  assume h: "lex_exponent s = Some (e, r)"
  have le: "length (snd (skip_digits x)) \<le> Suc (Suc (length x))" for x
    using skip_digits_le [of x] by simp
  show ?thesis
    using h le skip_digits_le le_trans
    by (auto simp: lex_exponent_def Let_def split: list.splits if_splits) (metis le_SucI length_Cons)+
qed

lemma lex_number_less:
  assumes "lex_number (c # cs) = Some (t, r)" and "is_digit c"
  shows "length r < length (c # cs)"
proof -
  let ?d = "snd (skip_digits (c # cs))"
  obtain e where e: "lex_exponent (snd (lex_fraction ?d)) = Some (e, r)"
    using assms(1) by (auto simp: lex_number_def Let_def split: option.splits prod.splits if_splits)
  have "length r \<le> length ?d"
    using lex_exponent_le [OF e] lex_fraction_le le_trans by blast
  moreover have "length ?d \<le> length cs"
    using assms(2) skip_digits_le [of cs] by (simp add: skip_digits_def)
  ultimately show ?thesis by simp
qed

lemma lex_op_less: "lex_op s = Some (opr, r) \<Longrightarrow> length r < length s"
  by (auto simp: lex_op_def split: list.splits if_splits)

function lex :: "string \<Rightarrow> token list option" where
  "lex [] = Some []"
| "lex (c # cs) =
     (if c = CHR '' '' then lex cs
      else if is_digit c then
        (case lex_number (c # cs) of
           None \<Rightarrow> None
         | Some p \<Rightarrow> map_option ((#) (fst p)) (lex (snd p)))
      else if c = CHR ''('' then map_option ((#) TLpar) (lex cs)
      else if c = CHR '')'' then map_option ((#) TRpar) (lex cs)
      else
        (case lex_op (c # cs) of
           None \<Rightarrow> None
         | Some p \<Rightarrow> map_option ((#) (TOp (fst p))) (lex (snd p))))"
  by pat_completeness auto
termination
  by (relation "measure length") (auto dest: lex_number_less lex_op_less)

declare lex.simps(2) [simp del]

section \<open>Evaluation by operator precedence\<close>

text \<open>
  Python's precedences: \<open>|\<close>, \<open>^\<close>, \<open>&\<close>, shifts, sums, products, unary minus,
  and \<open>**\<close>, which groups to the right and binds tighter than a minus on its left. The state
  holds the operand values, the pending operators and whether an operand is expected next.
\<close>

datatype pending = Neg | Bin string | Paren

type_synonym estate = "pyval list \<times> pending list \<times> bool"

definition prec :: "string \<Rightarrow> nat" where
  "prec opr =
     (if opr = ''|'' then 1
      else if opr = ''^'' then 2
      else if opr = ''&'' then 3
      else if opr = ''<<'' \<or> opr = ''>>'' then 4
      else if opr = ''+'' \<or> opr = ''-'' then 5
      else if opr = ''**'' then 8
      else 6)"

fun binds :: "pending \<Rightarrow> nat \<Rightarrow> bool" where
  "binds Neg p = (p < 7)"
| "binds (Bin opr) p = (p < prec opr \<or> p = prec opr \<and> p \<noteq> 8)"
| "binds Paren p = False"

fun reduce_top :: "pyenv \<Rightarrow> pending \<Rightarrow> pyval list \<Rightarrow> pyval list option" where
  "reduce_top E Neg (v # vs) = Some (val_neg E v # vs)"
| "reduce_top E (Bin opr) (w # v # vs) = map_option (\<lambda>x. x # vs) (val_bin E opr v w)"
| "reduce_top E q vs = None"

fun reduce_while ::
  "pyenv \<Rightarrow> nat \<Rightarrow> pyval list \<Rightarrow> pending list \<Rightarrow> (pyval list \<times> pending list) option" where
  "reduce_while E p vs [] = Some (vs, [])"
| "reduce_while E p vs (q # qs) =
     (if binds q p then
        (case reduce_top E q vs of None \<Rightarrow> None | Some us \<Rightarrow> reduce_while E p us qs)
      else Some (vs, q # qs))"

fun eval_step :: "pyenv \<Rightarrow> token \<Rightarrow> estate \<Rightarrow> estate option" where
  "eval_step E (TInt i) (vs, qs, True) = Some (PyInt i # vs, qs, False)"
| "eval_step E (TFloat t) (vs, qs, True) = Some (PyFloat (f_parse E t) # vs, qs, False)"
| "eval_step E TLpar (vs, qs, True) = Some (vs, Paren # qs, True)"
| "eval_step E (TOp opr) (vs, qs, True) = 
     (if opr = ''-'' then Some (vs, Neg # qs, True)
      else if opr = ''+'' then Some (vs, qs, True)
      else None)"
| "eval_step E (TOp opr) (vs, qs, False) =
     map_option (\<lambda>(us, rs). (us, Bin opr # rs, True)) (reduce_while E (prec opr) vs qs)"
| "eval_step E TRpar (vs, qs, False) =
     (case reduce_while E 0 vs qs of
        Some (us, Paren # rs) \<Rightarrow> Some (us, rs, False)
      | _ \<Rightarrow> None)"
| "eval_step E t st = None"

fun eval_tokens :: "pyenv \<Rightarrow> token list \<Rightarrow> estate \<Rightarrow> estate option" where
  "eval_tokens E [] st = Some st"
| "eval_tokens E (t # ts) st =
     (case eval_step E t st of None \<Rightarrow> None | Some st' \<Rightarrow> eval_tokens E ts st')"

definition eval_finish :: "pyenv \<Rightarrow> estate \<Rightarrow> pyval option" where
  "eval_finish E st =
     (case st of
        (vs, qs, True) \<Rightarrow> None
      | (vs, qs, False) \<Rightarrow>
          (case reduce_while E 0 vs qs of Some ([v], []) \<Rightarrow> Some v | _ \<Rightarrow> None))"

text \<open>An expression with more open parentheses than the parser nests is a syntax error.\<close>

fun parens_fit :: "nat \<Rightarrow> nat \<Rightarrow> token list \<Rightarrow> bool" where
  "parens_fit limit k [] = True"
| "parens_fit limit k (t # ts) =
     (if t = TLpar then k < limit \<and> parens_fit limit (k + 1) ts
      else parens_fit limit (if t = TRpar then k - 1 else k) ts)"

definition py_eval :: "pyenv \<Rightarrow> string \<Rightarrow> pyval option" where
  "py_eval E s =
     (case lex s of
        None \<Rightarrow> None
      | Some ts \<Rightarrow>
          if \<not> parens_fit (max_parens E) 0 ts then None else
          (case eval_tokens E ts ([], [], True) of None \<Rightarrow> None | Some st \<Rightarrow> eval_finish E st))"

section \<open>The text of an integer evaluates to the integer\<close>

lemma takeWhile_nat_str [simp]:
  "takeWhile is_digit (nat_str n) = nat_str n" "dropWhile is_digit (nat_str n) = []"
  using nat_str_digits by (auto simp: takeWhile_eq_all_conv dropWhile_eq_Nil_conv)

lemma hd_nat_str_zero: "hd (nat_str n) = CHR ''0'' \<Longrightarrow> n = 0"
proof (induction n rule: nat_str.induct)
  case (1 n)
  show ?case
  proof (cases "n < 10")
    case True
    then show ?thesis using "1.prems"
      by (subst (asm) nat_str.simps) (auto dest!: less_ten_cases simp: digit_char_def)
  next
    case False
    then have "hd (nat_str n) = hd (nat_str (n div 10))"
      by (subst nat_str.simps) simp
    then show ?thesis using "1.prems" "1.IH" False by (simp add: div_eq_0_iff)
  qed
qed

lemma lex_number_nat_str: "lex_number (nat_str n) = Some (TInt (int n), [])"
  using hd_nat_str_zero [of n]
  by (auto simp: lex_number_def skip_digits_def lex_fraction_def lex_exponent_def Let_def)

lemma lex_nat_str [simp]: "lex (nat_str n) = Some [TInt (int n)]"
proof -
  obtain c cs where c: "nat_str n = c # cs" by (cases "nat_str n") auto
  have "is_digit c" using nat_str_digits [of c n] c by simp
  moreover have "c \<noteq> CHR '' ''"
    using \<open>is_digit c\<close> by (auto simp: is_digit_def digit_val_def Let_def)
  ultimately show ?thesis
    using lex_number_nat_str [of n] c by (simp add: lex.simps(2))
qed

lemma py_eval_py_str [simp]: "py_eval E (py_str i) = Some (PyInt i)"
proof (cases "i < 0")
  case True
  have "lex (CHR ''-'' # nat_str (nat (- i))) = Some [TOp ''-'', TInt (- i)]"
    using True by (simp add: lex.simps(2) lex_op_def is_digit_def digit_val_def Let_def)
  then show ?thesis using True by (simp add: py_eval_def py_str_def eval_finish_def)
next
  case False
  then show ?thesis by (simp add: py_eval_def py_str_def eval_finish_def)
qed

end
