(* ===== verification/Vy_Types.thy ===== *)
theory Vy_Types imports Py_Eval begin

text \<open>
  The type classes of \<^verbatim>\<open>fuzz/types_d/types.py\<close>: one constructor per class, the range
  checks of the class constructors, the Vyper name, the class name and the equality the classes
  define. The facts at the end show that a type is determined by its Vyper name, which is why the
  trackers may key their dicts by types.
\<close>

section \<open>Types\<close>

text \<open>
  \<open>DynArray\<close> carries its current size as well. \<open>NoneType\<close> is Python's None where a
  type is expected: the converter asks for any dynamic array with None as the element type.
\<close>

datatype vy_type =
    Bool
  | Decimal
  | Address
  | IntT nat bool
  | Bytes nat
  | BytesM nat
  | String nat
  | FixedList nat vy_type
  | DynArray nat vy_type nat
  | NoneType

text \<open>The constructors' range checks.\<close>

definition mk_Bytes :: "int \<Rightarrow> vy_type res" where
  "mk_Bytes m = (if m < 0 then Inl (TypeRangeError m) else Inr (Bytes (nat m)))"

definition mk_BytesM :: "int \<Rightarrow> vy_type res" where
  "mk_BytesM m =
     (if m < 0 then Inl (TypeRangeError m)
      else if \<not> (0 < m \<and> m \<le> 32) then Inl (TypeRangeError m)
      else Inr (BytesM (nat m)))"

definition mk_String :: "int \<Rightarrow> vy_type res" where
  "mk_String m = (if m < 0 then Inl (TypeRangeError m) else Inr (String (nat m)))"

definition mk_Int :: "int \<Rightarrow> bool \<Rightarrow> vy_type res" where
  "mk_Int n sgd = (if n mod 8 \<noteq> 0 then Inl (TypeRangeError n) else Inr (IntT (nat n) sgd))"

fun vyper_type :: "vy_type \<Rightarrow> string" where
  "vyper_type Bool = ''bool''"
| "vyper_type Decimal = ''decimal''"
| "vyper_type Address = ''address''"
| "vyper_type (IntT n sgd) = (if sgd then ''int'' else ''uint'') @ nat_str n"
| "vyper_type (Bytes m) = ''Bytes['' @ nat_str m @ '']''"
| "vyper_type (BytesM m) = ''bytes'' @ nat_str m"
| "vyper_type (String m) = ''String['' @ nat_str m @ '']''"
| "vyper_type (FixedList k b) = vyper_type b @ ''['' @ nat_str k @ '']''"
| "vyper_type (DynArray k b cur) = ''DynArray['' @ vyper_type b @ '','' @ nat_str k @ '']''"
| "vyper_type NoneType = ''None''"

fun type_name :: "vy_type \<Rightarrow> string" where
  "type_name Bool = ''BOOL''"
| "type_name Decimal = ''DECIMAL''"
| "type_name Address = ''ADDRESS''"
| "type_name (IntT n sgd) = ''INT''"
| "type_name (Bytes m) = ''BYTES''"
| "type_name (BytesM m) = ''BYTESM''"
| "type_name (String m) = ''STRING''"
| "type_name (FixedList k b) = ''FL_'' @ type_name b"
| "type_name (DynArray k b cur) = ''DA_'' @ type_name b"
| "type_name NoneType = ''NONETYPE''"

text \<open>
  \<^verbatim>\<open>isinstance\<close> tests. \<open>BytesM\<close> and \<open>String\<close> are subclasses of
  \<open>Bytes\<close>, \<open>DynArray\<close> is one of \<open>FixedList\<close>.
\<close>

definition isinstance_Bytes :: "vy_type \<Rightarrow> bool" where
  "isinstance_Bytes t = (case t of Bytes m \<Rightarrow> True | BytesM m \<Rightarrow> True | String m \<Rightarrow> True | _ \<Rightarrow> False)"

definition isinstance_Int :: "vy_type \<Rightarrow> bool" where
  "isinstance_Int t = (case t of IntT n sgd \<Rightarrow> True | _ \<Rightarrow> False)"

definition isinstance_BytesM :: "vy_type \<Rightarrow> bool" where
  "isinstance_BytesM t = (case t of BytesM m \<Rightarrow> True | _ \<Rightarrow> False)"

definition isinstance_DynArray :: "vy_type \<Rightarrow> bool" where
  "isinstance_DynArray t = (case t of DynArray k b cur \<Rightarrow> True | _ \<Rightarrow> False)"

definition isinstance_FixedList :: "vy_type \<Rightarrow> bool" where
  "isinstance_FixedList t =
     (case t of FixedList k b \<Rightarrow> True | DynArray k b cur \<Rightarrow> True | _ \<Rightarrow> False)"

text \<open>The \<^verbatim>\<open>m\<close> of a \<^verbatim>\<open>Bytes\<close>, \<^verbatim>\<open>size\<close> of a list and \<^verbatim>\<open>base_type\<close> of a list, which other types lack.\<close>

definition attr_m :: "vy_type \<Rightarrow> nat res" where
  "attr_m t =
     (case t of Bytes m \<Rightarrow> Inr m | BytesM m \<Rightarrow> Inr m | String m \<Rightarrow> Inr m
      | _ \<Rightarrow> Inl (AttributeError ''m''))"

definition attr_size :: "vy_type \<Rightarrow> nat res" where
  "attr_size t =
     (case t of FixedList k b \<Rightarrow> Inr k | DynArray k b cur \<Rightarrow> Inr k
      | _ \<Rightarrow> Inl (AttributeError ''size''))"

definition attr_base_type :: "vy_type \<Rightarrow> vy_type res" where
  "attr_base_type t =
     (case t of FixedList k b \<Rightarrow> Inr b | DynArray k b cur \<Rightarrow> Inr b
      | _ \<Rightarrow> Inl (AttributeError ''base_type''))"

text \<open>
  \<^verbatim>\<open>__eq__\<close>: sizes and signedness count for the byte and integer classes; two lists of
  the same class are equal whatever they hold.
\<close>

definition py_eq :: "vy_type \<Rightarrow> vy_type \<Rightarrow> bool" where
  "py_eq t u =
     (case t of
        FixedList k b \<Rightarrow> (case u of FixedList k' b' \<Rightarrow> True | _ \<Rightarrow> False)
      | DynArray k b cur \<Rightarrow> (case u of DynArray k' b' cur' \<Rightarrow> True | _ \<Rightarrow> False)
      | _ \<Rightarrow> t = u)"

text \<open>
  A dict finds a key whose hash and value are equal; the classes hash their Vyper name.
\<close>

definition key_eq :: "vy_type \<Rightarrow> vy_type \<Rightarrow> bool" where
  "key_eq t u = (vyper_type t = vyper_type u \<and> py_eq t u)"

section \<open>The Vyper name determines the type\<close>

text \<open>Types a list may hold: no dynamic array and no None inside.\<close>

fun element_type :: "vy_type \<Rightarrow> bool" where
  "element_type (FixedList k b) = element_type b"
| "element_type (DynArray k b cur) = False"
| "element_type NoneType = False"
| "element_type t = True"

definition is_list :: "vy_type \<Rightarrow> bool" where
  "is_list t = (case t of FixedList k b \<Rightarrow> True | DynArray k b cur \<Rightarrow> True | _ \<Rightarrow> False)"

lemma nat_str_no_bracket: "CHR ''['' \<notin> set (nat_str n)"
  using nat_str_digits [of "CHR ''[''" n] by (auto simp: is_digit_def digit_val_def Let_def)

lemma split_at_first:
  "x \<notin> set xs \<Longrightarrow> x \<notin> set us \<Longrightarrow> xs @ x # ys = us @ x # vs \<Longrightarrow> xs = us \<and> ys = vs"
  by (induction xs arbitrary: us) (auto simp: Cons_eq_append_conv)

lemma bracket_split:
  assumes "xs @ ''['' @ nat_str k @ '']'' = ys @ ''['' @ nat_str l @ '']''"
  shows "xs = ys \<and> k = l"
proof -
  have "rev (nat_str k) @ CHR ''['' # rev xs = rev (nat_str l) @ CHR ''['' # rev ys"
    using arg_cong [OF assms, of rev] by simp
  then have "rev (nat_str k) = rev (nat_str l) \<and> rev xs = rev ys"
    by (rule split_at_first [rotated 2]) (simp_all add: nat_str_no_bracket)
  then show ?thesis by (simp add: nat_str_inj)
qed

lemma last_nat_str: "last (nat_str n) \<noteq> CHR '']''"
  using nat_str_digits [of "last (nat_str n)" n]
  by (auto simp: is_digit_def digit_val_def Let_def)

lemma nat_str_not_letter:
  "nat_str n \<noteq> CHR ''l'' # xs" "nat_str n \<noteq> CHR ''s'' # xs"
  using hd_nat_str_digit [of n] by (auto simp: is_digit_def digit_val_def Let_def)

lemma last_fixed_list: "last (vyper_type (FixedList k b)) = CHR '']''"
  by simp

lemma vyper_type_not_class: "element_type b \<Longrightarrow> vyper_type b \<noteq> ''Bytes'' \<and> vyper_type b \<noteq> ''String''"
  using last_fixed_list by (cases b) (auto simp: append_eq_Cons_conv)

definition bracketed :: "vy_type \<Rightarrow> bool" where
  "bracketed t = (case t of Bytes m \<Rightarrow> True | String m \<Rightarrow> True | FixedList k b \<Rightarrow> True | _ \<Rightarrow> False)"

lemma last_vyper_type:
  "element_type t \<Longrightarrow> last (vyper_type t) = CHR '']'' \<longleftrightarrow> bracketed t"
  using last_nat_str by (cases t) (auto simp: bracketed_def last_append)

definition bracket_prefix :: "vy_type \<Rightarrow> string" where
  "bracket_prefix t =
     (case t of Bytes m \<Rightarrow> ''Bytes'' | String m \<Rightarrow> ''String'' | FixedList k b \<Rightarrow> vyper_type b | _ \<Rightarrow> [])"

definition bracket_size :: "vy_type \<Rightarrow> nat" where
  "bracket_size t = (case t of Bytes m \<Rightarrow> m | String m \<Rightarrow> m | FixedList k b \<Rightarrow> k | _ \<Rightarrow> 0)"

lemma vyper_type_bracket:
  "bracketed t \<Longrightarrow> vyper_type t = bracket_prefix t @ ''['' @ nat_str (bracket_size t) @ '']''"
  by (cases t) (simp_all add: bracketed_def bracket_prefix_def bracket_size_def)

lemma bracket_parts:
  assumes "bracketed t" "bracketed u" "vyper_type t = vyper_type u"
  shows "bracket_prefix t = bracket_prefix u \<and> bracket_size t = bracket_size u"
  by (rule bracket_split) (use assms vyper_type_bracket in simp)

lemma vyper_type_inj_flat:
  assumes "element_type t" "element_type u" "\<not> bracketed t" "\<not> bracketed u"
    and "vyper_type t = vyper_type u"
  shows "t = u"
  using assms by (cases t; cases u) (auto simp: bracketed_def nat_str_inj split: if_splits)

lemma vyper_type_inj_step:
  assumes el: "element_type t" "element_type u" and eq: "vyper_type t = vyper_type u"
    and IH: "\<And>k b c. t = FixedList k b \<Longrightarrow> element_type c \<Longrightarrow> vyper_type b = vyper_type c \<Longrightarrow> b = c"
  shows "t = u"
proof (cases "bracketed t")
  case False
  then have "\<not> bracketed u" using last_vyper_type el eq by metis
  then show ?thesis using vyper_type_inj_flat el eq False by blast
next
  case True
  then have bu: "bracketed u" using last_vyper_type el eq by metis
  note parts = bracket_parts [OF True bu eq]
  have nt: "t = FixedList k b \<Longrightarrow> vyper_type b \<noteq> ''Bytes'' \<and> vyper_type b \<noteq> ''String''" for k b
    using el(1) vyper_type_not_class by simp
  have nu: "u = FixedList k b \<Longrightarrow> vyper_type b \<noteq> ''Bytes'' \<and> vyper_type b \<noteq> ''String''" for k b
    using el(2) vyper_type_not_class by simp
  show ?thesis
  proof (cases t)
    case (Bytes m)
    then show ?thesis using parts bu nu [of _ "case u of FixedList k b \<Rightarrow> b | _ \<Rightarrow> NoneType"]
      by (cases u) (simp_all add: bracketed_def bracket_prefix_def bracket_size_def)
  next
    case (String m)
    then show ?thesis using parts bu nu [of _ "case u of FixedList k b \<Rightarrow> b | _ \<Rightarrow> NoneType"]
      by (cases u) (simp_all add: bracketed_def bracket_prefix_def bracket_size_def)
  next
    case (FixedList k b)
    show ?thesis
    proof (cases u)
      case (FixedList l c)
      then show ?thesis using parts el(2) IH [of k b c] \<open>t = FixedList k b\<close>
        by (simp add: bracketed_def bracket_prefix_def bracket_size_def)
    qed (use FixedList parts bu nt [of k b] in
        \<open>simp_all add: bracketed_def bracket_prefix_def bracket_size_def\<close>)
  qed (use True in \<open>simp_all add: bracketed_def\<close>)
qed

lemma vyper_type_injD:
  "element_type t \<Longrightarrow> element_type u \<Longrightarrow> vyper_type t = vyper_type u \<Longrightarrow> t = u"
proof (induction t arbitrary: u)
  case (FixedList k b)
  show ?case
  proof (rule vyper_type_inj_step [OF FixedList.prems])
    fix j b' c
    assume "FixedList k b = FixedList j b'" "element_type c" "vyper_type b' = vyper_type c"
    then show "b' = c" using FixedList.IH [of c] FixedList.prems(1) by simp
  qed
qed (erule (2) vyper_type_inj_step, simp)+

lemma vyper_type_inj:
  "element_type t \<Longrightarrow> element_type u \<Longrightarrow> vyper_type t = vyper_type u \<longleftrightarrow> t = u"
  by (blast intro: vyper_type_injD)

lemma key_eq_iff: "element_type t \<Longrightarrow> element_type u \<Longrightarrow> key_eq t u \<longleftrightarrow> t = u"
  by (auto simp: key_eq_def vyper_type_inj py_eq_def split: vy_type.splits)

end
