(* ===== verification/Vy_Literals.thy ===== *)
theory Vy_Literals imports Vy_Types begin

text \<open>
  The literal generators (\<^verbatim>\<open>literal_value_generator.py\<close>), \<^verbatim>\<open>fill_address\<close>
  and the bounds checks that \<^verbatim>\<open>Int\<close> applies to generated operands and expressions.
\<close>

section \<open>Literals\<close>

definition get_value_boundaries :: "nat \<Rightarrow> bool \<Rightarrow> int \<times> int" where
  "get_value_boundaries n sgd =
     (if sgd then (- (2 ^ (n - 1)), 2 ^ (n - 1) - 1) else (0, 2 ^ n - 1))"

definition int_literal :: "nat \<Rightarrow> bool \<Rightarrow> int \<Rightarrow> string" where
  "int_literal n sgd v =
     (let (low, up) = get_value_boundaries n sgd in py_str (v mod (up - low + 1) + low))"

definition bytes_literal :: "nat \<Rightarrow> nat \<Rightarrow> string" where
  "bytes_literal m v =
     (let hex_val = nat_hex v;
          hex_val = (if length hex_val < m then hex_val else take m hex_val)
      in ''b'' @ [CHR 0x22] @ hex_val @ [CHR 0x22])"

definition fill_address :: "string \<Rightarrow> string" where
  "fill_address adr =
     (if length adr < 42 then adr @ replicate (42 - length adr) (CHR ''0'') else adr)"

definition address_literal :: "pyenv \<Rightarrow> nat \<Rightarrow> string" where
  "address_literal E v = checksum_encode E (fill_address (take 42 (py_hex v)))"

definition byte_hex :: "8 word \<Rightarrow> string" where
  "byte_hex b = [hex_char (unat b div 16), hex_char (unat b mod 16)]"

definition bytes_hex :: "8 word list \<Rightarrow> string" where
  "bytes_hex bs = concat (map byte_hex bs)"

definition bytesM_literal :: "nat \<Rightarrow> 8 word list \<Rightarrow> string" where
  "bytesM_literal m bs =
     (let hex_val = bytes_hex bs;
          hex_val = (if m * 2 \<le> length hex_val then take (m * 2) hex_val else hex_val);
          hex_val = (if length hex_val mod 2 = 0 then '''' else ''0'') @ hex_val;
          hex_val = (if length hex_val < m * 2
                     then hex_val @ concat (replicate (m - length hex_val div 2) ''00'') else hex_val)
      in ''0x'' @ hex_val)"

definition bool_literal :: "bool \<Rightarrow> string" where
  "bool_literal b = (if b then ''True'' else ''False'')"

definition decimal_literal :: "int \<Rightarrow> string" where
  "decimal_literal v = py_str v @ ''.0''"

definition invalid_symbols :: "nat list" where
  "invalid_symbols = [0, 9, 10, 11, 12, 13, 28, 29, 30, 31, 34, 92, 133, 160]"

definition string_literal :: "nat \<Rightarrow> nat list \<Rightarrow> string" where
  "string_literal m cs =
     (let result = map char_of (filter (\<lambda>c. \<not> (256 \<le> c \<or> c \<in> set invalid_symbols)) cs)
      in if length result \<le> m then result else take m result)"

section \<open>Bounds checks of the integer type\<close>

text \<open>Comparisons with an integer; comparing a complex number raises.\<close>

definition val_less :: "pyenv \<Rightarrow> pyval \<Rightarrow> int \<Rightarrow> bool res" where
  "val_less E v k =
     (case v of PyInt i \<Rightarrow> Inr (i < k) | PyFloat f \<Rightarrow> Inr (f_less E f k)
      | PyComplex a b \<Rightarrow> Inl (TypeError ''<''))"

definition val_greater :: "pyenv \<Rightarrow> pyval \<Rightarrow> int \<Rightarrow> bool res" where
  "val_greater E v k =
     (case v of PyInt i \<Rightarrow> Inr (k < i) | PyFloat f \<Rightarrow> Inr (f_greater E f k)
      | PyComplex a b \<Rightarrow> Inl (TypeError ''>''))"

definition val_equal :: "pyenv \<Rightarrow> pyval \<Rightarrow> int \<Rightarrow> bool" where
  "val_equal E v k =
     (case v of PyInt i \<Rightarrow> i = k | PyFloat f \<Rightarrow> f_equal E f k
      | PyComplex a b \<Rightarrow> f_equal E a k \<and> f_equal E b 0)"

text \<open>The text of a number in an f-string; complex numbers do not get that far.\<close>

definition val_str :: "pyenv \<Rightarrow> pyval \<Rightarrow> string" where
  "val_str E v =
     (case v of PyInt i \<Rightarrow> py_str i | PyFloat f \<Rightarrow> f_repr E f
      | PyComplex a b \<Rightarrow> ''('' @ f_repr E a @ ''+'' @ f_repr E b @ ''j)'')"

text \<open>\<^verbatim>\<open>right\<close> of a shift by more than 256 is reduced modulo 257.\<close>

definition shift_amount :: "pyenv \<Rightarrow> pyval \<Rightarrow> string res" where
  "shift_amount E v =
     (case val_bin E ''%'' v (PyInt 257) of None \<Rightarrow> Inl (TypeError ''%'') | Some w \<Rightarrow> Inr (val_str E w))"

text \<open>The three adjustments of the operands: of a power, of a shift, of a division.\<close>

definition pow_operands :: "pyenv \<Rightarrow> string \<Rightarrow> string \<Rightarrow> (string \<times> string) res" where
  "pow_operands E left right =
     bindR (case py_eval E right of None \<Rightarrow> Inr False | Some v \<Rightarrow> val_less E v 0)
       (\<lambda>neg. Inr (if py_eval E right = None \<and> py_eval E left = None then ''1'' else left,
                   if neg then ''-'' @ right else right))"

definition shift_operand :: "pyenv \<Rightarrow> string \<Rightarrow> string res" where
  "shift_operand E right =
     (case py_eval E right of
        None \<Rightarrow> Inr right
      | Some v \<Rightarrow> bindR (val_greater E v 256) (\<lambda>big. if big then shift_amount E v else Inr right))"

definition div_operand :: "pyenv \<Rightarrow> string \<Rightarrow> string" where
  "div_operand E right =
     (case py_eval E right of
        None \<Rightarrow> right
      | Some v \<Rightarrow> (if val_equal E v 0 then ''1'' else right))"

definition shift_op :: "nat \<Rightarrow> string \<Rightarrow> string" where
  "shift_op n bin_op = (if (bin_op = ''<<'' \<or> bin_op = ''>>'') \<and> n \<noteq> 256 then ''+'' else bin_op)"

definition check_binop_bounds ::
  "pyenv \<Rightarrow> nat \<Rightarrow> string \<Rightarrow> string \<Rightarrow> string \<Rightarrow> (string \<times> string \<times> string) res" where
  "check_binop_bounds E n left bin_op right =
     bindR (if bin_op = ''**'' then pow_operands E left right else Inr (left, right)) (\<lambda>p.
     let left = fst p; right = snd p; bin_op = shift_op n bin_op in
     bindR (if bin_op = ''<<'' \<or> bin_op = ''>>'' then shift_operand E right else Inr right) (\<lambda>right.
     let right = (if bin_op = ''/'' \<or> bin_op = ''%'' then div_operand E right else right)
     in Inr (left, bin_op, right)))"

definition check_literal_bounds :: "pyenv \<Rightarrow> nat \<Rightarrow> bool \<Rightarrow> string \<Rightarrow> string" where
  "check_literal_bounds E n sgd v =
     (case py_eval E v of
        None \<Rightarrow> v
      | Some (PyFloat f) \<Rightarrow> (if f_less E f 0 \<and> \<not> sgd then ''-'' @ v else v)
      | Some (PyInt e_val) \<Rightarrow>
          (let (low, up) = get_value_boundaries n sgd
           in if e_val < low \<or> up < e_val then int_literal n sgd e_val else v)
      | Some (PyComplex a b) \<Rightarrow> v)"

section \<open>Integer literals stay in the range of their type\<close>

definition int_range :: "nat \<Rightarrow> bool \<Rightarrow> int \<Rightarrow> bool" where
  "int_range n sgd v = (fst (get_value_boundaries n sgd) \<le> v \<and> v \<le> snd (get_value_boundaries n sgd))"

lemma boundaries_ordered: "fst (get_value_boundaries n sgd) \<le> snd (get_value_boundaries n sgd)"
proof -
  have "1 \<le> (2::int) ^ k" for k by simp
  then show ?thesis by (auto simp: get_value_boundaries_def intro: order_trans)
qed

lemma mod_shift_in_range:
  fixes low up v :: int
  assumes "low \<le> up"
  shows "low \<le> v mod (up - low + 1) + low" and "v mod (up - low + 1) + low \<le> up"
  using assms pos_mod_bound [of "up - low + 1" v] by simp_all

lemma int_literal_in_range:
  obtains w where "int_literal n sgd v = py_str w" and "int_range n sgd w"
proof -
  let ?low = "fst (get_value_boundaries n sgd)" and ?up = "snd (get_value_boundaries n sgd)"
  have "int_literal n sgd v = py_str (v mod (?up - ?low + 1) + ?low)"
    by (simp add: int_literal_def case_prod_unfold Let_def)
  then show thesis
    using that mod_shift_in_range [OF boundaries_ordered] by (simp add: int_range_def)
qed

lemma int_literal_unsigned: "0 \<le> v \<Longrightarrow> v < 2 ^ n \<Longrightarrow> int_literal n False v = py_str v"
  by (simp add: int_literal_def get_value_boundaries_def)

lemma int_literal_onto: "int_range n sgd w \<Longrightarrow> int_literal n sgd (w - fst (get_value_boundaries n sgd)) = py_str w"
  by (simp add: int_literal_def int_range_def case_prod_unfold Let_def)

text \<open>A constant that leaves the range is replaced by a literal inside it.\<close>

lemma check_literal_bounds_const:
  assumes "py_eval E s = Some (PyInt v)"
  obtains w where "py_eval E (check_literal_bounds E n sgd s) = Some (PyInt w)" and "int_range n sgd w"
proof (cases "int_range n sgd v")
  case True
  then have "check_literal_bounds E n sgd s = s"
    using assms by (auto simp: check_literal_bounds_def int_range_def case_prod_unfold)
  then show thesis using that assms True by simp
next
  case False
  then have "check_literal_bounds E n sgd s = int_literal n sgd v"
    using assms by (auto simp: check_literal_bounds_def int_range_def case_prod_unfold)
  then show thesis using that int_literal_in_range [of n sgd v] py_eval_py_str by metis
qed

lemma check_literal_bounds_cases:
  "check_literal_bounds E n sgd s = s \<or> check_literal_bounds E n sgd s = ''-'' @ s \<or>
   (\<exists>v. py_eval E s = Some (PyInt v) \<and> check_literal_bounds E n sgd s = int_literal n sgd v)"
  by (auto simp: check_literal_bounds_def case_prod_unfold Let_def split: option.split pyval.split)

lemma check_literal_bounds_other:
  "py_eval E s = None \<Longrightarrow> check_literal_bounds E n sgd s = s"
  by (simp add: check_literal_bounds_def)

section \<open>Operands of a binary operation\<close>

lemma val_simps [simp]:
  "val_less E (PyInt i) k = Inr (i < k)"
  "val_greater E (PyInt i) k = Inr (k < i)"
  "val_equal E (PyInt i) k = (i = k)"
  "val_str E (PyInt i) = py_str i"
  by (simp_all add: val_less_def val_greater_def val_equal_def val_str_def)

lemma shift_amount_int [simp]: "shift_amount E (PyInt i) = Inr (py_str (i mod 257))"
  by (simp add: shift_amount_def val_bin_def int_bin_def)

definition int_or_none :: "pyval option \<Rightarrow> bool" where
  "int_or_none z = (z = None \<or> (\<exists>i. z = Some (PyInt i)))"

lemma int_or_none_cases:
  assumes "int_or_none z"
  obtains (none) "z = None" | (int) i where "z = Some (PyInt i)"
  using assms by (auto simp: int_or_none_def)

lemma pow_operands_int:
  "int_or_none (py_eval E right) \<Longrightarrow>
     pow_operands E left right =
       Inr (if py_eval E right = None \<and> py_eval E left = None then ''1'' else left,
            if (\<exists>i. py_eval E right = Some (PyInt i) \<and> i < 0) then ''-'' @ right else right)"
  by (erule int_or_none_cases) (simp_all add: pow_operands_def)

lemma shift_operand_int:
  "int_or_none (py_eval E right) \<Longrightarrow>
     shift_operand E right =
       Inr (case py_eval E right of
              Some (PyInt i) \<Rightarrow> (if 256 < i then py_str (i mod 257) else right)
            | _ \<Rightarrow> right)"
  by (erule int_or_none_cases) (simp_all add: shift_operand_def)

lemma shift_op_simps [simp]:
  "shift_op n opr = ''**'' \<longleftrightarrow> opr = ''**''"
  "shift_op n opr = ''/'' \<longleftrightarrow> opr = ''/''"
  "shift_op n opr = ''%'' \<longleftrightarrow> opr = ''%''"
  "shift_op 256 opr = opr"
  "shift_op n ''//'' = ''//''"
  by (auto simp: shift_op_def)

text \<open>With constant integer operands or no constant at all, the check never raises.\<close>

lemma check_binop_bounds_returns:
  assumes "int_or_none (py_eval E right)"
  obtains l r where "check_binop_bounds E n left opr right = Inr (l, shift_op n opr, r)"
  using assms
  by (cases "opr = ''**''"; cases "shift_op n opr = ''<<'' \<or> shift_op n opr = ''>>''")
    (auto simp: check_binop_bounds_def Let_def pow_operands_int shift_operand_int shift_op_def)

lemma check_binop_bounds_op:
  "check_binop_bounds E n left bin_op right = Inr (l, opr, r) \<Longrightarrow> opr = shift_op n bin_op"
  by (auto simp: check_binop_bounds_def Let_def bindR_Inr_iff)

lemma check_binop_bounds_div:
  assumes "opr = ''/'' \<or> opr = ''%''"
  shows "check_binop_bounds E n left opr right = Inr (left, opr, div_operand E right)"
  using assms by (auto simp: check_binop_bounds_def Let_def shift_op_def)

lemma check_binop_bounds_floordiv:
  "check_binop_bounds E n left ''//'' right = Inr (left, ''//'', right)"
  by (simp add: check_binop_bounds_def Let_def)

lemma check_binop_bounds_shift:
  assumes "opr = ''<<'' \<or> opr = ''>>''"
  shows "check_binop_bounds E 256 left opr right =
     bindR (shift_operand E right) (\<lambda>r. Inr (left, opr, r))"
  using assms by (auto simp: check_binop_bounds_def Let_def)

lemma check_binop_bounds_plain:
  assumes "shift_op n opr \<notin> {''**'', ''<<'', ''>>'', ''/'', ''%''}"
  shows "check_binop_bounds E n left opr right = Inr (left, shift_op n opr, right)"
  using assms by (auto simp: check_binop_bounds_def Let_def shift_op_def)

lemma div_operand_nonzero: "py_eval E (div_operand E right) \<noteq> Some (PyInt 0)"
proof -
  have "''1'' = py_str 1" by (simp add: py_str_def nat_str.simps digit_char_def)
  then have "py_eval E ''1'' = Some (PyInt 1)" using py_eval_py_str by metis
  then show ?thesis
    by (auto simp: div_operand_def split: option.split)
qed

section \<open>Shape of the other literals\<close>

definition is_hex :: "char \<Rightarrow> bool" where
  "is_hex c = (c \<in> set ''0123456789abcdef'')"

lemma is_hex_hex_char [simp]: "d < 16 \<Longrightarrow> is_hex (hex_char d)"
  unfolding is_hex_def hex_char_def by (rule nth_mem) simp

lemma is_hex_zero [simp]: "is_hex (CHR ''0'')"
  by (simp add: is_hex_def)

lemma nat_hex_is_hex: "c \<in> set (nat_hex n) \<Longrightarrow> is_hex c"
proof (induction n rule: nat_hex.induct)
  case (1 n)
  then show ?case
    by (cases "n < 16") (subst (asm) (2) nat_hex.simps, auto)+
qed

lemma byte_hex_facts: "length (byte_hex b) = 2" "c \<in> set (byte_hex b) \<Longrightarrow> is_hex c"
proof -
  have "unat b < 256" using unsigned_less [of b] by simp
  then show "c \<in> set (byte_hex b) \<Longrightarrow> is_hex c"
    by (auto simp: byte_hex_def)
qed (simp add: byte_hex_def)

lemma length_bytes_hex [simp]: "length (bytes_hex bs) = 2 * length bs"
  by (induction bs) (simp_all add: bytes_hex_def byte_hex_facts)

lemma bytes_hex_is_hex: "c \<in> set (bytes_hex bs) \<Longrightarrow> is_hex c"
  by (auto simp: bytes_hex_def byte_hex_facts)

lemma length_replicate_pair: "length (concat (replicate k [a, b])) = 2 * k"
  by (induction k) auto

text \<open>A \<open>bytesM\<close> literal has exactly two hexadecimal digits per byte.\<close>

lemma bytesM_literal_shape:
  "\<exists>h. bytesM_literal m bs = ''0x'' @ h \<and> length h = 2 * m \<and> list_all is_hex h"
proof -
  let ?h = "if m * 2 \<le> length (bytes_hex bs) then take (m * 2) (bytes_hex bs) else bytes_hex bs"
  let ?g = "if length ?h < m * 2
      then ?h @ concat (replicate (m - length ?h div 2) ''00'') else ?h"
  have ev: "length ?h mod 2 = 0" by simp
  have "bytesM_literal m bs = ''0x'' @ ?g"
    using ev by (simp add: bytesM_literal_def Let_def)
  moreover have "length ?g = 2 * m"
    by (auto simp: length_replicate_pair)
  moreover have "list_all is_hex ?g"
    using bytes_hex_is_hex [of _ bs] by (auto simp: list_all_iff dest!: in_set_takeD)
  ultimately show ?thesis by blast
qed

lemma bytes_literal_shape:
  "\<exists>h. bytes_literal m v = ''b'' @ [CHR 0x22] @ h @ [CHR 0x22] \<and> length h \<le> m \<and> list_all is_hex h"
  using nat_hex_is_hex
  by (auto simp: bytes_literal_def Let_def list_all_iff dest!: in_set_takeD)

text \<open>\<open>checksum_encode\<close> is only ever given a prefix and forty hexadecimal digits.\<close>

lemma fill_address_shape:
  assumes "v < 2 ^ 160"
  shows "\<exists>h. fill_address (take 42 (py_hex v)) = ''0x'' @ h \<and> length h = 40 \<and> list_all is_hex h"
proof -
  have "(16::nat) ^ 40 = 2 ^ 160" by simp
  then have len: "length (nat_hex v) \<le> 40"
    using assms length_nat_hex [of v 40] by simp
  let ?h = "nat_hex v @ replicate (40 - length (nat_hex v)) (CHR ''0'')"
  have "fill_address (take 42 (py_hex v)) = ''0x'' @ ?h"
    using len by (simp add: fill_address_def py_hex_def)
  moreover have "length ?h = 40" using len by simp
  moreover have "list_all is_hex ?h"
    using nat_hex_is_hex [of _ v] is_hex_zero by (auto simp: list_all_iff)
  ultimately show ?thesis by blast
qed

lemma string_literal_length: "length (string_literal m cs) \<le> m"
  by (simp add: string_literal_def Let_def)

lemma string_literal_chars:
  assumes "c \<in> set (string_literal m cs)"
  shows "of_char c \<notin> set invalid_symbols"
proof -
  from assms obtain k where "c = char_of k" "k < 256" "k \<notin> set invalid_symbols"
    by (auto simp: string_literal_def Let_def not_le dest!: in_set_takeD split: if_splits)
  then show ?thesis by simp
qed

end
