(* ===== verification/Type_Extract.thy ===== *)
theory Type_Extract imports Vy_Literals begin

text \<open>
  \<^verbatim>\<open>converters/utils.py\<close>: from a message that describes a type to the type. The
  facts at the end show that on every message the protobuf runtime can produce the result is a type
  that Vyper accepts, without an exception.
\<close>

section \<open>Configuration\<close>

definition MAX_LIST_SIZE :: int where "MAX_LIST_SIZE = 100"
definition MAX_BYTESTRING_SIZE :: int where "MAX_BYTESTRING_SIZE = 1000"
definition MAX_FUNCTION_INPUT :: nat where "MAX_FUNCTION_INPUT = 5"
definition MAX_FUNCTION_OUTPUT :: nat where "MAX_FUNCTION_OUTPUT = 5"
definition MAX_STORAGE_VARIABLES :: nat where "MAX_STORAGE_VARIABLES = 5"
definition MAX_FUNCTIONS :: nat where "MAX_FUNCTIONS = 5"

section \<open>Extraction\<close>

text \<open>
  \<^verbatim>\<open>mul * math.ceil(num / mul)\<close>, with the ceiling as a division that rounds up; the
  operands are far below the precision of a double.
\<close>

definition get_nearest_multiple :: "int \<Rightarrow> int \<Rightarrow> int" where
  "get_nearest_multiple num mul = mul * (- ((- num) div mul))"

text \<open>
  A plain message has a field when it is present, and a name that is not a singular message field is
  answered with False. A message wrapped in \<^verbatim>\<open>ConvertFromTypeMessageHelper\<close> has every
  field it declares.
\<close>

definition py_has_field :: "bool \<Rightarrow> bool \<Rightarrow> msg \<Rightarrow> string \<Rightarrow> bool" where
  "py_has_field d wrapped m f =
     (if wrapped then hasattr d m f
      else (case HasField d m f of Inl e \<Rightarrow> False | Inr b \<Rightarrow> b))"

definition field_int :: "bool \<Rightarrow> msg \<Rightarrow> string \<Rightarrow> string \<Rightarrow> int res" where
  "field_int d m f g = bindR (get_msg d m f) (\<lambda>x. get_int d x g)"

text \<open>The length of a byte string: at least one, at most the configured maximum.\<close>

definition string_len :: "int \<Rightarrow> int" where
  "string_len k =
     (let max_len = (if k = 0 then 1 else k)
      in if max_len < MAX_BYTESTRING_SIZE then max_len else MAX_BYTESTRING_SIZE)"

definition list_len :: "int \<Rightarrow> int" where
  "list_len k = (let l = (if k = 0 then 1 else k) in if k < MAX_LIST_SIZE then l else MAX_LIST_SIZE)"

text \<open>
  The function calls itself on the element type of a list, so the first argument bounds the depth of
  the Python stack.
\<close>

fun extract_vy_type :: "nat \<Rightarrow> bool \<Rightarrow> bool \<Rightarrow> msg \<Rightarrow> vy_type res" where
  "extract_vy_type 0 d wrapped m = Inl RecursionError"
| "extract_vy_type (Suc fuel) d wrapped m =
     (let has = py_has_field d wrapped m in
      if has ''b'' then Inr Bool
      else if has ''d'' then Inr Decimal
      else if has ''bM'' then bindR (field_int d m ''bM'' ''m'') (\<lambda>k. mk_BytesM (k mod 32 + 1))
      else if has ''s'' then bindR (field_int d m ''s'' ''max_len'') (\<lambda>k. mk_String (string_len k))
      else if has ''adr'' then Inr Address
      else if has ''barr'' then bindR (field_int d m ''barr'' ''max_len'') (\<lambda>k. mk_Bytes (string_len k))
      else if has ''list'' then
        bindR (field_int d m ''list'' ''n'') (\<lambda>k.
        bindR (get_msg d m ''list'') (\<lambda>x.
        bindR (extract_vy_type fuel d False x) (\<lambda>t. Inr (FixedList (nat (list_len k)) t))))
      else if has ''dyn'' then
        bindR (field_int d m ''dyn'' ''n'') (\<lambda>k.
        bindR (get_msg d m ''dyn'') (\<lambda>x.
        bindR (extract_vy_type fuel d False x) (\<lambda>t. Inr (DynArray (nat (list_len k)) t 0))))
      else
        bindR (field_int d m ''i'' ''n'') (\<lambda>k.
        bindR (get_msg d m ''i'') (\<lambda>x.
        bindR (get_bool d x ''sign'') (\<lambda>sgd.
          mk_Int (get_nearest_multiple (k mod 256 + 1) 8) sgd))))"

declare extract_vy_type.simps [simp del]

text \<open>
  A dynamic array of lists of a scalar is the deepest type the schema can describe.
\<close>

definition TYPE_DEPTH :: nat where "TYPE_DEPTH = 3"

section \<open>Names\<close>

definition VALID_CHARS :: string where
  "VALID_CHARS = ''abcdefghijklmnopqrstuvwxyzABCDEFGHIJKLMNOPQRSTUVWXYZ0123456789_''"

definition INVALID_PREFIX :: string where
  "INVALID_PREFIX = ''0123456789''"

text \<open>The reserved words, in lower case as they are compared.\<close>

definition RESERVED_KEYWORDS :: "string list" where
  "RESERVED_KEYWORDS =
     [''false'', ''none'', ''true'', ''and'', ''as'', ''assert'', ''async'', ''await'', ''break'',
      ''class'', ''continue'', ''def'', ''del'', ''elif'', ''else'', ''except'', ''finally'', ''for'',
      ''from'', ''global'', ''if'', ''import'', ''in'', ''is'', ''lambda'', ''nonlocal'', ''not'',
      ''or'', ''pass'', ''raise'', ''return'', ''try'', ''while'', ''with'', ''yield'',
      ''public'', ''external'', ''nonpayable'', ''constant'', ''immutable'', ''transient'',
      ''internal'', ''payable'', ''nonreentrant'', ''interface'', ''struct'', ''event'', ''enum'',
      ''unreachable'', ''init'', ''_init_'', ''___init___'', ''____init____'', ''default'',
      ''_default_'', ''___default___'', ''____default____'', ''range'', ''indexed'', ''ether'',
      ''wei'', ''finney'', ''szabo'', ''shannon'', ''lovelace'', ''ada'', ''babbage'', ''gwei'',
      ''kwei'', ''mwei'', ''twei'', ''pwei'', ''zero_address'', ''empty_bytes32'', ''max_int128'',
      ''min_int128'', ''max_decimal'', ''min_decimal'', ''max_uint256'', ''zero_wei'']"

section \<open>The types that can be declared\<close>

text \<open>Scalars with the sizes Vyper has; the flag admits the two variable-length types.\<close>

fun scalar_ok :: "bool \<Rightarrow> vy_type \<Rightarrow> bool" where
  "scalar_ok var Bool = True"
| "scalar_ok var Decimal = True"
| "scalar_ok var Address = True"
| "scalar_ok var (IntT n sgd) = (8 \<le> n \<and> n \<le> 256 \<and> 8 dvd n)"
| "scalar_ok var (Bytes m) = (var \<and> 1 \<le> m \<and> m \<le> 1000)"
| "scalar_ok var (BytesM m) = (1 \<le> m \<and> m \<le> 32)"
| "scalar_ok var (String m) = (var \<and> 1 \<le> m \<and> m \<le> 1000)"
| "scalar_ok var t = False"

definition fixed_ok :: "vy_type \<Rightarrow> bool" where
  "fixed_ok t = (case t of FixedList k b \<Rightarrow> 1 \<le> k \<and> k \<le> 100 \<and> scalar_ok False b | _ \<Rightarrow> False)"

definition dyn_ok :: "vy_type \<Rightarrow> bool" where
  "dyn_ok t =
     (case t of DynArray k b cur \<Rightarrow> 1 \<le> k \<and> k \<le> 100 \<and> cur = 0 \<and> (scalar_ok True b \<or> fixed_ok b)
      | _ \<Rightarrow> False)"

definition declarable :: "vy_type \<Rightarrow> bool" where
  "declarable t = (scalar_ok True t \<or> fixed_ok t \<or> dyn_ok t)"

lemma scalar_ok_var: "scalar_ok False t \<Longrightarrow> scalar_ok True t"
  by (cases t) auto

lemma get_nearest_multiple_spec:
  assumes "0 < mul"
  shows "mul dvd get_nearest_multiple num mul"
    and "num \<le> get_nearest_multiple num mul"
    and "get_nearest_multiple num mul < num + mul"
proof -
  have eq: "get_nearest_multiple num mul = num + (- num) mod mul"
    by (simp add: get_nearest_multiple_def minus_div_mult_eq_mod [symmetric] algebra_simps)
  show "mul dvd get_nearest_multiple num mul" by (simp add: get_nearest_multiple_def)
  show "num \<le> get_nearest_multiple num mul" using assms by (simp add: eq)
  show "get_nearest_multiple num mul < num + mul" using assms by (simp add: eq)
qed

lemma int_bits_ok:
  "\<exists>n. mk_Int (get_nearest_multiple (k mod 256 + 1) 8) sgd = Inr (IntT n sgd) \<and> 8 \<le> n \<and> n \<le> 256 \<and> 8 dvd n"
proof -
  let ?g = "get_nearest_multiple (k mod 256 + 1) 8"
  have pos: "0 < (8::int)" by simp
  note spec = get_nearest_multiple_spec [OF pos, of "k mod 256 + 1"]
  have range: "0 \<le> k mod 256" "k mod 256 < 256" by simp_all
  obtain q where q: "?g = 8 * q" using spec(1) by auto
  have "1 \<le> ?g" "?g < 264" using spec(2,3) range by linarith+
  then have "8 \<le> ?g" "?g \<le> 256" using q by simp_all
  then show ?thesis
    using q by (auto simp: mk_Int_def nat_mult_distrib intro!: exI [of _ "nat ?g"])
qed

lemma mk_BytesM_ok: "\<exists>m. mk_BytesM (k mod 32 + 1) = Inr (BytesM m) \<and> 1 \<le> m \<and> m \<le> 32"
proof -
  have "0 \<le> k mod 32" "k mod 32 < 32" by simp_all
  then have "\<not> k mod 32 + 1 < 0" "0 < k mod 32 + 1" "k mod 32 + 1 \<le> 32" by linarith+
  then show ?thesis by (auto simp: mk_BytesM_def)
qed

lemma string_len_ok: "0 \<le> k \<Longrightarrow> 1 \<le> string_len k \<and> string_len k \<le> 1000"
  by (simp add: string_len_def MAX_BYTESTRING_SIZE_def Let_def)

lemma list_len_ok: "0 \<le> k \<Longrightarrow> 1 \<le> list_len k \<and> list_len k \<le> 100"
  by (simp add: list_len_def MAX_LIST_SIZE_def Let_def)

section \<open>Extraction from conforming messages\<close>

text \<open>The message types that describe a type, and what they may describe.\<close>

definition describes :: "string list \<Rightarrow> string \<Rightarrow> bool \<Rightarrow> bool" where
  "describes ls t d =
     (field_kind d t ''i'' = Some (KMsg ''Int'') \<and>
      field_kind d t ''b'' = Some (KMsg ''Bool'') \<and>
      field_kind d t ''bM'' = Some (KMsg ''BytesM'') \<and>
      field_kind d t ''adr'' = Some (KMsg ''Address'') \<and>
      field_kind d t ''s'' = (if ''s'' \<in> set ls then Some (KMsg ''String'') else None) \<and>
      field_kind d t ''barr'' = (if ''s'' \<in> set ls then Some (KMsg ''ByteArray'') else None) \<and>
      field_kind d t ''list'' = (if ''list'' \<in> set ls then Some (KMsg ''FixedList'') else None) \<and>
      field_kind d t ''dyn'' = (if ''dyn'' \<in> set ls then Some (KMsg ''DynArray'') else None))"

text \<open>The messages involved, looked up once.\<close>

lemma type_messages:
  "proto_message ''FixedList'' =
     [(''i'', KMsg ''Int''), (''b'', KMsg ''Bool''), (''d'', KMsg ''Decimal''), (''bM'', KMsg ''BytesM''),
      (''adr'', KMsg ''Address''), (''n'', KUInt 32)]"
  "proto_message ''DynArray'' =
     [(''i'', KMsg ''Int''), (''b'', KMsg ''Bool''), (''d'', KMsg ''Decimal''), (''bM'', KMsg ''BytesM''),
      (''s'', KMsg ''String''), (''adr'', KMsg ''Address''), (''barr'', KMsg ''ByteArray''),
      (''list'', KMsg ''FixedList''), (''n'', KUInt 32)]"
  "proto_message ''VarRef'' =
     [(''i'', KMsg ''Int''), (''b'', KMsg ''Bool''), (''d'', KMsg ''Decimal''), (''bM'', KMsg ''BytesM''),
      (''s'', KMsg ''String''), (''adr'', KMsg ''Address''), (''barr'', KMsg ''ByteArray''),
      (''varnum'', KUInt 32), (''list'', KMsg ''FixedList''), (''dyn'', KMsg ''DynArray'')]"
  "proto_message ''VarDecl'' =
     [(''i'', KMsg ''Int''), (''b'', KMsg ''Bool''), (''d'', KMsg ''Decimal''), (''bM'', KMsg ''BytesM''),
      (''s'', KMsg ''String''), (''adr'', KMsg ''Address''), (''barr'', KMsg ''ByteArray''),
      (''expr'', KMsg ''TypedExpression''), (''mut'', KEnum 3), (''list'', KMsg ''FixedList''),
      (''dyn'', KMsg ''DynArray'')]"
  "proto_message ''FuncParam'' =
     [(''i'', KMsg ''Int''), (''b'', KMsg ''Bool''), (''d'', KMsg ''Decimal''), (''bM'', KMsg ''BytesM''),
      (''s'', KMsg ''String''), (''adr'', KMsg ''Address''), (''barr'', KMsg ''ByteArray''),
      (''list'', KMsg ''FixedList''), (''dyn'', KMsg ''DynArray'')]"
  "proto_message ''Int'' = [(''n'', KUInt 32), (''sign'', KBool)]"
  "proto_message ''BytesM'' = [(''m'', KUInt 32)]"
  "proto_message ''String'' = [(''max_len'', KUInt 32)]"
  "proto_message ''ByteArray'' = [(''max_len'', KUInt 32)]"
  by (simp_all add: proto_message_def)

lemmas schema_eval = field_kind_def proto_fields_def decimal_messages_def is_decimal_field_def

lemma describes_facts:
  "describes [] ''FixedList'' d"
  "describes [''s'', ''list''] ''DynArray'' d"
  "describes [''s'', ''list'', ''dyn''] ''VarRef'' d"
  "describes [''s'', ''list'', ''dyn''] ''VarDecl'' d"
  "describes [''s'', ''list'', ''dyn''] ''FuncParam'' d"
  by (cases d; simp add: describes_def schema_eval type_messages)+

lemma size_field_kinds:
  "field_kind d ''Int'' ''n'' = Some (KUInt 32)"
  "field_kind d ''Int'' ''sign'' = Some KBool"
  "field_kind d ''BytesM'' ''m'' = Some (KUInt 32)"
  "field_kind d ''String'' ''max_len'' = Some (KUInt 32)"
  "field_kind d ''ByteArray'' ''max_len'' = Some (KUInt 32)"
  "field_kind d ''FixedList'' ''n'' = Some (KUInt 32)"
  "field_kind d ''DynArray'' ''n'' = Some (KUInt 32)"
  by (simp_all add: schema_eval type_messages)

text \<open>Reading a size or a flag of a sub-message succeeds, whether it is present or not.\<close>

lemma field_int_conforms:
  assumes "conforms d m" and "field_kind d (mtype m) f = Some (KMsg t)"
    and "field_kind d t g = Some (KUInt w)"
  obtains k where "field_int d m f g = Inr k" and "0 \<le> k"
proof -
  obtain x where x: "get_msg d m f = Inr x" "mtype x = t" "conforms d x"
    using get_msg_conforms assms(1,2) by metis
  then obtain i where "get_int d x g = Inr i" "0 \<le> i"
    using get_int_unsigned [of d x g w] assms(3) by metis
  then show thesis using that x by (simp add: field_int_def)
qed

lemma get_bool_conforms:
  assumes "conforms d m" and "field_kind d (mtype m) f = Some KBool"
  obtains b where "get_bool d m f = Inr b"
proof (cases "present m f")
  case None
  then show thesis using assms that [of False] by (simp add: get_bool_def)
next
  case (Some v)
  then have "conforms_val d KBool v" using assms by (metis conforms_present option.inject)
  then obtain b where "v = VBool b" by (cases v) auto
  then show thesis using assms Some that by (simp add: get_bool_def)
qed

lemma extract_int:
  assumes "conforms d m" and "field_kind d (mtype m) ''i'' = Some (KMsg ''Int'')"
  obtains n sgd where
    "bindR (field_int d m ''i'' ''n'') (\<lambda>k. bindR (get_msg d m ''i'') (\<lambda>x.
       bindR (get_bool d x ''sign'') (\<lambda>sgd. mk_Int (get_nearest_multiple (k mod 256 + 1) 8) sgd)))
     = Inr (IntT n sgd)" and "scalar_ok False (IntT n sgd)"
proof -
  obtain k where k: "field_int d m ''i'' ''n'' = Inr k"
    using field_int_conforms [OF assms size_field_kinds(1)] by metis
  obtain x where x: "get_msg d m ''i'' = Inr x" "mtype x = ''Int''" "conforms d x"
    using get_msg_conforms [OF assms] by metis
  obtain b where b: "get_bool d x ''sign'' = Inr b"
    using get_bool_conforms [OF x(3)] x(2) size_field_kinds(2) by metis
  show thesis using int_bits_ok [of k b] that k x(1) b by auto
qed

text \<open>\<open>element_of ls\<close>: what a message with these optional fields may describe.\<close>

definition element_of :: "string list \<Rightarrow> vy_type \<Rightarrow> bool" where
  "element_of ls t =
     (scalar_ok (''s'' \<in> set ls) t \<or> (''list'' \<in> set ls \<and> fixed_ok t) \<or> (''dyn'' \<in> set ls \<and> dyn_ok t))"

lemma extract_step:
  assumes m: "conforms d m" "describes ls (mtype m) d"
    and sub: "\<And>x. conforms d x \<Longrightarrow> mtype x = ''FixedList'' \<Longrightarrow> ''list'' \<in> set ls \<Longrightarrow>
                 \<exists>t. extract_vy_type fuel d False x = Inr t \<and> element_of [] t"
    and sub': "\<And>x. conforms d x \<Longrightarrow> mtype x = ''DynArray'' \<Longrightarrow> ''dyn'' \<in> set ls \<Longrightarrow>
                 \<exists>t. extract_vy_type fuel d False x = Inr t \<and> element_of [''s'', ''list''] t"
  shows "\<exists>t. extract_vy_type (Suc fuel) d False m = Inr t \<and> element_of ls t"
proof -
  let ?has = "py_has_field d False m"
  note kinds = m(2) [unfolded describes_def]
  have has_list: "?has ''list'' \<Longrightarrow> ''list'' \<in> set ls"
    and has_dyn: "?has ''dyn'' \<Longrightarrow> ''dyn'' \<in> set ls"
    and has_s: "?has ''s'' \<Longrightarrow> ''s'' \<in> set ls"
    and has_barr: "?has ''barr'' \<Longrightarrow> ''s'' \<in> set ls"
    using kinds by (auto simp: py_has_field_def HasField_def split: if_splits)
  consider "?has ''b''" | "\<not> ?has ''b''" "?has ''d''" | "\<not> ?has ''b''" "\<not> ?has ''d''" "?has ''bM''"
    | (s) "\<not> ?has ''b''" "\<not> ?has ''d''" "\<not> ?has ''bM''" "?has ''s''"
    | "\<not> ?has ''b''" "\<not> ?has ''d''" "\<not> ?has ''bM''" "\<not> ?has ''s''" "?has ''adr''"
    | (barr) "\<not> ?has ''b''" "\<not> ?has ''d''" "\<not> ?has ''bM''" "\<not> ?has ''s''" "\<not> ?has ''adr''"
        "?has ''barr''"
    | (list) "\<not> ?has ''b''" "\<not> ?has ''d''" "\<not> ?has ''bM''" "\<not> ?has ''s''" "\<not> ?has ''adr''"
        "\<not> ?has ''barr''" "?has ''list''"
    | (dyn) "\<not> ?has ''b''" "\<not> ?has ''d''" "\<not> ?has ''bM''" "\<not> ?has ''s''" "\<not> ?has ''adr''"
        "\<not> ?has ''barr''" "\<not> ?has ''list''" "?has ''dyn''"
    | (int) "\<not> ?has ''b''" "\<not> ?has ''d''" "\<not> ?has ''bM''" "\<not> ?has ''s''" "\<not> ?has ''adr''"
        "\<not> ?has ''barr''" "\<not> ?has ''list''" "\<not> ?has ''dyn''"
    by blast
  then show ?thesis
  proof cases
    case 3
    obtain k where "field_int d m ''bM'' ''m'' = Inr k"
      using field_int_conforms [OF m(1) _ size_field_kinds(3)] kinds by metis
    then show ?thesis
      using 3 mk_BytesM_ok [of k] by (auto simp: extract_vy_type.simps Let_def element_of_def)
  next
    case s
    obtain k where "field_int d m ''s'' ''max_len'' = Inr k" "0 \<le> k"
      using field_int_conforms [OF m(1) _ size_field_kinds(4)] kinds has_s s by metis
    then show ?thesis
      using s has_s string_len_ok [of k]
      by (auto simp: extract_vy_type.simps Let_def element_of_def mk_String_def)
  next
    case barr
    obtain k where "field_int d m ''barr'' ''max_len'' = Inr k" "0 \<le> k"
      using field_int_conforms [OF m(1) _ size_field_kinds(5)] kinds has_barr barr by metis
    then show ?thesis
      using barr has_barr string_len_ok [of k]
      by (auto simp: extract_vy_type.simps Let_def element_of_def mk_Bytes_def)
  next
    case list
    then have ls: "''list'' \<in> set ls" by (simp add: has_list)
    then have fk: "field_kind d (mtype m) ''list'' = Some (KMsg ''FixedList'')" using kinds by simp
    obtain k where k: "field_int d m ''list'' ''n'' = Inr k" "0 \<le> k"
      using field_int_conforms [OF m(1) fk size_field_kinds(6)] by metis
    obtain x where x: "get_msg d m ''list'' = Inr x" "mtype x = ''FixedList''" "conforms d x"
      using get_msg_conforms [OF m(1) fk] by metis
    show ?thesis
      using list k x sub [OF x(3,2) ls] ls list_len_ok [of k]
      by (auto simp: extract_vy_type.simps Let_def element_of_def fixed_ok_def)
  next
    case dyn
    then have ls: "''dyn'' \<in> set ls" by (simp add: has_dyn)
    then have fk: "field_kind d (mtype m) ''dyn'' = Some (KMsg ''DynArray'')" using kinds by simp
    obtain k where k: "field_int d m ''dyn'' ''n'' = Inr k" "0 \<le> k"
      using field_int_conforms [OF m(1) fk size_field_kinds(7)] by metis
    obtain x where x: "get_msg d m ''dyn'' = Inr x" "mtype x = ''DynArray''" "conforms d x"
      using get_msg_conforms [OF m(1) fk] by metis
    show ?thesis
      using dyn k x sub' [OF x(3,2) ls] ls list_len_ok [of k]
      by (auto simp: extract_vy_type.simps Let_def element_of_def dyn_ok_def)
  next
    case int
    obtain n sgd where
      "bindR (field_int d m ''i'' ''n'') (\<lambda>k. bindR (get_msg d m ''i'') (\<lambda>x.
         bindR (get_bool d x ''sign'') (\<lambda>sgd. mk_Int (get_nearest_multiple (k mod 256 + 1) 8) sgd)))
       = Inr (IntT n sgd)" "scalar_ok False (IntT n sgd)"
      using extract_int [OF m(1)] kinds by metis
    then show ?thesis using int by (simp add: extract_vy_type.simps Let_def element_of_def)
  qed (simp_all add: extract_vy_type.simps Let_def element_of_def)
qed

lemma extract_fixed_list:
  "conforms d m \<Longrightarrow> mtype m = ''FixedList'' \<Longrightarrow>
     \<exists>t. extract_vy_type (Suc fuel) d False m = Inr t \<and> element_of [] t"
  by (rule extract_step) (simp_all add: describes_facts)

lemma extract_dyn_array:
  "conforms d m \<Longrightarrow> mtype m = ''DynArray'' \<Longrightarrow>
     \<exists>t. extract_vy_type (Suc (Suc fuel)) d False m = Inr t \<and> element_of [''s'', ''list''] t"
  by (rule extract_step) (simp_all add: describes_facts extract_fixed_list)

lemma extract_top:
  assumes "conforms d m" and "mtype m \<in> {''VarRef'', ''VarDecl'', ''FuncParam''}"
  obtains t where "extract_vy_type TYPE_DEPTH d False m = Inr t" and "declarable t"
proof -
  have "describes [''s'', ''list'', ''dyn''] (mtype m) d"
    using assms(2) describes_facts by auto
  then have "\<exists>t. extract_vy_type (Suc (Suc (Suc 0))) d False m = Inr t \<and> element_of [''s'', ''list'', ''dyn''] t"
    using assms(1) by (rule_tac extract_step) (simp_all add: extract_fixed_list extract_dyn_array)
  then show thesis using that by (auto simp: TYPE_DEPTH_def numeral_3_eq_3 element_of_def declarable_def)
qed

end
