(* ===== verification/Var_Tracker.thy ===== *)
theory Var_Tracker imports Type_Extract begin

text \<open>
  \<^verbatim>\<open>converters/var_tracker.py\<close>: the variables in scope, by kind, type and block level.
  The two nested dicts (names by level, names by level and size) satisfy one interface, the locale
  \<open>scoped_store\<close>; the tracker's operations are then proved against a plain log of the
  declarations that are alive.
\<close>

section \<open>Names by type and level\<close>

type_synonym ('i, 'e) plain_dict = "('i \<times> (nat \<times> 'e list) list) list"

definition plain_at :: "('i, 'e) plain_dict \<Rightarrow> 'i \<Rightarrow> nat \<Rightarrow> 'e list" where
  "plain_at d ty level = dget (dget d ty []) level []"

definition init_var_list :: "'i \<Rightarrow> nat \<Rightarrow> ('i, 'e) plain_dict \<Rightarrow> ('i, 'e) plain_dict" where
  "init_var_list ty level d =
     (let d = (if dhas d ty then d else AList.update ty [(level, [])] d)
      in if dhas (dget d ty []) level then d
         else AList.update ty (AList.update level [] (dget d ty [])) d)"

definition plain_append :: "'i \<Rightarrow> nat \<Rightarrow> 'e \<Rightarrow> ('i, 'e) plain_dict \<Rightarrow> ('i, 'e) plain_dict" where
  "plain_append ty level x d =
     (let d = init_var_list ty level d
      in AList.update ty (AList.update level (plain_at d ty level @ [x]) (dget d ty [])) d)"

text \<open>Emptying one level, and every level but the global one.\<close>

definition plain_remove :: "nat \<Rightarrow> ('i, 'e) plain_dict \<Rightarrow> ('i, 'e) plain_dict" where
  "plain_remove level d =
     map (\<lambda>(ty, lv). (ty, if dhas lv level then AList.update level [] lv else lv)) d"

definition plain_reset :: "('i, 'e) plain_dict \<Rightarrow> ('i, 'e) plain_dict" where
  "plain_reset d = map (\<lambda>(ty, lv). (ty, map (\<lambda>(l, v). (l, if l = 0 then v else [])) lv)) d"

section \<open>Names by type, level and size\<close>

type_synonym 'i sized_dict = "('i \<times> (nat \<times> (nat \<times> string list) list) list) list"

definition sized_at :: "'i sized_dict \<Rightarrow> 'i \<Rightarrow> nat \<Rightarrow> nat \<Rightarrow> string list" where
  "sized_at d ty level sz = dget (dget (dget d ty []) level []) sz []"

definition init_dyn_type :: "'i \<Rightarrow> nat \<Rightarrow> 'i sized_dict \<Rightarrow> 'i sized_dict" where
  "init_dyn_type ty level d = (if dhas d ty then d else AList.update ty [(level, [])] d)"

definition init_dyn_level :: "'i \<Rightarrow> nat \<Rightarrow> nat \<Rightarrow> 'i sized_dict \<Rightarrow> 'i sized_dict" where
  "init_dyn_level ty level sz d =
     (if dhas (dget d ty []) level then d
      else AList.update ty (AList.update level [(sz, [])] (dget d ty [])) d)"

definition sized_put :: "'i \<Rightarrow> nat \<Rightarrow> nat \<Rightarrow> string list \<Rightarrow> 'i sized_dict \<Rightarrow> 'i sized_dict" where
  "sized_put ty level sz names d =
     (let lv = dget d ty []
      in AList.update ty (AList.update level (AList.update sz names (dget lv level [])) lv) d)"

definition init_dyn_size :: "'i \<Rightarrow> nat \<Rightarrow> nat \<Rightarrow> 'i sized_dict \<Rightarrow> 'i sized_dict" where
  "init_dyn_size ty level sz d =
     (if dhas (dget (dget d ty []) level []) sz then d else sized_put ty level sz [] d)"

definition register_dyns :: "'i \<Rightarrow> nat \<Rightarrow> string \<Rightarrow> nat \<Rightarrow> 'i sized_dict \<Rightarrow> 'i sized_dict" where
  "register_dyns ty sz name level d =
     (let d = init_dyn_size ty level sz (init_dyn_level ty level sz (init_dyn_type ty level d))
      in sized_put ty level sz (sized_at d ty level sz @ [name]) d)"

definition remove_dyns_level :: "nat \<Rightarrow> 'i sized_dict \<Rightarrow> 'i sized_dict" where
  "remove_dyns_level level d =
     map (\<lambda>(ty, lv). (ty, if dhas lv level then AList.update level [] lv else lv)) d"

definition dyns_reset :: "'i sized_dict \<Rightarrow> 'i sized_dict" where
  "dyns_reset d = map (\<lambda>(ty, lv). (ty, map (\<lambda>(l, v). (l, if l = 0 then v else [])) lv)) d"

text \<open>
  A variable may be read where at least its size is expected and assigned from what has at most its
  size. The levels and sizes come in the order in which they were first used.
\<close>

definition size_fits :: "bool \<Rightarrow> nat \<Rightarrow> nat \<Rightarrow> bool" where
  "size_fits assignee sz s = ((s \<le> sz \<and> \<not> assignee) \<or> (sz \<le> s \<and> assignee))"

definition get_dyns :: "'i sized_dict \<Rightarrow> nat \<Rightarrow> 'i list \<Rightarrow> nat \<Rightarrow> bool \<Rightarrow> string list" where
  "get_dyns d level types sz assignee =
     concat (map (\<lambda>t. concat (map (\<lambda>l.
       if level < l then []
       else concat (map (\<lambda>s. if size_fits assignee sz s then sized_at d t l s else [])
              (map fst (dget (dget d t []) l []))))
       (map fst (dget d t [])))) types)"

section \<open>The interface of a scoped store\<close>

text \<open>
  Entries are added under an index and a level; a level can be emptied, and so can every level but
  the global one. The refinement is against the log of the entries that were added and not removed.
\<close>

locale scoped_store =
  fixes emp :: 's
    and add :: "'i \<Rightarrow> nat \<Rightarrow> 'e \<Rightarrow> 's \<Rightarrow> 's"
    and at :: "'s \<Rightarrow> 'i \<Rightarrow> nat \<Rightarrow> 'e list"
    and remove :: "nat \<Rightarrow> 's \<Rightarrow> 's"
    and reset :: "'s \<Rightarrow> 's"
  assumes at_emp: "at emp i l = []"
    and at_add: "at (add i l e s) j k = (if j = i \<and> k = l then at s j k @ [e] else at s j k)"
    and at_remove: "at (remove l s) j k = (if k = l then [] else at s j k)"
    and at_reset: "at (reset s) j k = (if k = 0 then at s j k else [])"
begin

definition logged :: "('i \<times> nat \<times> 'e) list \<Rightarrow> 's \<Rightarrow> bool" where
  "logged L s \<longleftrightarrow>
     (\<forall>i l. at s i l = map (snd \<circ> snd) (filter (\<lambda>x. fst x = i \<and> fst (snd x) = l) L))"

lemma logged_emp: "logged [] emp"
  by (simp add: logged_def at_emp)

lemma logged_add: "logged L s \<Longrightarrow> logged (L @ [(i, l, e)]) (add i l e s)"
  by (auto simp: logged_def at_add)

lemma logged_fold:
  "logged L s \<Longrightarrow> logged (L @ xs) (fold (\<lambda>x. add (fst x) (fst (snd x)) (snd (snd x))) xs s)"
proof (induction xs arbitrary: L s)
  case (Cons x xs)
  then show ?case
    using Cons.IH [OF logged_add [OF Cons.prems, of "fst x" "fst (snd x)" "snd (snd x)"]] by simp
qed simp

lemma filter_disj: "filter (\<lambda>x. P x \<and> Q x) (filter R L) = filter (\<lambda>x. R x \<and> P x \<and> Q x) L"
  by (simp add: conj_commute)

lemma logged_remove:
  assumes "logged L s"
  shows "logged (filter (\<lambda>x. fst (snd x) \<noteq> l) L) (remove l s)"
proof -
  have "filter (\<lambda>x. fst x = i \<and> fst (snd x) = l) (filter (\<lambda>x. fst (snd x) \<noteq> l) L) = []" for i
    by (simp add: filter_empty_conv)
  moreover have "filter (\<lambda>x. fst x = i \<and> fst (snd x) = k) (filter (\<lambda>x. fst (snd x) \<noteq> l) L) =
     filter (\<lambda>x. fst x = i \<and> fst (snd x) = k) L" if "k \<noteq> l" for i k
    using that by (auto simp: filter_disj intro: filter_cong)
  ultimately show ?thesis using assms by (simp add: logged_def at_remove)
qed

lemma logged_reset:
  assumes "logged L s"
  shows "logged (filter (\<lambda>x. fst (snd x) = 0) L) (reset s)"
proof -
  have "filter (\<lambda>x. fst x = i \<and> fst (snd x) = k) (filter (\<lambda>x. fst (snd x) = 0) L) =
     (if k = 0 then filter (\<lambda>x. fst x = i \<and> fst (snd x) = k) L else [])" for i k
    by (auto simp: filter_disj filter_empty_conv intro: filter_cong)
  then show ?thesis using assms by (simp add: logged_def at_reset)
qed

lemma logged_mem: "logged L s \<Longrightarrow> e \<in> set (at s i l) \<longleftrightarrow> (i, l, e) \<in> set L"
  by (force simp: logged_def)

end

section \<open>Both dicts are scoped stores\<close>

lemma dget_map_values: "f z = z' \<Longrightarrow> dget (map (\<lambda>(k, v). (k, f v)) d) k z' = f (dget d k z)"
  by (auto simp: dget_def map_of_map split: option.split)

lemma dget_map_level:
  "dget (map (\<lambda>(l, v). (l, if l = 0 then v else [])) d) k [] = (if k = 0 then dget d k [] else [])"
  by (induction d) (auto simp: dget_def)

lemma dget_drop_level:
  "dget (if dhas lv level then AList.update level [] lv else lv) k [] =
     (if k = level then [] else dget lv k [])"
  by (auto simp: dget_update dget_not_has)

lemma plain_at_init [simp]: "plain_at (init_var_list ty level d) t l = plain_at d t l"
  by (auto simp: init_var_list_def plain_at_def Let_def dget_update dhas_update dget_not_has)

lemma plain_at_append:
  "plain_at (plain_append ty level x d) t l =
     (if t = ty \<and> l = level then plain_at d t l @ [x] else plain_at d t l)"
proof -
  let ?d = "init_var_list ty level d"
  have "plain_at (plain_append ty level x d) t l =
     (if t = ty \<and> l = level then plain_at ?d t l @ [x] else plain_at ?d t l)"
    by (auto simp del: plain_at_init simp: plain_append_def Let_def plain_at_def dget_update)
  then show ?thesis by simp
qed

lemma plain_at_remove: "plain_at (plain_remove level d) t l = (if l = level then [] else plain_at d t l)"
  by (simp add: plain_at_def plain_remove_def dget_drop_level
      dget_map_values [where z = "[]" and z' = "[]"])

lemma plain_at_reset: "plain_at (plain_reset d) t l = (if l = 0 then plain_at d t l else [])"
  by (simp add: plain_at_def plain_reset_def dget_map_level
      dget_map_values [where z = "[]" and z' = "[]"])

interpretation plain: scoped_store "[]" plain_append plain_at plain_remove plain_reset
  by unfold_locales
    (simp_all add: plain_at_append plain_at_remove plain_at_reset, simp add: plain_at_def)

lemma sized_at_put:
  "sized_at (sized_put ty level sz names d) t l s =
     (if t = ty \<and> l = level \<and> s = sz then names else sized_at d t l s)"
  by (simp add: sized_put_def sized_at_def Let_def dget_update)

lemma sized_at_init:
  "sized_at (init_dyn_type ty level d) t l s = sized_at d t l s"
  "sized_at (init_dyn_level ty level sz d) t l s = sized_at d t l s"
  "sized_at (init_dyn_size ty level sz d) t l s = sized_at d t l s"
  by (simp_all add: init_dyn_type_def init_dyn_level_def init_dyn_size_def sized_at_put)
    (auto simp: sized_at_def dget_update dget_not_has)

lemma sized_at_register:
  "sized_at (register_dyns ty sz name level d) t l s =
     (if t = ty \<and> l = level \<and> s = sz then sized_at d t l s @ [name] else sized_at d t l s)"
  by (simp add: register_dyns_def Let_def sized_at_put sized_at_init)

lemma sized_at_remove:
  "sized_at (remove_dyns_level level d) t l s = (if l = level then [] else sized_at d t l s)"
  by (simp add: sized_at_def remove_dyns_level_def dget_drop_level
      dget_map_values [where z = "[]" and z' = "[]"])

lemma sized_at_reset: "sized_at (dyns_reset d) t l s = (if l = 0 then sized_at d t l s else [])"
  by (simp add: sized_at_def dyns_reset_def dget_map_level
      dget_map_values [where z = "[]" and z' = "[]"])

lemma sized_at_empty: "sized_at [] t l s = []"
  by (simp add: sized_at_def)

interpretation sized: scoped_store "[]" "\<lambda>(ty, sz) level name. register_dyns ty sz name level"
  "\<lambda>d (ty, sz) level. sized_at d ty level sz" remove_dyns_level dyns_reset
  by unfold_locales
    (auto simp: sized_at_register sized_at_remove sized_at_reset sized_at_empty split: prod.splits)

section \<open>The tracker\<close>

text \<open>
  The two kinds of variables are the keys of the outer dicts, which are always there. Byte strings
  and strings are indexed by their class.
\<close>

datatype var_key = FUNCTION_KEY | READONLY_KEY

datatype byte_class = Bytes_class | String_class

record var_tracker =
  var_id_map :: "(string \<times> int) list"
  global_var_id_map :: "(string \<times> int) list"
  tr_vars :: "var_key \<Rightarrow> (string, string) plain_dict"
  tr_lists :: "var_key \<Rightarrow> (string, string \<times> nat) plain_dict"
  tr_dyns :: "var_key \<Rightarrow> vy_type sized_dict"
  tr_bytes :: "var_key \<Rightarrow> byte_class sized_dict"

definition new_tracker :: var_tracker where
  "new_tracker = \<lparr>var_id_map = [], global_var_id_map = [], tr_vars = (\<lambda>_. []), tr_lists = (\<lambda>_. []),
     tr_dyns = (\<lambda>_. []), tr_bytes = (\<lambda>_. [])\<rparr>"

definition key_of :: "bool \<Rightarrow> var_key" where
  "key_of mutable = (if mutable then FUNCTION_KEY else READONLY_KEY)"

text \<open>\<^verbatim>\<open>type(t) == Bytes or type(t) == String\<close>: exactly these classes.\<close>

definition byte_class :: "vy_type \<Rightarrow> (byte_class \<times> nat) option" where
  "byte_class t = (case t of Bytes m \<Rightarrow> Some (Bytes_class, m) | String m \<Rightarrow> Some (String_class, m) | _ \<Rightarrow> None)"

definition register_list_items ::
  "string \<Rightarrow> nat \<Rightarrow> vy_type \<Rightarrow> nat \<Rightarrow> var_key \<Rightarrow> var_tracker \<Rightarrow> var_tracker" where
  "register_list_items name level base k key tr =
     tr\<lparr>tr_lists := (tr_lists tr)(key := plain_append (vyper_type base) level (name, k) (tr_lists tr key))\<rparr>"

text \<open>The lists that are elements of a dynamic array of the given current size.\<close>

definition item_name :: "string \<Rightarrow> nat \<Rightarrow> string" where
  "item_name name i = name @ ''['' @ nat_str i @ '']''"

definition register_dyn_array ::
  "string \<Rightarrow> nat \<Rightarrow> vy_type \<Rightarrow> nat \<Rightarrow> nat \<Rightarrow> var_key \<Rightarrow> var_tracker \<Rightarrow> var_tracker" where
  "register_dyn_array name level base k cur key tr =
     (let tr = tr\<lparr>tr_dyns := (tr_dyns tr)(key := register_dyns base k name level (tr_dyns tr key))\<rparr>
      in case base of
           FixedList k' b' \<Rightarrow>
             fold (\<lambda>i. register_list_items (item_name name i) level b' k' key) [0..<cur] tr
         | DynArray k' b' cur' \<Rightarrow>
             fold (\<lambda>i. register_list_items (item_name name i) level b' k' key) [0..<cur] tr
         | _ \<Rightarrow> tr)"

definition register_bytes_or_string ::
  "string \<Rightarrow> nat \<Rightarrow> byte_class \<Rightarrow> nat \<Rightarrow> var_key \<Rightarrow> var_tracker \<Rightarrow> var_tracker" where
  "register_bytes_or_string name level c m key tr =
     tr\<lparr>tr_bytes := (tr_bytes tr)(key := register_dyns c m name level (tr_bytes tr key))\<rparr>"

text \<open>Reading the current number of a type enters it with -1 when it is not there.\<close>

definition current_id :: "vy_type \<Rightarrow> var_tracker \<Rightarrow> int \<times> var_tracker" where
  "current_id t tr =
     (let m = (if dhas (var_id_map tr) (type_name t) then var_id_map tr
               else AList.update (type_name t) (- 1) (var_id_map tr))
      in (dget m (type_name t) (- 1), tr\<lparr>var_id_map := m\<rparr>))"

definition next_id :: "vy_type \<Rightarrow> var_tracker \<Rightarrow> int \<times> var_tracker" where
  "next_id t tr = (let (i, tr) = current_id t tr in (i + 1, tr))"

definition bump_id :: "vy_type \<Rightarrow> nat \<Rightarrow> var_tracker \<Rightarrow> var_tracker" where
  "bump_id t level tr =
     (let (i, tr) = next_id t tr;
          tr = tr\<lparr>var_id_map := AList.update (type_name t) i (var_id_map tr)\<rparr>
      in if level = 0
         then tr\<lparr>global_var_id_map := AList.update (type_name t) i (global_var_id_map tr)\<rparr> else tr)"

definition full_name :: "string \<Rightarrow> nat \<Rightarrow> bool \<Rightarrow> string" where
  "full_name name level mutable = (if level = 0 \<and> mutable then ''self.'' @ name else name)"

definition register_function_variable ::
  "string \<Rightarrow> nat \<Rightarrow> vy_type \<Rightarrow> bool \<Rightarrow> var_tracker \<Rightarrow> var_tracker" where
  "register_function_variable name level t mutable tr =
     (let tr = bump_id t level tr; key = key_of mutable; name = full_name name level mutable in
      case t of
        FixedList k b \<Rightarrow>
          (let tr = register_list_items name level b k key tr
           in tr\<lparr>tr_vars := (tr_vars tr)(key := plain_append (vyper_type t) level name (tr_vars tr key))\<rparr>)
      | DynArray k b cur \<Rightarrow>
          register_dyn_array name level b k cur key (register_list_items name level b k key tr)
      | _ \<Rightarrow>
          (case byte_class t of
             Some (c, m) \<Rightarrow> register_bytes_or_string name level c m key tr
           | None \<Rightarrow>
               tr\<lparr>tr_vars := (tr_vars tr)(key := plain_append (vyper_type t) level name (tr_vars tr key))\<rparr>))"

definition register_global_variable :: "string \<Rightarrow> vy_type \<Rightarrow> var_tracker \<Rightarrow> var_tracker" where
  "register_global_variable name t = register_function_variable name 0 t True"

text \<open>The enumerators of \<^verbatim>\<open>VarDecl.Mutability\<close>.\<close>

definition REGULAR :: int where "REGULAR = 0"
definition CONSTANT :: int where "CONSTANT = 1"
definition IMMUTABLE :: int where "IMMUTABLE = 2"

definition var_prefix :: "nat \<Rightarrow> int \<Rightarrow> string res" where
  "var_prefix level mut =
     (if 0 < level then Inr ''x'' else if mut = REGULAR then Inr ''x'' else if mut = CONSTANT then Inr ''C''
      else if mut = IMMUTABLE then Inr ''IM'' else Inl (KeyError (py_str mut)))"

definition var_name :: "string \<Rightarrow> vy_type \<Rightarrow> int \<Rightarrow> string" where
  "var_name pre t i = pre @ ''_'' @ type_name t @ ''_'' @ py_str i"

definition create_and_register_variable ::
  "vy_type \<Rightarrow> nat \<Rightarrow> int \<Rightarrow> var_tracker \<Rightarrow> (string \<times> var_tracker) res" where
  "create_and_register_variable t level mut tr =
     (let (idx, tr) = next_id t tr in
      bindR (var_prefix level mut) (\<lambda>pre.
        let name = var_name pre t idx in
        if level = 0 \<and> mut = REGULAR then Inr (name, register_global_variable name t tr)
        else Inr (name, register_function_variable name level t (mut = REGULAR) tr)))"

definition remove_function_level :: "nat \<Rightarrow> bool \<Rightarrow> var_tracker \<Rightarrow> var_tracker" where
  "remove_function_level level mutable tr =
     (let key = key_of mutable in
      tr\<lparr>tr_vars := (tr_vars tr)(key := plain_remove level (tr_vars tr key)),
         tr_dyns := (tr_dyns tr)(key := remove_dyns_level level (tr_dyns tr key)),
         tr_bytes := (tr_bytes tr)(key := remove_dyns_level level (tr_bytes tr key)),
         tr_lists := (tr_lists tr)(key := plain_remove level (tr_lists tr key))\<rparr>)"

definition reset_function_variables :: "var_tracker \<Rightarrow> var_tracker" where
  "reset_function_variables tr =
     tr\<lparr>tr_vars := plain_reset \<circ> tr_vars tr, tr_lists := plain_reset \<circ> tr_lists tr,
        tr_dyns := dyns_reset \<circ> tr_dyns tr, tr_bytes := dyns_reset \<circ> tr_bytes tr,
        var_id_map := global_var_id_map tr\<rparr>"

section \<open>Lookups\<close>

definition get_list_items :: "nat \<Rightarrow> vy_type \<Rightarrow> bool \<Rightarrow> var_tracker \<Rightarrow> string list" where
  "get_list_items level t mutable tr =
     (let allowed_lists = concat (map (plain_at (tr_lists tr (key_of mutable)) (vyper_type t)) [0..<level + 1])
      in concat (map (\<lambda>(l, s). map (item_name l) [0..<s]) allowed_lists))"

definition get_dyn_arrays :: "nat \<Rightarrow> vy_type \<Rightarrow> nat \<Rightarrow> bool \<Rightarrow> bool \<Rightarrow> var_tracker \<Rightarrow> string list" where
  "get_dyn_arrays level base k mutable assignee tr =
     (let d = tr_dyns tr (key_of mutable);
          types = (if base = NoneType then map fst d else [base])
      in get_dyns d level types k assignee)"

definition get_vars :: "vy_type \<Rightarrow> nat \<Rightarrow> bool \<Rightarrow> bool \<Rightarrow> var_tracker \<Rightarrow> string list" where
  "get_vars t level mutable assignee tr =
     (case t of
        DynArray k b cur \<Rightarrow> get_dyn_arrays level b k mutable assignee tr
      | _ \<Rightarrow>
          (case byte_class t of
             Some (c, m) \<Rightarrow> get_dyns (tr_bytes tr (key_of mutable)) level [c] m assignee
           | None \<Rightarrow>
               concat (map (plain_at (tr_vars tr (key_of mutable)) (vyper_type t)) [0..<level + 1]) @
               get_list_items level t mutable tr))"

definition get_readonly_variables :: "nat \<Rightarrow> vy_type \<Rightarrow> var_tracker \<Rightarrow> string list" where
  "get_readonly_variables level t tr = get_vars t level False False tr"

definition get_mutable_variables :: "nat \<Rightarrow> vy_type \<Rightarrow> bool \<Rightarrow> var_tracker \<Rightarrow> string list" where
  "get_mutable_variables level t assignee tr = get_vars t level True assignee tr"

definition get_global_vars :: "vy_type \<Rightarrow> var_tracker \<Rightarrow> string list" where
  "get_global_vars t tr = get_vars t 0 True False tr"

text \<open>The element type of the dynamic array of a name: the first type that has it, or None.\<close>

definition get_dyn_array_base_type :: "string \<Rightarrow> bool \<Rightarrow> var_tracker \<Rightarrow> vy_type option" where
  "get_dyn_array_base_type name mutable tr =
     map_option fst (find (\<lambda>(t, lv). \<exists>(l, sz) \<in> set lv. \<exists>(s, names) \<in> set sz. name \<in> set names)
       (tr_dyns tr (key_of mutable)))"

end
