(* ===== verification/Var_Scope.thy ===== *)
theory Var_Scope imports Var_Tracker begin

text \<open>
  The specification of the variable tracker: a log of the declarations that are alive. Every
  operation of the tracker is an operation on the log, and what a lookup offers is read off the
  declarations in scope.
\<close>

section \<open>Declarations\<close>

datatype decl = Decl (d_name: string) (d_level: nat) (d_type: vy_type) (d_key: var_key)

text \<open>What a declaration contributes to each dict.\<close>

definition var_entries :: "decl \<Rightarrow> (string \<times> nat \<times> string) list" where
  "var_entries d =
     (if \<not> isinstance_DynArray (d_type d) \<and> byte_class (d_type d) = None
      then [(vyper_type (d_type d), d_level d, d_name d)] else [])"

fun nested_lists :: "string \<Rightarrow> nat \<Rightarrow> vy_type \<Rightarrow> (string \<times> string \<times> nat) list" where
  "nested_lists name cur (FixedList k b) = map (\<lambda>i. (vyper_type b, item_name name i, k)) [0..<cur]"
| "nested_lists name cur (DynArray k b c) = map (\<lambda>i. (vyper_type b, item_name name i, k)) [0..<cur]"
| "nested_lists name cur t = []"

fun list_parts :: "string \<Rightarrow> vy_type \<Rightarrow> (string \<times> string \<times> nat) list" where
  "list_parts name (FixedList k b) = [(vyper_type b, name, k)]"
| "list_parts name (DynArray k b cur) = (vyper_type b, name, k) # nested_lists name cur b"
| "list_parts name t = []"

definition list_entries :: "decl \<Rightarrow> (string \<times> nat \<times> string \<times> nat) list" where
  "list_entries d = map (\<lambda>(ty, e). (ty, d_level d, e)) (list_parts (d_name d) (d_type d))"

definition dyn_entries :: "decl \<Rightarrow> ((vy_type \<times> nat) \<times> nat \<times> string) list" where
  "dyn_entries d =
     (case d_type d of DynArray k b cur \<Rightarrow> [((b, k), d_level d, d_name d)] | _ \<Rightarrow> [])"

definition byte_entries :: "decl \<Rightarrow> ((byte_class \<times> nat) \<times> nat \<times> string) list" where
  "byte_entries d =
     (case byte_class (d_type d) of Some cm \<Rightarrow> [(cm, d_level d, d_name d)] | None \<Rightarrow> [])"

definition of_key :: "var_key \<Rightarrow> (decl \<Rightarrow> 'x list) \<Rightarrow> decl list \<Rightarrow> 'x list" where
  "of_key k f D = concat (map f (filter (\<lambda>d. d_key d = k) D))"

definition tracks :: "decl list \<Rightarrow> var_tracker \<Rightarrow> bool" where
  "tracks D tr \<longleftrightarrow>
     (\<forall>k. plain.logged (of_key k var_entries D) (tr_vars tr k) \<and>
          plain.logged (of_key k list_entries D) (tr_lists tr k) \<and>
          sized.logged (of_key k dyn_entries D) (tr_dyns tr k) \<and>
          sized.logged (of_key k byte_entries D) (tr_bytes tr k))"

lemma of_key_simps [simp]:
  "of_key k f [] = []"
  "of_key k f (D @ [d]) = of_key k f D @ (if d_key d = k then f d else [])"
  by (simp_all add: of_key_def)

lemma tracksD:
  assumes "tracks D tr"
  shows "plain.logged (of_key k var_entries D) (tr_vars tr k)"
    and "plain.logged (of_key k list_entries D) (tr_lists tr k)"
    and "sized.logged (of_key k dyn_entries D) (tr_dyns tr k)"
    and "sized.logged (of_key k byte_entries D) (tr_bytes tr k)"
  using assms by (simp_all add: tracks_def)

lemma tracks_new: "tracks [] new_tracker"
  by (simp add: tracks_def new_tracker_def plain.logged_emp sized.logged_emp)

text \<open>The numbering does not matter to the log.\<close>

lemma tracks_ids [simp]:
  "tracks D (tr\<lparr>var_id_map := m\<rparr>) = tracks D tr"
  "tracks D (tr\<lparr>global_var_id_map := m\<rparr>) = tracks D tr"
  by (simp_all add: tracks_def)

lemma tracks_next_id [simp]:
  "tracks D (snd (next_id t tr)) = tracks D tr" "tracks D (bump_id t l tr) = tracks D tr"
  by (simp_all add: next_id_def current_id_def bump_id_def Let_def split_beta)

section \<open>Registering a variable\<close>

text \<open>Registering in one of the dicts, as a fact about its log.\<close>

lemma register_list_items_parts:
  "tr_vars (register_list_items n l b k key tr) = tr_vars tr"
  "tr_dyns (register_list_items n l b k key tr) = tr_dyns tr"
  "tr_bytes (register_list_items n l b k key tr) = tr_bytes tr"
  by (simp_all add: register_list_items_def)

lemma register_items_fold:
  "tr_vars (fold (\<lambda>i. register_list_items (f i) l b k key) xs tr) = tr_vars tr"
  "tr_dyns (fold (\<lambda>i. register_list_items (f i) l b k key) xs tr) = tr_dyns tr"
  "tr_bytes (fold (\<lambda>i. register_list_items (f i) l b k key) xs tr) = tr_bytes tr"
  "tr_lists (fold (\<lambda>i. register_list_items (f i) l b k key) xs tr) =
     (tr_lists tr)(key := fold (\<lambda>i. plain_append (vyper_type b) l (f i, k)) xs (tr_lists tr key))"
  by (induction xs arbitrary: tr) (simp_all add: register_list_items_def)

lemma plain_logged_items:
  "plain.logged L s \<Longrightarrow>
   plain.logged (L @ map (\<lambda>i. (ty, l, f i, k)) xs) (fold (\<lambda>i. plain_append ty l (f i, k)) xs s)"
proof (induction xs arbitrary: L s)
  case (Cons i xs)
  then show ?case using Cons.IH [OF plain.logged_add [OF Cons.prems]] by simp
qed simp

lemma sized_logged_add:
  "sized.logged L s \<Longrightarrow> sized.logged (L @ [((ty, sz), l, n)]) (register_dyns ty sz n l s)"
  using sized.logged_add [of L s "(ty, sz)" l n] by simp

lemma register_dyn_array_tracks:
  assumes "tracks D tr"
  shows "tracks (D @ [Decl n l (DynArray k b cur) key])
     (register_dyn_array n l b k cur key (register_list_items n l b k key tr))"
proof -
  note log = tracksD [OF assms]
  have lists: "plain.logged (of_key key list_entries D @ [(vyper_type b, l, n, k)])
     (plain_append (vyper_type b) l (n, k) (tr_lists tr key))"
    by (rule plain.logged_add [OF log(2)])
  note more = plain_logged_items [OF lists]
  show ?thesis
    using log sized_logged_add [OF log(3)] lists more
    by (cases b) (simp_all del: vyper_type.simps add: tracks_def register_dyn_array_def
        register_list_items_def register_items_fold var_entries_def list_entries_def
        dyn_entries_def byte_entries_def byte_class_def isinstance_DynArray_def comp_def Let_def)
qed

lemma register_plain_tracks:
  assumes "tracks D tr" and "\<not> isinstance_DynArray t" and "byte_class t = None"
    and "list_parts n t = []"
  shows "tracks (D @ [Decl n l t key])
     (tr\<lparr>tr_vars := (tr_vars tr)(key := plain_append (vyper_type t) l n (tr_vars tr key))\<rparr>)"
  using tracksD [OF assms(1)] plain.logged_add [OF tracksD(1) [OF assms(1)]] assms(2-)
  by (simp add: tracks_def var_entries_def list_entries_def dyn_entries_def byte_entries_def
      isinstance_DynArray_def split: vy_type.splits)

lemma register_fixed_tracks:
  assumes "tracks D tr" and "t = FixedList k b"
  shows "tracks (D @ [Decl n l t key])
     (let tr = register_list_items n l b k key tr
      in tr\<lparr>tr_vars := (tr_vars tr)(key := plain_append (vyper_type t) l n (tr_vars tr key))\<rparr>)"
  using tracksD [OF assms(1)] plain.logged_add [OF tracksD(1) [OF assms(1)]]
    plain.logged_add [OF tracksD(2) [OF assms(1)]] assms(2)
  by (simp add: tracks_def register_list_items_def var_entries_def list_entries_def dyn_entries_def
      byte_entries_def isinstance_DynArray_def byte_class_def Let_def)

lemma register_bytes_tracks:
  assumes "tracks D tr" and "byte_class t = Some (c, m)"
  shows "tracks (D @ [Decl n l t key]) (register_bytes_or_string n l c m key tr)"
proof -
  have "\<not> isinstance_DynArray t" "list_parts n t = []" "dyn_entries (Decl n l t key) = []"
    using assms(2) by (auto simp: byte_class_def isinstance_DynArray_def dyn_entries_def
        split: vy_type.splits)
  then show ?thesis
    using tracksD [OF assms(1)] sized_logged_add [OF tracksD(4) [OF assms(1)]] assms(2)
    by (simp add: tracks_def register_bytes_or_string_def var_entries_def list_entries_def
        byte_entries_def)
qed

lemma register_function_variable_tracks:
  assumes "tracks D tr"
  shows "tracks (D @ [Decl (full_name n l mutable) l t (key_of mutable)])
     (register_function_variable n l t mutable tr)"
proof -
  have base: "tracks D (bump_id t l tr)" using assms by simp
  show ?thesis
  proof (cases t)
    case (FixedList k b)
    then show ?thesis using register_fixed_tracks [OF base FixedList]
      by (simp add: register_function_variable_def Let_def)
  next
    case (DynArray k b cur)
    then show ?thesis using register_dyn_array_tracks [OF base]
      by (simp add: register_function_variable_def Let_def)
  next
    case (Bytes m)
    then show ?thesis using register_bytes_tracks [OF base, of t]
      by (simp add: register_function_variable_def byte_class_def Let_def)
  next
    case (String m)
    then show ?thesis using register_bytes_tracks [OF base, of t]
      by (simp add: register_function_variable_def byte_class_def Let_def)
  qed (use register_plain_tracks [OF base, of t] in
      \<open>simp_all add: register_function_variable_def byte_class_def isinstance_DynArray_def Let_def\<close>)
qed

section \<open>Leaving a scope\<close>

lemma filter_concat_map:
  "filter P (concat (map f xs)) = concat (map (\<lambda>x. filter P (f x)) xs)"
  by (induction xs) simp_all

lemma of_key_filter:
  assumes "\<And>d e. e \<in> set (f d) \<Longrightarrow> Q e = P (d_level d)"
  shows "filter Q (of_key k f D) = of_key k f (filter (\<lambda>d. P (d_level d)) D)"
proof (induction D)
  case (Cons d D)
  have "filter Q (f d) = (if P (d_level d) then f d else [])"
    using assms [of _ d] by (auto simp: filter_empty_conv filter_id_conv)
  then show ?case using Cons by (simp add: of_key_def filter_concat_map)
qed (simp add: of_key_def)

lemma entry_levels:
  "e \<in> set (var_entries d) \<Longrightarrow> fst (snd e) = d_level d"
  "e' \<in> set (list_entries d) \<Longrightarrow> fst (snd e') = d_level d"
  "e'' \<in> set (dyn_entries d) \<Longrightarrow> fst (snd e'') = d_level d"
  "e''' \<in> set (byte_entries d) \<Longrightarrow> fst (snd e''') = d_level d"
  by (auto simp: var_entries_def list_entries_def dyn_entries_def byte_entries_def
      split: if_splits vy_type.splits option.splits)

lemma of_key_other:
  "k \<noteq> key \<Longrightarrow> of_key k f (filter (\<lambda>d. d_key d = key \<longrightarrow> P d) D) = of_key k f D"
  by (induction D) (auto simp: of_key_def)

lemma of_key_same:
  "of_key key f (filter (\<lambda>d. d_key d = key \<longrightarrow> P d) D) = of_key key f (filter P D)"
  by (induction D) (auto simp: of_key_def)

lemma remove_function_level_tracks:
  assumes "tracks D tr"
  shows "tracks (filter (\<lambda>d. \<not> (d_key d = key_of mutable \<and> d_level d = l)) D)
     (remove_function_level l mutable tr)"
proof -
  have "filter (\<lambda>x. fst (snd x) \<noteq> l) (of_key k var_entries D) = of_key k var_entries (filter (\<lambda>d. d_level d \<noteq> l) D)"
    "filter (\<lambda>x. fst (snd x) \<noteq> l) (of_key k list_entries D) = of_key k list_entries (filter (\<lambda>d. d_level d \<noteq> l) D)"
    "filter (\<lambda>x. fst (snd x) \<noteq> l) (of_key k dyn_entries D) = of_key k dyn_entries (filter (\<lambda>d. d_level d \<noteq> l) D)"
    "filter (\<lambda>x. fst (snd x) \<noteq> l) (of_key k byte_entries D) = of_key k byte_entries (filter (\<lambda>d. d_level d \<noteq> l) D)" for k
    by (rule of_key_filter, simp add: entry_levels)+
  note levels = this
  note log = tracksD [OF assms]
  show ?thesis
    using log plain.logged_remove [OF log(1), where l = l] plain.logged_remove [OF log(2), where l = l]
      sized.logged_remove [OF log(3), where l = l] sized.logged_remove [OF log(4), where l = l]
    by (auto simp: tracks_def remove_function_level_def Let_def of_key_other of_key_same levels)
qed

lemma reset_function_variables_tracks:
  assumes "tracks D tr"
  shows "tracks (filter (\<lambda>d. d_level d = 0) D) (reset_function_variables tr)"
proof -
  have "filter (\<lambda>x. fst (snd x) = 0) (of_key k var_entries D) = of_key k var_entries (filter (\<lambda>d. d_level d = 0) D)"
    "filter (\<lambda>x. fst (snd x) = 0) (of_key k list_entries D) = of_key k list_entries (filter (\<lambda>d. d_level d = 0) D)"
    "filter (\<lambda>x. fst (snd x) = 0) (of_key k dyn_entries D) = of_key k dyn_entries (filter (\<lambda>d. d_level d = 0) D)"
    "filter (\<lambda>x. fst (snd x) = 0) (of_key k byte_entries D) = of_key k byte_entries (filter (\<lambda>d. d_level d = 0) D)" for k
    by (rule of_key_filter, simp add: entry_levels)+
  note levels = this
  note log = tracksD [OF assms]
  show ?thesis
    using plain.logged_reset [OF log(1)] plain.logged_reset [OF log(2)]
      sized.logged_reset [OF log(3)] sized.logged_reset [OF log(4)]
    by (simp add: tracks_def reset_function_variables_def levels)
qed

section \<open>What a lookup offers\<close>

definition offers :: "vy_type \<Rightarrow> bool \<Rightarrow> decl \<Rightarrow> string list" where
  "offers t assignee d =
     (case t of
        DynArray k b cur \<Rightarrow>
          (case d_type d of
             DynArray k' b' cur' \<Rightarrow>
               (if (b = NoneType \<or> b' = b) \<and> size_fits assignee k k' then [d_name d] else [])
           | _ \<Rightarrow> [])
      | _ \<Rightarrow>
          (case byte_class t of
             Some (c, m) \<Rightarrow>
               (case byte_class (d_type d) of
                  Some (c', m') \<Rightarrow> (if c' = c \<and> size_fits assignee m m' then [d_name d] else [])
                | None \<Rightarrow> [])
           | None \<Rightarrow>
               map (snd \<circ> snd) (filter (\<lambda>e. fst e = vyper_type t) (var_entries d)) @
               concat (map (\<lambda>(ty, l, s). if ty = vyper_type t then map (item_name l) [0..<s] else [])
                 (list_parts (d_name d) (d_type d)))))"

definition in_scope :: "var_key \<Rightarrow> nat \<Rightarrow> decl list \<Rightarrow> decl list" where
  "in_scope k level D = filter (\<lambda>d. d_key d = k \<and> d_level d \<le> level) D"

lemma set_of_key: "x \<in> set (of_key k f D) \<longleftrightarrow> (\<exists>d \<in> set D. d_key d = k \<and> x \<in> set (f d))"
  by (auto simp: of_key_def)

lemma in_scope_iff: "d \<in> set (in_scope k level D) \<longleftrightarrow> d \<in> set D \<and> d_key d = k \<and> d_level d \<le> level"
  by (simp add: in_scope_def)

lemma dget_ne_key: "dget d k [] \<noteq> [] \<Longrightarrow> k \<in> fst ` set d"
  using dget_not_has [of d k "[]"] dhas_iff_key [of d k] by auto

lemma mem_concat_map: "x \<in> set (concat (map f xs)) \<longleftrightarrow> (\<exists>y \<in> set xs. x \<in> set (f y))"
  by simp

lemma mem_levels: "x \<in> set (concat (map f [0..<level + 1])) \<longleftrightarrow> (\<exists>l \<le> level. x \<in> set (f l))"
proof -
  have "set [0..<level + 1] = {l. l \<le> level}" by auto
  then show ?thesis unfolding mem_concat_map by simp
qed

lemma mem_if_empty:
  "x \<in> set (if b then [] else xs) \<longleftrightarrow> \<not> b \<and> x \<in> set xs"
  "x \<in> set (if b then xs else []) \<longleftrightarrow> b \<and> x \<in> set xs"
  by simp_all

lemma sized_at_keys:
  assumes "x \<in> set (sized_at d t l s)"
  shows "t \<in> set (map fst d)" and "l \<in> set (map fst (dget d t []))"
    and "s \<in> set (map fst (dget (dget d t []) l []))"
proof -
  have ne: "dget (dget (dget d t []) l []) s [] \<noteq> []" using assms by (auto simp: sized_at_def)
  then show "s \<in> set (map fst (dget (dget d t []) l []))" using dget_ne_key by fastforce
  have ne': "dget (dget d t []) l [] \<noteq> []" using ne by auto
  then show "l \<in> set (map fst (dget d t []))" using dget_ne_key by fastforce
  have "dget d t [] \<noteq> []" using ne' by auto
  then show "t \<in> set (map fst d)" using dget_ne_key by fastforce
qed

lemma set_get_dyns:
  "x \<in> set (get_dyns d level types sz assignee) \<longleftrightarrow>
     (\<exists>t \<in> set types. \<exists>l s. l \<le> level \<and> size_fits assignee sz s \<and> x \<in> set (sized_at d t l s))"
  unfolding get_dyns_def mem_concat_map mem_if_empty not_less
  using sized_at_keys(2,3) [of x d] by blast

lemma sized_mem:
  "sized.logged L d \<Longrightarrow> x \<in> set (sized_at d t l s) \<longleftrightarrow> ((t, s), l, x) \<in> set L"
  using sized.logged_mem [of L d x "(t, s)" l] by simp

lemma offers_dyn:
  "x \<in> set (offers (DynArray k b cur) assignee d) \<longleftrightarrow>
     (\<exists>s t c. d_type d = DynArray s t c \<and> (b = NoneType \<or> t = b) \<and> size_fits assignee k s \<and> x = d_name d)"
  by (cases "d_type d") (auto simp: offers_def)

lemma offers_bytes:
  assumes "byte_class t = Some (c, m)"
  shows "x \<in> set (offers t assignee d) \<longleftrightarrow>
     (\<exists>s. byte_class (d_type d) = Some (c, s) \<and> size_fits assignee m s \<and> x = d_name d)"
proof -
  have "offers t assignee d =
      (case byte_class (d_type d) of
         Some (c', m') \<Rightarrow> (if c' = c \<and> size_fits assignee m m' then [d_name d] else []) | None \<Rightarrow> [])"
    using assms by (cases t) (auto simp: offers_def byte_class_def)
  then show ?thesis by (cases "byte_class (d_type d)") auto
qed

lemma mem_dyn_entries:
  "((t, s), l, x) \<in> set (dyn_entries d) \<longleftrightarrow>
     d_level d = l \<and> d_name d = x \<and> (\<exists>cur. d_type d = DynArray s t cur)"
  by (cases "d_type d") (auto simp: dyn_entries_def)

lemma mem_byte_entries:
  "((c, s), l, x) \<in> set (byte_entries d) \<longleftrightarrow>
     d_level d = l \<and> d_name d = x \<and> byte_class (d_type d) = Some (c, s)"
  by (cases "byte_class (d_type d)") (auto simp: byte_entries_def)

lemma get_dyn_arrays_visible:
  assumes "tracks D tr"
  shows "set (get_dyn_arrays level b k mutable assignee tr) =
     (\<Union>d \<in> set (in_scope (key_of mutable) level D). set (offers (DynArray k b cur) assignee d))"
proof -
  let ?d = "tr_dyns tr (key_of mutable)"
  have mem: "x \<in> set (sized_at ?d t l s) \<longleftrightarrow>
      (\<exists>d \<in> set D. d_key d = key_of mutable \<and> d_level d = l \<and> d_name d = x \<and> (\<exists>cur. d_type d = DynArray s t cur))"
    for x t l s
    unfolding sized_mem [OF tracksD(3) [OF assms]] set_of_key mem_dyn_entries by simp
  have step: "x \<in> set (get_dyn_arrays level b k mutable assignee tr) \<longleftrightarrow>
      (\<exists>t l s. (b = NoneType \<or> t = b) \<and> l \<le> level \<and> size_fits assignee k s \<and> x \<in> set (sized_at ?d t l s))" for x
    unfolding get_dyn_arrays_def Let_def set_get_dyns
    using sized_at_keys(1) [of x ?d] by (cases "b = NoneType") (simp_all del: set_map, blast)
  have "x \<in> set (get_dyn_arrays level b k mutable assignee tr) \<longleftrightarrow>
      (\<exists>d \<in> set (in_scope (key_of mutable) level D). x \<in> set (offers (DynArray k b cur) assignee d))" for x
    unfolding step mem offers_dyn in_scope_iff Bex_def by blast
  then show ?thesis by auto
qed

lemma get_bytes_visible:
  assumes "tracks D tr" and "byte_class t = Some (c, m)"
  shows "set (get_dyns (tr_bytes tr (key_of mutable)) level [c] m assignee) =
     (\<Union>d \<in> set (in_scope (key_of mutable) level D). set (offers t assignee d))"
proof -
  let ?d = "tr_bytes tr (key_of mutable)"
  have mem: "x \<in> set (sized_at ?d c l s) \<longleftrightarrow>
      (\<exists>d \<in> set D. d_key d = key_of mutable \<and> d_level d = l \<and> d_name d = x \<and> byte_class (d_type d) = Some (c, s))"
    for x c l s
    unfolding sized_mem [OF tracksD(4) [OF assms(1)]] set_of_key mem_byte_entries by simp
  have "x \<in> set (get_dyns ?d level [c] m assignee) \<longleftrightarrow>
      (\<exists>d \<in> set (in_scope (key_of mutable) level D). x \<in> set (offers t assignee d))" for x
    unfolding set_get_dyns mem offers_bytes [OF assms(2)] in_scope_iff Bex_def by auto
  then show ?thesis by auto
qed


text \<open>Variables of the other types, and the elements of lists of them.\<close>

definition offers_list :: "string \<Rightarrow> decl \<Rightarrow> string list" where
  "offers_list ty d =
     concat (map (\<lambda>(ty', l, s). if ty' = ty then map (item_name l) [0..<s] else [])
       (list_parts (d_name d) (d_type d)))"

lemma offers_plain:
  assumes "\<not> isinstance_DynArray t" and "byte_class t = None"
  shows "offers t assignee d =
     map (snd \<circ> snd) (filter (\<lambda>e. fst e = vyper_type t) (var_entries d)) @ offers_list (vyper_type t) d"
  using assms
  by (cases t) (simp_all add: offers_def offers_list_def isinstance_DynArray_def byte_class_def)

lemma plain_vars_visible:
  assumes "tracks D tr"
  shows "x \<in> set (concat (map (plain_at (tr_vars tr k) ty) [0..<level + 1])) \<longleftrightarrow>
     (\<exists>d \<in> set (in_scope k level D). x \<in> set (map (snd \<circ> snd) (filter (\<lambda>e. fst e = ty) (var_entries d))))"
proof -
  have mem: "x \<in> set (plain_at (tr_vars tr k) ty l) \<longleftrightarrow>
      (\<exists>d \<in> set D. d_key d = k \<and> (ty, l, x) \<in> set (var_entries d))" for l
    using plain.logged_mem [OF tracksD(1) [OF assms]] by (simp add: set_of_key)
  have lv: "(ty, l, x) \<in> set (var_entries d) \<Longrightarrow> l = d_level d" for l d
    using entry_levels(1) [of "(ty, l, x)" d] by simp
  have here: "x \<in> set (map (snd \<circ> snd) (filter (\<lambda>e. fst e = ty) (var_entries d))) \<longleftrightarrow>
      (ty, d_level d, x) \<in> set (var_entries d)" for d
    by (auto simp: var_entries_def)
  show ?thesis unfolding mem_levels mem here in_scope_iff Bex_def using lv by blast
qed

lemma get_list_items_visible:
  assumes "tracks D tr"
  shows "x \<in> set (get_list_items level t mutable tr) \<longleftrightarrow>
     (\<exists>d \<in> set (in_scope (key_of mutable) level D). x \<in> set (offers_list (vyper_type t) d))"
proof -
  have mem: "(l, s) \<in> set (plain_at (tr_lists tr (key_of mutable)) (vyper_type t) lv) \<longleftrightarrow>
      (\<exists>d \<in> set D. d_key d = key_of mutable \<and> d_level d = lv \<and> (vyper_type t, l, s) \<in> set (list_parts (d_name d) (d_type d)))"
    for l s lv
    using plain.logged_mem [OF tracksD(2) [OF assms]]
    by (force simp: set_of_key list_entries_def)
  have here: "x \<in> set (offers_list (vyper_type t) d) \<longleftrightarrow>
      (\<exists>l s. (vyper_type t, l, s) \<in> set (list_parts (d_name d) (d_type d)) \<and> x \<in> item_name l ` {0..<s})" for d
    by (fastforce simp: offers_list_def split: if_splits)
  have "x \<in> set (get_list_items level t mutable tr) \<longleftrightarrow>
      (\<exists>l s lv. lv \<le> level \<and> (l, s) \<in> set (plain_at (tr_lists tr (key_of mutable)) (vyper_type t) lv) \<and>
        x \<in> item_name l ` {0..<s})"
    unfolding get_list_items_def Let_def
    by (subst mem_concat_map) (force simp only: Bex_def mem_levels set_map set_upt split_paired_Ex prod.case)
  then show ?thesis unfolding mem here in_scope_iff Bex_def by blast
qed

lemma get_vars_visible:
  assumes "tracks D tr"
  shows "set (get_vars t level mutable assignee tr) =
     (\<Union>d \<in> set (in_scope (key_of mutable) level D). set (offers t assignee d))"
proof (cases "\<exists>k b cur. t = DynArray k b cur")
  case True
  then obtain k b cur where "t = DynArray k b cur" by blast
  then show ?thesis
    using get_dyn_arrays_visible [OF assms, of level b k mutable assignee cur]
    by (simp add: get_vars_def)
next
  case dyn: False
  show ?thesis
  proof (cases "byte_class t")
    case (Some cm)
    obtain c m where cm: "cm = (c, m)" by (cases cm)
    have "get_vars t level mutable assignee tr = get_dyns (tr_bytes tr (key_of mutable)) level [c] m assignee"
      using Some cm dyn by (cases t) (auto simp: get_vars_def byte_class_def)
    then show ?thesis using get_bytes_visible [OF assms] Some cm by simp
  next
    case None
    have gv: "get_vars t level mutable assignee tr =
        concat (map (plain_at (tr_vars tr (key_of mutable)) (vyper_type t)) [0..<level + 1]) @
        get_list_items level t mutable tr"
      using None dyn by (cases t) (auto simp: get_vars_def byte_class_def)
    have nd: "\<not> isinstance_DynArray t" using dyn by (cases t) (auto simp: isinstance_DynArray_def)
    have "x \<in> set (get_vars t level mutable assignee tr) \<longleftrightarrow>
        (\<exists>d \<in> set (in_scope (key_of mutable) level D). x \<in> set (offers t assignee d))" for x
      unfolding gv set_append Un_iff plain_vars_visible [OF assms] get_list_items_visible [OF assms]
        offers_plain [OF nd None] by blast
    then show ?thesis by auto
  qed
qed

section \<open>Generated names are fresh\<close>

text \<open>
  A generated name is a prefix, the name of the type and a number; the variable of a loop is
  numbered with the integers. The number never exceeds the current number of the type.
\<close>

definition id_of :: "(string \<times> int) list \<Rightarrow> string \<Rightarrow> int" where
  "id_of m tn = dget m tn (- 1)"

definition name_prefixes :: "string list" where
  "name_prefixes = [''x'', ''C'', ''IM'', ''self.x'', ''self.C'', ''self.IM'']"

definition loop_name :: "int \<Rightarrow> string" where
  "loop_name i = ''i_'' @ py_str i"

definition numbered_name :: "vy_type \<Rightarrow> int \<Rightarrow> string \<Rightarrow> bool" where
  "numbered_name t i n =
     ((\<exists>pre \<in> set name_prefixes. n = var_name pre t i) \<or> (t = IntT 256 False \<and> n = loop_name i))"

definition numbered :: "decl list \<Rightarrow> var_tracker \<Rightarrow> bool" where
  "numbered D tr \<longleftrightarrow>
     (\<forall>tn. id_of (global_var_id_map tr) tn \<le> id_of (var_id_map tr) tn) \<and>
     (\<forall>d \<in> set D. \<exists>i \<le> id_of (var_id_map tr) (type_name (d_type d)).
        numbered_name (d_type d) i (d_name d) \<and>
        (d_level d = 0 \<longrightarrow> i \<le> id_of (global_var_id_map tr) (type_name (d_type d))))"

lemma underscore_free: "CHR ''_'' \<notin> set (py_str i)"
proof -
  have "CHR ''_'' \<notin> set (nat_str n)" for n
    using nat_str_digits [of "CHR ''_''" n] by (auto simp: is_digit_def digit_val_def Let_def)
  then show ?thesis by (simp add: py_str_def)
qed

lemma split_at_last:
  assumes "xs @ x # us = ys @ x # vs" and "x \<notin> set us" and "x \<notin> set vs"
  shows "xs = ys \<and> us = vs"
proof -
  have "rev us @ x # rev xs = rev vs @ x # rev ys" using arg_cong [OF assms(1), of rev] by simp
  then have "rev us = rev vs \<and> rev xs = rev ys" by (rule split_at_first [rotated 2]) (use assms in simp_all)
  then show ?thesis by simp
qed

lemma var_name_inj:
  assumes "pre \<in> set name_prefixes" and "pre' \<in> set name_prefixes"
    and "var_name pre t i = var_name pre' u j"
  shows "type_name t = type_name u \<and> i = j"
proof -
  have free: "CHR ''_'' \<notin> set pre" "CHR ''_'' \<notin> set pre'"
    using assms(1,2) by (auto simp: name_prefixes_def)
  have "(pre @ ''_'' @ type_name t) @ CHR ''_'' # py_str i = (pre' @ ''_'' @ type_name u) @ CHR ''_'' # py_str j"
    using assms(3) by (simp add: var_name_def)
  then have "pre @ ''_'' @ type_name t = pre' @ ''_'' @ type_name u \<and> py_str i = py_str j"
    by (rule split_at_last) (simp_all add: underscore_free)
  moreover from this have "pre @ CHR ''_'' # type_name t = pre' @ CHR ''_'' # type_name u" by simp
  then have "type_name t = type_name u" using split_at_first [OF free] by blast
  ultimately show ?thesis by (simp add: py_str_inj)
qed

lemma loop_name_not_var: "pre \<in> set name_prefixes \<Longrightarrow> var_name pre t i \<noteq> loop_name j"
  by (auto simp: name_prefixes_def var_name_def loop_name_def)

lemma loop_name_inj: "loop_name i = loop_name j \<longleftrightarrow> i = j"
  by (simp add: loop_name_def py_str_inj)

lemma numbered_name_inj:
  assumes "numbered_name t i n" and "numbered_name u j n"
  shows "type_name t = type_name u \<and> i = j"
  using assms loop_name_not_var var_name_inj loop_name_inj
  unfolding numbered_name_def by metis

lemma type_int_name: "type_name (IntT n sgd) = ''INT''" by simp

lemma next_id_facts:
  "fst (next_id t tr) = id_of (var_id_map tr) (type_name t) + 1"
  "id_of (var_id_map (snd (next_id t tr))) tn = id_of (var_id_map tr) tn"
  "global_var_id_map (snd (next_id t tr)) = global_var_id_map tr"
  by (auto simp: next_id_def current_id_def id_of_def Let_def split_beta dget_update dget_not_has)

lemma bump_id_facts:
  "id_of (var_id_map (bump_id t l tr)) tn =
     (if tn = type_name t then id_of (var_id_map tr) tn + 1 else id_of (var_id_map tr) tn)"
  "id_of (global_var_id_map (bump_id t l tr)) tn =
     (if l = 0 \<and> tn = type_name t then id_of (var_id_map tr) tn + 1 else id_of (global_var_id_map tr) tn)"
  using next_id_facts [of t tr]
  by (auto simp: bump_id_def split_beta Let_def id_of_def dget_update)

lemma register_items_ids:
  "var_id_map (fold (\<lambda>i. register_list_items (f i) l b k key) xs tr) = var_id_map tr"
  "global_var_id_map (fold (\<lambda>i. register_list_items (f i) l b k key) xs tr) = global_var_id_map tr"
  by (induction xs arbitrary: tr) (simp_all add: register_list_items_def)

lemma register_ids:
  "var_id_map (register_function_variable n l t mutable tr) = var_id_map (bump_id t l tr)"
  "global_var_id_map (register_function_variable n l t mutable tr) = global_var_id_map (bump_id t l tr)"
  by (simp_all add: register_function_variable_def register_list_items_def register_dyn_array_def
      register_bytes_or_string_def register_items_ids Let_def split: vy_type.splits option.splits)

lemma numbered_next_id [simp]: "numbered D (snd (next_id t tr)) = numbered D tr"
  by (simp add: numbered_def next_id_facts)

text \<open>A name with the next number is new, and registering it keeps the numbering.\<close>

lemma numbered_fresh:
  assumes "numbered D tr" and "numbered_name t (id_of (var_id_map tr) (type_name t) + 1) n"
  shows "n \<notin> d_name ` set D"
proof
  assume "n \<in> d_name ` set D"
  then obtain d where "d \<in> set D" "n = d_name d" by blast
  then show False
    using assms numbered_name_inj unfolding numbered_def by (metis add_le_same_cancel1 not_one_le_zero)
qed

lemma numbered_register:
  assumes "numbered D tr" and "numbered_name t (id_of (var_id_map tr) (type_name t) + 1) (full_name n l mutable)"
  shows "numbered (D @ [Decl (full_name n l mutable) l t (key_of mutable)]) (register_function_variable n l t mutable tr)"
proof -
  have "\<exists>i \<le> id_of (var_id_map (bump_id t l tr)) (type_name (d_type d)).
        numbered_name (d_type d) i (d_name d) \<and>
        (d_level d = 0 \<longrightarrow> i \<le> id_of (global_var_id_map (bump_id t l tr)) (type_name (d_type d)))"
    if "d \<in> set D" for d
  proof -
    obtain i where "i \<le> id_of (var_id_map tr) (type_name (d_type d))" "numbered_name (d_type d) i (d_name d)"
      "d_level d = 0 \<longrightarrow> i \<le> id_of (global_var_id_map tr) (type_name (d_type d))"
      using assms(1) \<open>d \<in> set D\<close> unfolding numbered_def by blast
    then show ?thesis by (intro exI [of _ i]) (auto simp: bump_id_facts)
  qed
  moreover have "id_of (global_var_id_map (bump_id t l tr)) tn \<le> id_of (var_id_map (bump_id t l tr)) tn" for tn
    using assms(1) by (auto simp: numbered_def bump_id_facts intro: order_trans)
  ultimately show ?thesis
    using assms(2) by (auto simp: numbered_def register_ids bump_id_facts)
qed

lemma numbered_filter: "numbered D tr \<Longrightarrow> numbered (filter P D) tr"
  by (auto simp: numbered_def)

lemma numbered_remove: "numbered D tr \<Longrightarrow> numbered (filter P D) (remove_function_level l mutable tr)"
  by (auto simp: numbered_def remove_function_level_def Let_def)

lemma numbered_reset:
  assumes "numbered D tr"
  shows "numbered (filter (\<lambda>d. d_level d = 0) D) (reset_function_variables tr)"
  using assms by (auto simp: numbered_def reset_function_variables_def)

text \<open>What \<open>create_and_register_variable\<close> returns, in terms of the log.\<close>

lemma create_and_register_fresh:
  assumes "tracks D tr" and "numbered D tr"
    and "create_and_register_variable t l mut tr = Inr (n, tr')"
  defines "d \<equiv> Decl (full_name n l (mut = REGULAR)) l t (key_of (mut = REGULAR))"
  shows "tracks (D @ [d]) tr'" and "numbered (D @ [d]) tr'" and "d_name d \<notin> d_name ` set D"
proof -
  let ?tr = "snd (next_id t tr)"
  obtain pre where pre: "var_prefix l mut = Inr pre" and n: "n = var_name pre t (fst (next_id t tr))"
    and tr': "tr' = register_function_variable n l t (mut = REGULAR) ?tr"
    using assms(3) by (auto simp: create_and_register_variable_def split_beta bindR_Inr_iff
        Let_def register_global_variable_def split: if_splits)
  have "pre \<in> {''x'', ''C'', ''IM''}"
    using pre by (auto simp: var_prefix_def split: if_splits)
  then have "full_name n l (mut = REGULAR) = var_name pre t (fst (next_id t tr)) \<or>
      full_name n l (mut = REGULAR) = var_name (''self.'' @ pre) t (fst (next_id t tr))"
    by (auto simp: n full_name_def var_name_def)
  then have nn: "numbered_name t (id_of (var_id_map ?tr) (type_name t) + 1) (full_name n l (mut = REGULAR))"
    using \<open>pre \<in> {''x'', ''C'', ''IM''}\<close>
    by (auto simp: numbered_name_def name_prefixes_def next_id_facts)
  show "tracks (D @ [d]) tr'"
    unfolding tr' d_def by (rule register_function_variable_tracks) (simp add: assms(1))
  show "numbered (D @ [d]) tr'"
    unfolding tr' d_def by (rule numbered_register [OF _ nn]) (simp add: assms(2))
  show "d_name d \<notin> d_name ` set D"
    unfolding d_def by (simp, rule numbered_fresh [OF _ nn]) (simp add: assms(2))
qed

end
