(* ===== verification/Func_Tracker.thy ===== *)
theory Func_Tracker imports Var_Scope begin

text \<open>
  \<^verbatim>\<open>converters/func_tracker.py\<close>: the functions of the contract under construction and
  how their calls, signatures and definitions are rendered.
\<close>

section \<open>Functions\<close>

record func_obj =
  f_id :: nat
  f_name :: string
  f_mutability :: int
  f_visibility :: int
  f_inputs :: "vy_type list"
  f_outputs :: "vy_type list"
  f_body :: string
  f_reentrancy :: string

text \<open>The counter of the tracker is the number of the last function, -1 before the first.\<close>

record func_tracker =
  ft_id :: int
  ft_functions :: "func_obj list"
  ft_max :: nat

text \<open>Enumerators of \<^verbatim>\<open>Func.Visibility\<close> and the mutability levels of the converter.\<close>

definition EXTERNAL :: int where "EXTERNAL = 0"
definition INTERNAL :: int where "INTERNAL = 1"

definition PURE :: int where "PURE = 0"
definition VIEW :: int where "VIEW = 1"
definition NON_PAYABLE :: int where "NON_PAYABLE = 2"
definition PAYABLE :: int where "PAYABLE = 3"

definition new_function :: "nat \<Rightarrow> string \<Rightarrow> int \<Rightarrow> int \<Rightarrow> vy_type list \<Rightarrow> vy_type list \<Rightarrow> func_obj" where
  "new_function i name mut vis inputs outputs =
     \<lparr>f_id = i, f_name = name, f_mutability = mut, f_visibility = vis, f_inputs = inputs,
      f_outputs = outputs, f_body = '''', f_reentrancy = ''''\<rparr>"

definition new_func_tracker :: "nat \<Rightarrow> func_tracker" where
  "new_func_tracker max_functions = \<lparr>ft_id = - 1, ft_functions = [], ft_max = max_functions\<rparr>"

section \<open>Rendering\<close>

definition call_name :: "func_obj \<Rightarrow> string" where
  "call_name f = ''self.'' @ f_name f"

definition render_call :: "func_obj \<Rightarrow> string list \<Rightarrow> string" where
  "render_call f args = call_name f @ ''('' @ py_join '', '' args @ '')''"

definition render_outputs :: "vy_type list \<Rightarrow> string" where
  "render_outputs outs =
     (if outs = [] then ''''
      else let output = py_join '', '' (map vyper_type outs)
           in if 1 < length outs then '' -> ('' @ output @ '')'' else '' -> '' @ output)"

definition render_signature :: "func_obj \<Rightarrow> string list \<Rightarrow> string res" where
  "render_signature f names =
     (if length names \<noteq> length (f_inputs f) then
        Inl (ValueError (''parameter length '' @ nat_str (length names) @
          '' does not match signature length '' @ nat_str (length (f_inputs f))))
      else Inr (''def '' @ f_name f @ ''('' @
        py_join '', '' (map (\<lambda>(n, t). n @ '': '' @ vyper_type t) (zip names (f_inputs f))) @ '')'' @
        render_outputs (f_outputs f)))"

text \<open>Indexing the tuple of decorators; negative indices do not occur.\<close>

definition MUTABILITY_MAPPING :: "string list" where
  "MUTABILITY_MAPPING = [''@pure'', ''@view'', ''@nonpayable'', ''@payable'']"

definition mutability_decorator :: "int \<Rightarrow> string res" where
  "mutability_decorator mut =
     (if 0 \<le> mut \<and> nat mut < length MUTABILITY_MAPPING then Inr (MUTABILITY_MAPPING ! nat mut)
      else Inl (IndexError ''tuple index out of range''))"

definition newline :: string where "newline = [CHR 0x0A]"

definition render_definition :: "func_obj \<Rightarrow> string list \<Rightarrow> string res" where
  "render_definition f names =
     bindR (mutability_decorator (f_mutability f)) (\<lambda>mut.
     bindR (render_signature f names) (\<lambda>signature.
       let vis = (if f_visibility f = EXTERNAL then ''@external'' else ''@internal'')
       in Inr (vis @ newline @ f_reentrancy f @ mut @ newline @ signature @ '':'' @ newline @ f_body f)))"

section \<open>The tracker\<close>

definition ft_next_id :: "func_tracker \<Rightarrow> int" where
  "ft_next_id ft = ft_id ft + 1"

definition generate_function_name :: "func_tracker \<Rightarrow> string" where
  "generate_function_name ft = ''func_'' @ py_str (ft_next_id ft)"

definition register_function ::
  "string \<Rightarrow> int \<Rightarrow> int \<Rightarrow> vy_type list \<Rightarrow> vy_type list \<Rightarrow> func_tracker \<Rightarrow> func_tracker" where
  "register_function name mut vis inputs outputs ft =
     (let i = ft_id ft + 1
      in ft\<lparr>ft_id := i, ft_functions := ft_functions ft @ [new_function (nat i) name mut vis inputs outputs]\<rparr>)"

fun register_functions :: "bool \<Rightarrow> msg list \<Rightarrow> func_tracker \<Rightarrow> func_tracker res" where
  "register_functions d [] ft = Inr ft"
| "register_functions d (m # ms) ft =
     (if ft_max ft \<le> length (ft_functions ft) then Inr ft
      else bindR (get_int d m ''mut'') (\<lambda>mut.
           bindR (get_int d m ''vis'') (\<lambda>vis.
             register_functions d ms (register_function (generate_function_name ft) mut vis [] [] ft))))"

text \<open>\<^verbatim>\<open>in\<close> and \<^verbatim>\<open>index\<close> compare with the equality of the type classes.\<close>

definition py_index :: "vy_type \<Rightarrow> vy_type list \<Rightarrow> nat option" where
  "py_index t ts = find (\<lambda>i. py_eq (ts ! i) t) [0..<length ts]"

definition find_functions_by_output :: "vy_type \<Rightarrow> func_tracker \<Rightarrow> (func_obj \<times> nat) list" where
  "find_functions_by_output t ft =
     List.map_filter (\<lambda>f. map_option (Pair f) (py_index t (f_outputs f))) (ft_functions ft)"

section \<open>Numbers are positions\<close>

definition ft_wf :: "func_tracker \<Rightarrow> bool" where
  "ft_wf ft \<longleftrightarrow>
     ft_id ft = int (length (ft_functions ft)) - 1 \<and>
     map f_id (ft_functions ft) = [0..<length (ft_functions ft)] \<and>
     map f_name (ft_functions ft) = map (\<lambda>i. ''func_'' @ py_str (int i)) [0..<length (ft_functions ft)]"

lemma ft_wf_new: "ft_wf (new_func_tracker k)"
  by (simp add: ft_wf_def new_func_tracker_def)

lemma ft_wf_register:
  assumes "ft_wf ft"
  shows "ft_wf (register_function (generate_function_name ft) mut vis ins outs ft)"
  using assms
  by (simp add: ft_wf_def register_function_def new_function_def generate_function_name_def
      ft_next_id_def Let_def)

lemma register_functions_wf:
  assumes "ft_wf ft" and "register_functions d ms ft = Inr ft'"
  shows "ft_wf ft'"
  using assms
proof (induction ms arbitrary: ft)
  case (Cons m ms)
  then show ?case
    using Cons.IH [OF ft_wf_register [OF Cons.prems(1)]] by (auto simp: bindR_Inr_iff split: if_splits)
qed simp

lemma register_functions_length:
  assumes "register_functions d ms ft = Inr ft'" and "length (ft_functions ft) \<le> ft_max ft"
  shows "length (ft_functions ft') = min (ft_max ft) (length (ft_functions ft) + length ms) \<and>
         ft_max ft' = ft_max ft"
  using assms
proof (induction ms arbitrary: ft)
  case (Cons m ms)
  show ?case
  proof (cases "ft_max ft \<le> length (ft_functions ft)")
    case False
    then obtain mut vis where
      "register_functions d ms (register_function (generate_function_name ft) mut vis [] [] ft) = Inr ft'"
      using Cons.prems(1) by (auto simp: bindR_Inr_iff)
    then show ?thesis
      using Cons.IH [of "register_function (generate_function_name ft) mut vis [] [] ft"] False
      by (simp add: register_function_def Let_def)
  qed (use Cons.prems in auto)
qed simp

lemma ft_wf_names:
  assumes "ft_wf ft"
  shows "distinct (map f_name (ft_functions ft))"
proof -
  have "inj_on (\<lambda>i. ''func_'' @ py_str (int i)) (set [0..<n])" for n
    by (rule inj_onI) (simp add: py_str_inj)
  then have "distinct (map (\<lambda>i. ''func_'' @ py_str (int i)) [0..<n])" for n
    by (simp only: distinct_map distinct_upt simp_thms)
  then show ?thesis using assms by (simp only: ft_wf_def)
qed

lemma ft_wf_nth:
  assumes "ft_wf ft" and "i < length (ft_functions ft)"
  shows "f_id (ft_functions ft ! i) = i"
proof -
  have "map f_id (ft_functions ft) ! i = [0..<length (ft_functions ft)] ! i"
    using assms(1) by (simp only: ft_wf_def)
  then show ?thesis using assms(2) by simp
qed

end
