(* ===== verification/Type_Claims.thy ===== *)
theory Type_Claims imports Func_Tracker begin

text \<open>
  What the parts below the converter promise: types that Vyper accepts, literals in the range of
  their types, guarded operands, and a variable tracker that is its log of declarations.
\<close>

section \<open>Types\<close>

text \<open>
  Claim C14. A message that describes a variable or a parameter and conforms to the protocol file is
  always converted to a type that can be declared: an integer of 8 to 256 bits in steps of 8, 1 to 32
  fixed bytes, strings of 1 to 1000, lists of 1 to 100 elements, nested as the compiler allows.
\<close>

theorem extract_declarable:
  assumes "conforms d m" and "mtype m \<in> {''VarRef'', ''VarDecl'', ''FuncParam''}"
  shows "\<exists>t. extract_vy_type TYPE_DEPTH d False m = Inr t \<and> declarable t"
  using extract_top [OF assms] by blast

text \<open>A dynamic array of lists; the sizes are cut to the maximum.\<close>

definition nested_dyn :: msg where
  "nested_dyn = Msg ''VarDecl'' [(''dyn'', VMsg (Msg ''DynArray''
     [(''list'', VMsg (Msg ''FixedList'' [(''b'', VMsg (Msg ''Bool'' [])), (''n'', VInt 7)])), (''n'', VInt 4000000000)]))]"

lemma nested_dyn_conforms: "conforms d nested_dyn" "mtype nested_dyn = ''VarDecl''"
  by (simp_all add: nested_dyn_def schema_eval type_messages proto_message_def)

theorem extract_declarable_witness:
  "\<exists>t. extract_vy_type TYPE_DEPTH True False nested_dyn = Inr t \<and> declarable t"
  by (rule extract_declarable [OF nested_dyn_conforms(1)]) (simp add: nested_dyn_conforms)

text \<open>
  Claim C35. The dictionaries of the tracker are keyed by types and by their Vyper names; for the types
  a list may hold, a key is found exactly when it is the type that was stored, so neither key confuses
  two types.
\<close>

theorem type_keys_faithful:
  assumes "element_type t" and "element_type u"
  shows "(key_eq t u \<longleftrightarrow> t = u) \<and> (vyper_type t = vyper_type u \<longleftrightarrow> t = u)"
  using key_eq_iff [OF assms] vyper_type_inj [OF assms] by blast

theorem type_keys_faithful_witness:
  "\<not> key_eq (FixedList 3 (IntT 8 False)) (FixedList 3 (IntT 8 True)) \<and>
   vyper_type (FixedList 3 (IntT 8 False)) \<noteq> vyper_type (FixedList 3 (IntT 8 True))"
  using type_keys_faithful [of "FixedList 3 (IntT 8 False)" "FixedList 3 (IntT 8 True)"] by simp

section \<open>Literals and operands\<close>



lemma shift_operand_bound:
  assumes "py_eval E right = Some (PyInt i)" and "shift_operand E right = Inr r"
  shows "\<exists>k \<le> 256. py_eval E r = Some (PyInt k)"
proof (cases "256 < i")
  case True
  then have "r = py_str (i mod 257)" using assms by (simp add: shift_operand_def)
  then show ?thesis using pos_mod_bound [of 257 i] by (intro exI [of _ "i mod 257"]) simp
next
  case False
  then show ?thesis using assms by (simp add: shift_operand_def)
qed

text \<open>
  Claim C31. The operands that come out of the check: the divisor of \<^verbatim>\<open>/\<close> and of
  \<^verbatim>\<open>%\<close> is never the constant zero, a constant shift distance is at most 256 bits, and
  shifts are left only on 256-bit integers. The check does not look at the division
  \<^verbatim>\<open>//\<close> of the Nagini converter, whose operands pass as they are, a zero divisor
  included.
\<close>

theorem operands_guarded:
  assumes "check_binop_bounds E n left bin_op right = Inr (l, opr, r)"
  shows "(opr \<in> {''/'', ''%''} \<longrightarrow> py_eval E r \<noteq> Some (PyInt 0)) \<and>
    (opr \<in> {''<<'', ''>>''} \<longrightarrow> n = 256 \<and>
      (\<forall>i. py_eval E right = Some (PyInt i) \<longrightarrow> (\<exists>k \<le> 256. py_eval E r = Some (PyInt k)))) \<and>
    (opr = ''//'' \<longrightarrow> l = left \<and> r = right)"
proof (intro conjI impI)
  have opr: "opr = shift_op n bin_op" using check_binop_bounds_op [OF assms] .
  show "py_eval E r \<noteq> Some (PyInt 0)" if "opr \<in> {''/'', ''%''}"
  proof -
    have "bin_op = ''/'' \<or> bin_op = ''%''" using that opr by auto
    from check_binop_bounds_div [OF this, of E n left right] show ?thesis
      using assms div_operand_nonzero [of E right] by simp
  qed
  show n: "n = 256" if "opr \<in> {''<<'', ''>>''}"
    using that opr by (auto simp: shift_op_def split: if_splits)
  show "\<forall>i. py_eval E right = Some (PyInt i) \<longrightarrow> (\<exists>k \<le> 256. py_eval E r = Some (PyInt k))"
    if sh: "opr \<in> {''<<'', ''>>''}"
  proof -
    have "bin_op = ''<<'' \<or> bin_op = ''>>''" using sh opr by (auto simp: shift_op_def split: if_splits)
    from check_binop_bounds_shift [OF this, of E left right]
    have "shift_operand E right = Inr r" using assms n [OF sh] by (auto simp: bindR_Inr_iff)
    then show ?thesis using shift_operand_bound by blast
  qed
  show "l = left" "r = right" if "opr = ''//''"
  proof -
    have "bin_op = ''//''" using that opr by (auto simp: shift_op_def split: if_splits)
    then show "l = left" "r = right" using assms by (simp_all add: check_binop_bounds_floordiv)
  qed
qed

theorem operands_guarded_witness:
  "\<forall>E. \<exists>r. check_binop_bounds E 256 ''x'' ''/'' (py_str 0) = Inr (''x'', ''/'', r) \<and> py_eval E r \<noteq> Some (PyInt 0)"
proof
  fix E
  have "check_binop_bounds E 256 ''x'' ''/'' (py_str 0) = Inr (''x'', ''/'', div_operand E (py_str 0))"
    by (rule check_binop_bounds_div) simp
  from operands_guarded [OF this] this
  show "\<exists>r. check_binop_bounds E 256 ''x'' ''/'' (py_str 0) = Inr (''x'', ''/'', r) \<and> py_eval E r \<noteq> Some (PyInt 0)"
    by blast
qed

text \<open>
  Literals have the shape of their types: fixed bytes have exactly two hexadecimal digits
  per byte, byte strings and strings are not longer than the type and strings have none of the invalid
  symbols in them.
\<close>

theorem literal_shapes:
  "(\<exists>h. bytesM_literal m bs = ''0x'' @ h \<and> length h = 2 * m \<and> list_all is_hex h) \<and>
   (\<exists>h. bytes_literal k v = ''b'' @ [CHR 0x22] @ h @ [CHR 0x22] \<and> length h \<le> k \<and> list_all is_hex h) \<and>
   length (string_literal j cs) \<le> j \<and>
   list_all (\<lambda>c. of_char c \<notin> set invalid_symbols) (string_literal j cs)"
  using bytesM_literal_shape bytes_literal_shape string_literal_length string_literal_chars
  by (simp add: list_all_iff)

text \<open>
  The checksum function of the compiler is only given well-formed addresses, a prefix and
  forty hexadecimal digits, for every address literal of 160 bits.
\<close>

theorem address_argument:
  assumes "v < 2 ^ 160"
  shows "\<exists>h. address_literal E v = checksum_encode E (''0x'' @ h) \<and> length h = 40 \<and> list_all is_hex h"
proof -
  obtain h where "fill_address (take 42 (py_hex v)) = ''0x'' @ h" "length h = 40" "list_all is_hex h"
    using fill_address_shape [OF assms] by blast
  then show ?thesis by (auto simp: address_literal_def)
qed

theorem address_argument_witness:
  "\<forall>E. \<exists>h. address_literal E 0xABC = checksum_encode E (''0x'' @ h) \<and> length h = 40 \<and> list_all is_hex h"
  by (intro allI address_argument) simp

section \<open>The variable tracker\<close>

text \<open>
  Claim C26. The tracker is the log of its declarations: registering a variable appends its
  declaration, leaving a level drops the declarations of that level and kind, and the reset between
  functions keeps the global ones, in every one of its nested dictionaries.
\<close>

theorem tracker_is_log:
  assumes "tracks D tr"
  shows "tracks (D @ [Decl (full_name n l mutable) l t (key_of mutable)])
      (register_function_variable n l t mutable tr) \<and>
    tracks (filter (\<lambda>d. \<not> (d_key d = key_of mutable \<and> d_level d = l)) D) (remove_function_level l mutable tr) \<and>
    tracks (filter (\<lambda>d. d_level d = 0) D) (reset_function_variables tr)"
  using assms register_function_variable_tracks remove_function_level_tracks reset_function_variables_tracks
  by blast

theorem tracker_is_log_witness:
  "tracks [Decl ''self.x_BOOL_0'' 0 Bool FUNCTION_KEY]
     (register_function_variable ''x_BOOL_0'' 0 Bool True new_tracker)"
  using tracker_is_log [OF tracks_new, of "''x_BOOL_0''" 0 True Bool] by (simp add: full_name_def key_of_def)

text \<open>
  Claim C27. A lookup offers exactly what the declarations in scope offer: the variables of the type
  and kind that are declared at the level or outside of it, the elements of lists of the type, and for
  byte strings, strings and dynamic arrays those whose size fits.
\<close>

theorem lookup_is_scope:
  assumes "tracks D tr"
  shows "set (get_vars t level mutable assignee tr) =
     (\<Union>d \<in> set (in_scope (key_of mutable) level D). set (offers t assignee d))"
  using get_vars_visible [OF assms] .

theorem lookup_is_scope_witness:
  "set (get_vars Bool 3 True False (register_function_variable ''x_BOOL_0'' 0 Bool True new_tracker)) = {''self.x_BOOL_0''}"
  using lookup_is_scope [OF register_function_variable_tracks [OF tracks_new], of Bool 3 True False "''x_BOOL_0''" 0 Bool True]
  by (simp add: in_scope_def key_of_def offers_def var_entries_def byte_class_def isinstance_DynArray_def full_name_def)

text \<open>
  Claim C34. The names the tracker makes up are fresh: a new variable never has the name of one that is
  alive, and the numbering stays ahead of all names.
\<close>

theorem new_names_fresh:
  assumes "tracks D tr" and "numbered D tr"
    and "create_and_register_variable t l mut tr = Inr (n, tr')"
  shows "full_name n l (mut = REGULAR) \<notin> d_name ` set D \<and>
    numbered (D @ [Decl (full_name n l (mut = REGULAR)) l t (key_of (mut = REGULAR))]) tr'"
  using create_and_register_fresh [OF assms] by simp

lemma numbered_new: "numbered [] new_tracker"
  by (simp add: numbered_def new_tracker_def)

theorem new_names_fresh_witness:
  "\<exists>n tr'. create_and_register_variable Bool 0 REGULAR new_tracker = Inr (n, tr') \<and>
     full_name n 0 True \<notin> d_name ` set []"
proof -
  obtain n tr' where "create_and_register_variable Bool 0 REGULAR new_tracker = Inr (n, tr')"
    by (auto simp: create_and_register_variable_def var_prefix_def split_beta Let_def)
  from new_names_fresh [OF tracks_new numbered_new this] this show ?thesis by auto
qed

section \<open>The function tracker\<close>

text \<open>
  Registering the functions of a contract numbers them by position and names them apart, and
  takes as many as the tracker admits.
\<close>

theorem registered_functions:
  assumes "register_functions d ms (new_func_tracker k) = Inr ft"
  shows "length (ft_functions ft) = min k (length ms) \<and> distinct (map f_name (ft_functions ft)) \<and>
    map f_id (ft_functions ft) = [0..<length (ft_functions ft)]"
proof -
  have wf: "ft_wf ft" using register_functions_wf [OF ft_wf_new assms] .
  then show ?thesis
    using register_functions_length [OF assms] ft_wf_names [OF wf]
    by (simp add: new_func_tracker_def ft_wf_def)
qed

theorem registered_functions_witness:
  "\<exists>ft. register_functions True [Msg ''Func'' [], Msg ''Func'' []] (new_func_tracker 1) = Inr ft \<and>
     length (ft_functions ft) = 1"
proof -
  obtain ft where "register_functions True [Msg ''Func'' [], Msg ''Func'' []] (new_func_tracker 1) = Inr ft"
    by (auto simp: new_func_tracker_def register_function_def get_int_def schema_eval proto_message_def
        is_int_kind_def present_def Let_def)
  from registered_functions [OF this] this show ?thesis by (simp del: register_functions.simps)
qed

end
