(* ===== verification/Call_Order.thy ===== *)
theory Call_Order imports Func_Tracker begin

text \<open>
  \<^verbatim>\<open>converters/function_converter.py\<close>: which internal functions a function calls,
  the removal of cyclic calls and the order in which the functions are converted, callees first.
\<close>

section \<open>Finding the calls\<close>

text \<open>The call tree is a defaultdict of lists: a function whose default is the empty list.\<close>

type_synonym call_tree = "nat \<Rightarrow> nat list"

definition note_call :: "func_obj list \<Rightarrow> nat \<Rightarrow> int \<Rightarrow> call_tree \<Rightarrow> call_tree" where
  "note_call fs i func_num tree =
     (let func_index = nat (func_num mod int (length fs))
      in if func_index \<notin> set (tree i) \<and> f_visibility (fs ! func_index) \<noteq> EXTERNAL
         then tree(i := tree i @ [func_index]) else tree)"

text \<open>
  The number of the callee of a statement's \<^verbatim>\<open>func_call\<close>. The walk goes through every
  field that is set; it does not enter a call.
\<close>

definition callee_num :: "fval \<Rightarrow> int" where
  "callee_num v =
     (case v of VMsg m \<Rightarrow> (case present m ''func_num'' of Some (VInt k) \<Rightarrow> k | _ \<Rightarrow> 0) | _ \<Rightarrow> 0)"

fun find_func_call :: "func_obj list \<Rightarrow> nat \<Rightarrow> msg \<Rightarrow> call_tree \<Rightarrow> call_tree"
and find_in_val :: "func_obj list \<Rightarrow> nat \<Rightarrow> fval \<Rightarrow> call_tree \<Rightarrow> call_tree"
where
  "find_func_call fs i (Msg t mfs) tree =
     fold (\<lambda>p tree.
       (case snd p of
          VRep ms \<Rightarrow> find_in_val fs i (snd p) tree
        | _ \<Rightarrow> if fst p = ''func_call'' then note_call fs i (callee_num (snd p)) tree
               else find_in_val fs i (snd p) tree)) mfs tree"
| "find_in_val fs i (VMsg m) tree = find_func_call fs i m tree"
| "find_in_val fs i (VRep ms) tree = fold (\<lambda>m. find_func_call fs i m) ms tree"
| "find_in_val fs i v tree = tree"

section \<open>Removing cyclic calls\<close>

text \<open>
  The walk over the calls of a function. \<open>call_stack\<close> grows with every callee of the loop;
  the recursive call gets a copy. Removing a call that is not there any more raises, as
  \<^verbatim>\<open>list.remove\<close> does. The first argument bounds the depth of the Python stack.
\<close>

function find_cyclic_calls ::
  "nat \<Rightarrow> call_tree \<Rightarrow> nat \<Rightarrow> nat list \<Rightarrow> nat list \<Rightarrow> call_tree \<Rightarrow> call_tree res" where
  "find_cyclic_calls fuel tree v [] call_stack sanitized = Inr sanitized"
| "find_cyclic_calls fuel tree v (c # cs) call_stack sanitized =
     (if c \<in> set call_stack then
        (if c \<in> set (sanitized v) then
           find_cyclic_calls fuel tree v cs call_stack (sanitized(v := remove1 c (sanitized v)))
         else Inl (ValueError ''list.remove(x): x not in list''))
      else
        (case fuel of
           0 \<Rightarrow> Inl RecursionError
         | Suc fuel' \<Rightarrow>
             bindR (find_cyclic_calls fuel' tree c (tree c) (call_stack @ [c]) sanitized) (\<lambda>sanitized.
               find_cyclic_calls fuel tree v cs (call_stack @ [c]) sanitized)))"
  by pat_completeness auto

termination
  by (relation "measures [\<lambda>(fuel, tree, v, cs, st, sa). fuel, \<lambda>(fuel, tree, v, cs, st, sa). length cs]") auto

text \<open>After every root the sanitized tree becomes the call tree.\<close>

fun resolve_cyclic_dependencies :: "nat \<Rightarrow> nat list \<Rightarrow> call_tree \<Rightarrow> call_tree res" where
  "resolve_cyclic_dependencies fuel [] tree = Inr tree"
| "resolve_cyclic_dependencies fuel (r # rs) tree =
     bindR (find_cyclic_calls fuel tree r (tree r) [r] tree) (resolve_cyclic_dependencies fuel rs)"

section \<open>The order of conversion\<close>

function find_next_id :: "nat \<Rightarrow> call_tree \<Rightarrow> nat list \<Rightarrow> nat list \<Rightarrow> nat list res" where
  "find_next_id fuel tree [] order = Inr order"
| "find_next_id fuel tree (c # cs) order =
     (case fuel of
        0 \<Rightarrow> Inl RecursionError
      | Suc fuel' \<Rightarrow>
          bindR (find_next_id fuel' tree (tree c) order) (\<lambda>order.
            find_next_id fuel tree cs (if c \<in> set order then order else order @ [c])))"
  by pat_completeness auto

termination
  by (relation "measures [\<lambda>(fuel, tree, cs, order). fuel, \<lambda>(fuel, tree, cs, order). length cs]") auto

definition define_order :: "nat \<Rightarrow> nat list \<Rightarrow> call_tree \<Rightarrow> nat list res" where
  "define_order fuel ids tree = find_next_id fuel tree ids []"

text \<open>
  \<^verbatim>\<open>setup_order\<close>: the order and the call tree, which the converter keeps.
\<close>

definition calls_of :: "bool \<Rightarrow> func_obj list \<Rightarrow> nat \<times> msg \<Rightarrow> call_tree \<Rightarrow> call_tree res" where
  "calls_of d fs p tree =
     bindR (get_msg d (snd p) ''block'') (\<lambda>block.
     bindR (get_rep d block ''statements'') (\<lambda>statements.
       Inr (fold (\<lambda>s. find_func_call fs (fst p) s) statements tree)))"

definition collect_calls :: "bool \<Rightarrow> func_obj list \<Rightarrow> msg list \<Rightarrow> call_tree res" where
  "collect_calls d fs functions =
     fold (\<lambda>p r. bindR r (calls_of d fs p)) (zip [0..<length fs] functions) (Inr (\<lambda>_. []))"

definition setup_order :: "nat \<Rightarrow> bool \<Rightarrow> func_tracker \<Rightarrow> msg list \<Rightarrow> (nat list \<times> call_tree) res" where
  "setup_order fuel d ft functions =
     bindR (collect_calls d (ft_functions ft) functions) (\<lambda>tree.
     bindR (resolve_cyclic_dependencies fuel (map f_id (ft_functions ft)) tree) (\<lambda>tree.
     bindR (define_order fuel (map f_id (ft_functions ft)) tree) (\<lambda>order.
       Inr (order, tree))))"

section \<open>Removing calls leaves no cycle\<close>

definition edges :: "call_tree \<Rightarrow> (nat \<times> nat) set" where
  "edges tree = {(v, c). c \<in> set (tree v)}"

definition subtree :: "call_tree \<Rightarrow> call_tree \<Rightarrow> bool" where
  "subtree s t \<longleftrightarrow> (\<forall>v. set (s v) \<subseteq> set (t v))"

lemma subtree_refl [simp]: "subtree t t"
  by (simp add: subtree_def)

lemma subtree_trans: "subtree r s \<Longrightarrow> subtree s t \<Longrightarrow> subtree r t"
  unfolding subtree_def by blast

lemma subtree_edges: "subtree s t \<Longrightarrow> edges s \<subseteq> edges t"
  by (auto simp: subtree_def edges_def)

lemma subtree_remove: "subtree (s(v := remove1 c (s v))) s"
  using set_remove1_subset [of c "s v"] by (auto simp: subtree_def)

lemma find_cyclic_subtree:
  "find_cyclic_calls fuel tree v cs st s = Inr s' \<Longrightarrow> subtree s' s"
proof (induction fuel tree v cs st s arbitrary: s' rule: find_cyclic_calls.induct)
  case (2 fuel tree v c cs st s)
  show ?case
  proof (cases "c \<in> set st")
    case True
    then have "c \<in> set (s v)" "find_cyclic_calls fuel tree v cs st (s(v := remove1 c (s v))) = Inr s'"
      using "2.prems" by (auto split: if_splits)
    then show ?thesis using "2.IH"(1) True subtree_remove subtree_trans by blast
  next
    case False
    then obtain f s1 where "fuel = Suc f" "find_cyclic_calls f tree c (tree c) (st @ [c]) s = Inr s1"
      "find_cyclic_calls fuel tree v cs (st @ [c]) s1 = Inr s'"
      using "2.prems" by (auto simp: bindR_Inr_iff split: nat.splits)
    then show ?thesis using "2.IH"(2,3) False subtree_trans by blast
  qed
qed simp

lemma trancl_first:
  assumes "(a, b) \<in> r\<^sup>+"
  obtains c where "(a, c) \<in> r" and "c = b \<or> (c, b) \<in> r\<^sup>+"
  using assms by (rule converse_tranclE) auto

definition distinct_calls :: "call_tree \<Rightarrow> bool" where
  "distinct_calls s \<longleftrightarrow> (\<forall>v. distinct (s v))"

lemma distinct_remove: "distinct_calls s \<Longrightarrow> distinct_calls (s(v := remove1 c (s v)))"
  by (simp add: distinct_calls_def)

lemma find_cyclic_distinct:
  "find_cyclic_calls fuel tree v cs st s = Inr s' \<Longrightarrow> distinct_calls s \<Longrightarrow> distinct_calls s'"
proof (induction fuel tree v cs st s arbitrary: s' rule: find_cyclic_calls.induct)
  case (2 fuel tree v c cs st s)
  show ?case
  proof (cases "c \<in> set st")
    case True
    then have "c \<in> set (s v)" "find_cyclic_calls fuel tree v cs st (s(v := remove1 c (s v))) = Inr s'"
      using "2.prems" by (auto split: if_splits)
    then show ?thesis using "2.IH"(1) True distinct_remove "2.prems"(2) by blast
  next
    case False
    then obtain f s1 where "fuel = Suc f" "find_cyclic_calls f tree c (tree c) (st @ [c]) s = Inr s1"
      "find_cyclic_calls fuel tree v cs (st @ [c]) s1 = Inr s'"
      using "2.prems" by (auto simp: bindR_Inr_iff split: nat.splits)
    then show ?thesis using "2.IH"(2,3) False "2.prems"(2) by blast
  qed
qed simp

text \<open>
  After the walk over the calls of \<open>v\<close> with a stack, a surviving callee is not in the stack,
  and neither the stack nor the callee itself can be reached from it.
\<close>

definition off_stack :: "call_tree \<Rightarrow> nat list \<Rightarrow> nat \<Rightarrow> bool" where
  "off_stack s st c \<longleftrightarrow> c \<notin> set st \<and> (\<forall>x \<in> insert c (set st). (c, x) \<notin> (edges s)\<^sup>+)"

lemma off_stack_mono:
  assumes "off_stack s st c" and "subtree s' s" and "set st' \<subseteq> set st"
  shows "off_stack s' st' c"
  using assms trancl_mono [OF _ subtree_edges [OF assms(2)]] unfolding off_stack_def by blast

lemma off_stack_step:
  assumes "c \<notin> set st" and "subtree s tree"
    and "\<And>c'. c' \<in> set (tree c) \<Longrightarrow> c' \<in> set (s c) \<Longrightarrow> off_stack s (st @ [c]) c'"
  shows "off_stack s st c"
proof -
  have "(c, x) \<notin> (edges s)\<^sup>+" if x: "x \<in> insert c (set st)" for x
  proof
    assume "(c, x) \<in> (edges s)\<^sup>+"
    then obtain c' where c': "(c, c') \<in> edges s" "c' = x \<or> (c', x) \<in> (edges s)\<^sup>+"
      by (rule trancl_first)
    then have "c' \<in> set (s c)" "c' \<in> set (tree c)"
      using assms(2) by (auto simp: edges_def subtree_def)
    then have "off_stack s (st @ [c]) c'" using assms(3) by blast
    then show False using c'(2) x by (auto simp: off_stack_def)
  qed
  then show ?thesis using assms(1) by (simp add: off_stack_def)
qed

lemma find_cyclic_off_stack:
  assumes "find_cyclic_calls fuel tree v cs st s = Inr s'"
    and "distinct_calls s" and "subtree s tree"
    and "c \<in> set cs" and "c \<in> set (s' v)"
  shows "off_stack s' st c"
  using assms
proof (induction fuel tree v cs st s arbitrary: s' c rule: find_cyclic_calls.induct)
  case (2 fuel tree v b cs st s)
  show ?case
  proof (cases "b \<in> set st")
    case True
    let ?s = "s(v := remove1 b (s v))"
    have rest: "find_cyclic_calls fuel tree v cs st ?s = Inr s'" "b \<in> set (s v)"
      using True "2.prems"(1) by (auto split: if_splits)
    have "b \<notin> set (?s v)" using "2.prems"(2) by (simp add: distinct_calls_def)
    moreover have "set (s' v) \<subseteq> set (?s v)"
      using find_cyclic_subtree [OF rest(1)] unfolding subtree_def by blast
    ultimately have "b \<notin> set (s' v)" by blast
    then have "c \<in> set cs" using "2.prems"(4,5) by auto
    then show ?thesis
      using "2.IH"(1) [OF True rest(2,1)] "2.prems"(2,3,5) distinct_remove subtree_remove subtree_trans
      by blast
  next
    case False
    then obtain f s1 where f: "fuel = Suc f"
      and visit: "find_cyclic_calls f tree b (tree b) (st @ [b]) s = Inr s1"
      and rest: "find_cyclic_calls fuel tree v cs (st @ [b]) s1 = Inr s'"
      using "2.prems"(1) by (auto simp: bindR_Inr_iff split: nat.splits)
    have s1: "distinct_calls s1" "subtree s1 tree"
      using find_cyclic_distinct [OF visit "2.prems"(2)]
        subtree_trans [OF find_cyclic_subtree [OF visit] "2.prems"(3)] by simp_all
    show ?thesis
    proof (cases "c \<in> set cs")
      case True
      then have "off_stack s' (st @ [b]) c"
        using "2.IH"(3) [OF False f rest s1 True "2.prems"(5)] by blast
      then show ?thesis by (rule off_stack_mono) auto
    next
      case c: False
      then have "c = b" using "2.prems"(4) by simp
      have "off_stack s1 st b"
        by (rule off_stack_step [OF False s1(2)])
          (use "2.IH"(2) [OF False f visit "2.prems"(2,3)] in blast)
      then show ?thesis
        unfolding \<open>c = b\<close> by (rule off_stack_mono) (simp_all add: find_cyclic_subtree [OF rest])
    qed
  qed
qed simp

lemma find_cyclic_root:
  assumes "find_cyclic_calls fuel tree r (tree r) [r] tree = Inr s'" and "distinct_calls tree"
  shows "(r, r) \<notin> (edges s')\<^sup>+"
proof
  assume "(r, r) \<in> (edges s')\<^sup>+"
  then obtain c where c: "(r, c) \<in> edges s'" "c = r \<or> (c, r) \<in> (edges s')\<^sup>+"
    by (rule trancl_first)
  then have "c \<in> set (s' r)" "c \<in> set (tree r)"
    using find_cyclic_subtree [OF assms(1)] by (auto simp: edges_def subtree_def)
  then have "off_stack s' [r] c" using find_cyclic_off_stack [OF assms] by simp
  then show False using c(2) by (auto simp: off_stack_def)
qed

lemma resolve_subtree: "resolve_cyclic_dependencies fuel rs tree = Inr s \<Longrightarrow> subtree s tree"
proof (induction rs arbitrary: tree)
  case (Cons r rs)
  then show ?case using find_cyclic_subtree subtree_trans by (fastforce simp: bindR_Inr_iff)
qed simp

lemma resolve_acyclic_at:
  assumes "resolve_cyclic_dependencies fuel rs tree = Inr s" and "distinct_calls tree" and "r \<in> set rs"
  shows "(r, r) \<notin> (edges s)\<^sup>+"
  using assms
proof (induction rs arbitrary: tree)
  case (Cons r' rs)
  obtain t where t: "find_cyclic_calls fuel tree r' (tree r') [r'] tree = Inr t"
    "resolve_cyclic_dependencies fuel rs t = Inr s"
    using Cons.prems(1) by (auto simp: bindR_Inr_iff)
  show ?case
  proof (cases "r \<in> set rs")
    case True
    then show ?thesis using Cons.IH [OF t(2) find_cyclic_distinct [OF t(1) Cons.prems(2)]] by blast
  next
    case False
    then have "(r, r) \<notin> (edges t)\<^sup>+"
      using find_cyclic_root [OF _ Cons.prems(2)] t(1) Cons.prems(3) by auto
    then show ?thesis using trancl_mono [OF _ subtree_edges [OF resolve_subtree [OF t(2)]]] by blast
  qed
qed simp

text \<open>All functions are roots, so no cycle is left.\<close>

definition calls_within :: "nat \<Rightarrow> call_tree \<Rightarrow> bool" where
  "calls_within n tree \<longleftrightarrow> (\<forall>v. \<forall>c \<in> set (tree v). v < n \<and> c < n)"

lemma calls_within_subtree: "calls_within n t \<Longrightarrow> subtree s t \<Longrightarrow> calls_within n s"
  unfolding calls_within_def subtree_def by blast

lemma resolve_acyclic:
  assumes "resolve_cyclic_dependencies fuel [0..<n] tree = Inr s"
    and "distinct_calls tree" and "calls_within n tree"
  shows "acyclic (edges s)"
proof (rule acyclicI, rule allI)
  fix r
  show "(r, r) \<notin> (edges s)\<^sup>+"
  proof
    assume cyc: "(r, r) \<in> (edges s)\<^sup>+"
    obtain c where "(r, c) \<in> edges s" using cyc by (rule trancl_first)
    then have "r < n"
      using calls_within_subtree [OF assms(3) resolve_subtree [OF assms(1)]]
      by (auto simp: calls_within_def edges_def)
    then show False using resolve_acyclic_at [OF assms(1,2)] cyc by simp
  qed
qed

section \<open>Enough stack\<close>

text \<open>
  The stack holds distinct functions, so as many nested calls as there are functions are enough.
\<close>

lemma distinct_bound: "distinct xs \<Longrightarrow> set xs \<subseteq> {..<n} \<Longrightarrow> length xs \<le> n"
  using card_mono [of "{..<n}" "set xs"] by (simp add: distinct_card)

lemma find_cyclic_fuel:
  assumes "distinct st" and "set st \<subseteq> {..<n}" and "set cs \<subseteq> {..<n}" and "calls_within n tree"
    and "n \<le> fuel + length st"
  shows "find_cyclic_calls fuel tree v cs st s \<noteq> Inl RecursionError"
  using assms
proof (induction fuel tree v cs st s rule: find_cyclic_calls.induct)
  case (2 fuel tree v c cs st s)
  show ?case
  proof (cases "c \<in> set st")
    case True
    have "find_cyclic_calls fuel tree v cs st (s(v := remove1 c (s v))) \<noteq> Inl RecursionError"
      if "c \<in> set (s v)"
      by (rule "2.IH"(1) [OF True that]) (use "2.prems" in auto)
    then show ?thesis using True by (cases "c \<in> set (s v)") simp_all
  next
    case False
    then have st: "distinct (st @ [c])" "set (st @ [c]) \<subseteq> {..<n}" using "2.prems" by auto
    then have "length st < n" using distinct_bound [OF st] by simp
    then obtain f where f: "fuel = Suc f" using "2.prems"(5) by (cases fuel) auto
    have calls: "set (tree c) \<subseteq> {..<n}" using "2.prems"(4) by (auto simp: calls_within_def)
    have visit: "find_cyclic_calls f tree c (tree c) (st @ [c]) s \<noteq> Inl RecursionError"
      using "2.IH"(2) [OF False f st calls "2.prems"(4)] "2.prems"(5) f by simp
    have rest: "find_cyclic_calls fuel tree v cs (st @ [c]) s1 \<noteq> Inl RecursionError" for s1
      using "2.IH"(3) [OF False f st _ "2.prems"(4)] "2.prems"(3,5) by simp
    show ?thesis
      using False f visit rest
      by (cases "find_cyclic_calls f tree c (tree c) (st @ [c]) s") simp_all
  qed
qed simp

lemma resolve_fuel:
  assumes "set rs \<subseteq> {..<n}" and "calls_within n tree" and "n \<le> Suc fuel"
  shows "resolve_cyclic_dependencies fuel rs tree \<noteq> Inl RecursionError"
  using assms
proof (induction rs arbitrary: tree)
  case (Cons r rs)
  have visit: "find_cyclic_calls fuel tree r (tree r) [r] tree \<noteq> Inl RecursionError"
    by (rule find_cyclic_fuel [where n = n]) (use Cons.prems in \<open>auto simp: calls_within_def\<close>)
  have "resolve_cyclic_dependencies fuel rs t \<noteq> Inl RecursionError"
    if "find_cyclic_calls fuel tree r (tree r) [r] tree = Inr t" for t
    using Cons.IH calls_within_subtree [OF Cons.prems(2) find_cyclic_subtree [OF that]] Cons.prems(1,3)
    by simp
  then show ?case using visit by (cases "find_cyclic_calls fuel tree r (tree r) [r] tree") simp_all
qed simp

text \<open>
  The functions below one in an acyclic call tree: a callee has fewer of them than its caller.
\<close>

definition below :: "call_tree \<Rightarrow> nat \<Rightarrow> nat set" where
  "below tree v = {c. (v, c) \<in> (edges tree)\<^sup>+}"

lemma below_bound: "calls_within n tree \<Longrightarrow> below tree v \<subseteq> {..<n}"
proof
  fix c
  assume n: "calls_within n tree" and "c \<in> below tree v"
  then have "(v, c) \<in> (edges tree)\<^sup>+" by (simp add: below_def)
  then show "c \<in> {..<n}"
    by (rule tranclE) (use n in \<open>auto simp: calls_within_def edges_def\<close>)
qed

lemma below_callee:
  assumes "acyclic (edges tree)" and "calls_within n tree" and "c \<in> set (tree v)"
  shows "card (below tree c) < card (below tree v)"
proof (rule psubset_card_mono)
  show "finite (below tree v)" using below_bound [OF assms(2)] finite_subset by blast
  have edge: "(v, c) \<in> edges tree" using assms(3) by (simp add: edges_def)
  then have "below tree c \<subseteq> below tree v" by (auto simp: below_def)
  moreover have "c \<in> below tree v" using edge by (auto simp: below_def)
  moreover have "c \<notin> below tree c" using assms(1) by (auto simp: below_def acyclic_def)
  ultimately show "below tree c \<subset> below tree v" by blast
qed

lemma find_next_id_returns:
  assumes "acyclic (edges tree)" and "calls_within n tree"
    and "\<forall>c \<in> set cs. card (below tree c) < fuel"
  shows "\<exists>order'. find_next_id fuel tree cs order = Inr order'"
  using assms
proof (induction fuel tree cs order rule: find_next_id.induct)
  case (2 fuel tree c cs order)
  then obtain f where f: "fuel = Suc f" by (cases fuel) auto
  have "\<forall>c' \<in> set (tree c). card (below tree c') < f"
    using below_callee [OF "2.prems"(1,2)] "2.prems"(3) f by fastforce
  then obtain order1 where o1: "find_next_id f tree (tree c) order = Inr order1"
    using "2.IH"(1) [OF f "2.prems"(1,2)] by blast
  show ?case
    using "2.IH"(2) [OF f "2.prems"(1,2)] "2.prems"(3) o1 f by simp
qed simp

lemma card_below_less:
  assumes "acyclic (edges tree)" and "calls_within n tree" and "v < n"
  shows "card (below tree v) < n"
proof -
  have "v \<notin> below tree v" using assms(1) by (auto simp: below_def acyclic_def)
  then have "below tree v \<subset> {..<n}" using below_bound [OF assms(2)] assms(3) by blast
  then show ?thesis using psubset_card_mono [of "{..<n}"] by simp
qed

section \<open>Callees come first\<close>

definition callees_first :: "call_tree \<Rightarrow> nat list \<Rightarrow> bool" where
  "callees_first tree order \<longleftrightarrow>
     distinct order \<and> (\<forall>i < length order. set (tree (order ! i)) \<subseteq> set (take i order))"

lemma callees_first_append:
  "callees_first tree order \<Longrightarrow> c \<notin> set order \<Longrightarrow> set (tree c) \<subseteq> set order \<Longrightarrow>
     callees_first tree (order @ [c])"
  by (auto simp: callees_first_def nth_append less_Suc_eq)

lemma find_next_id_order:
  assumes "find_next_id fuel tree cs order = Inr order'" and "callees_first tree order"
  shows "callees_first tree order' \<and> set order \<subseteq> set order' \<and> set cs \<subseteq> set order'"
  using assms
proof (induction fuel tree cs order arbitrary: order' rule: find_next_id.induct)
  case (2 fuel tree c cs order)
  then obtain f o1 where f: "fuel = Suc f" and o1: "find_next_id f tree (tree c) order = Inr o1"
    and rest: "find_next_id fuel tree cs (if c \<in> set o1 then o1 else o1 @ [c]) = Inr order'"
    by (auto simp: bindR_Inr_iff split: nat.splits)
  note visit = "2.IH"(1) [OF f o1 "2.prems"(2)]
  then have "callees_first tree (if c \<in> set o1 then o1 else o1 @ [c])"
    using callees_first_append by simp
  note here = "2.IH"(2) [OF f rest this]
  have "set o1 \<subseteq> set (if c \<in> set o1 then o1 else o1 @ [c])"
    and "c \<in> set (if c \<in> set o1 then o1 else o1 @ [c])" by auto
  then show ?case using here visit by auto
qed simp

text \<open>Nothing but the roots and what they call enters the order.\<close>

lemma find_next_id_within:
  assumes "find_next_id fuel tree cs order = Inr order'"
    and "calls_within n tree" and "set cs \<subseteq> {..<n}" and "set order \<subseteq> {..<n}"
  shows "set order' \<subseteq> {..<n}"
  using assms
proof (induction fuel tree cs order arbitrary: order' rule: find_next_id.induct)
  case (2 fuel tree c cs order)
  then obtain f o1 where f: "fuel = Suc f" and o1: "find_next_id f tree (tree c) order = Inr o1"
    and rest: "find_next_id fuel tree cs (if c \<in> set o1 then o1 else o1 @ [c]) = Inr order'"
    by (auto simp: bindR_Inr_iff split: nat.splits)
  have "set (tree c) \<subseteq> {..<n}" using "2.prems"(2) by (auto simp: calls_within_def)
  then have "set o1 \<subseteq> {..<n}" using "2.IH"(1) [OF f o1 "2.prems"(2)] "2.prems"(4) by blast
  then show ?case using "2.IH"(2) [OF f rest "2.prems"(2)] "2.prems"(3) by simp
qed simp

lemma define_order_spec:
  assumes "define_order fuel [0..<n] tree = Inr order" and "calls_within n tree"
  shows "callees_first tree order" and "set order = {..<n}" and "length order = n"
proof -
  have run: "find_next_id fuel tree [0..<n] [] = Inr order" using assms(1) by (simp add: define_order_def)
  have "callees_first tree []" by (simp add: callees_first_def)
  note spec = find_next_id_order [OF run this]
  then show first: "callees_first tree order" by simp
  show all: "set order = {..<n}"
    using spec find_next_id_within [OF run assms(2)] by (auto simp: subset_iff)
  show "length order = n"
    using first all distinct_card [of order] by (simp add: callees_first_def)
qed

section \<open>The collected calls\<close>

lemma fold_invariant_set:
  "(\<And>x t. x \<in> set xs \<Longrightarrow> P t \<Longrightarrow> P (f x t)) \<Longrightarrow> P t \<Longrightarrow> P (fold f xs t)"
  by (induction xs arbitrary: t) auto

text \<open>Callers and callees are functions of the contract, a callee is noted once and is internal.\<close>

definition good_calls :: "func_obj list \<Rightarrow> call_tree \<Rightarrow> bool" where
  "good_calls fs tree \<longleftrightarrow>
     distinct_calls tree \<and> calls_within (length fs) tree \<and>
     (\<forall>v. \<forall>c \<in> set (tree v). f_visibility (fs ! c) \<noteq> EXTERNAL)"

lemma note_call_good:
  assumes "good_calls fs tree" and "i < length fs"
  shows "good_calls fs (note_call fs i k tree)"
proof -
  have "nat (k mod int (length fs)) < length fs"
  proof -
    have "0 < int (length fs)" using assms(2) by (cases fs) auto
    then show ?thesis
      using pos_mod_bound [of "int (length fs)" k] pos_mod_sign [of "int (length fs)" k] by linarith
  qed
  then show ?thesis
    using assms unfolding good_calls_def note_call_def Let_def distinct_calls_def calls_within_def
    by (auto split: if_splits)
qed

lemma find_calls_good:
  "i < length fs \<Longrightarrow> good_calls fs tree \<Longrightarrow> good_calls fs (find_func_call fs i m tree)"
  "i < length fs \<Longrightarrow> good_calls fs tree \<Longrightarrow> good_calls fs (find_in_val fs i v tree)"
proof (induction fs i m tree and fs i v tree rule: find_func_call_find_in_val.induct)
  case (1 fs i t mfs tree)
  show ?case
    unfolding find_func_call.simps
  proof (rule fold_invariant_set [where P = "good_calls fs"], goal_cases)
    case (1 p u)
    then show ?case
      using "1.IH" "1.prems" note_call_good by (cases "snd p") auto
  qed (use 1 in simp)
next
  case (3 fs i ms tree)
  show ?case
    unfolding find_in_val.simps by (rule fold_invariant_set [where P = "good_calls fs"]) (use 3 in auto)
qed auto

lemma fold_res_invariant:
  assumes "\<And>x t t'. x \<in> set xs \<Longrightarrow> P t \<Longrightarrow> g x t = Inr t' \<Longrightarrow> P t'"
    and "fold (\<lambda>x r. bindR r (g x)) xs (Inr t) = Inr t'" and "P t"
  shows "P t'"
  using assms
proof (induction xs arbitrary: t)
  case (Cons x xs)
  have fail: "fold (\<lambda>x r. bindR r (g x)) ys (Inl e) = Inl e" for ys e by (induction ys) auto
  obtain u where u: "g x t = Inr u" using Cons.prems(2) fail by (cases "g x t") auto
  have "P u" using Cons.prems(1) [of x t u] Cons.prems(3) u by simp
  show ?case
    by (rule Cons.IH [of u]) (use Cons.prems u \<open>P u\<close> in auto)
qed simp

lemma fold_res_returns:
  assumes "\<And>x t. x \<in> set xs \<Longrightarrow> \<exists>t'. g x t = Inr t'"
  shows "\<exists>t'. fold (\<lambda>x r. bindR r (g x)) xs (Inr t) = Inr t'"
  using assms
proof (induction xs arbitrary: t)
  case (Cons x xs)
  obtain u where "g x t = Inr u" using Cons.prems [of x t] by auto
  then show ?case using Cons.IH [of u] Cons.prems by simp
qed simp

lemma good_calls_empty: "good_calls fs (\<lambda>_. [])"
  by (simp add: good_calls_def distinct_calls_def calls_within_def)

lemma collect_calls_good:
  assumes "collect_calls d fs functions = Inr tree"
  shows "good_calls fs tree"
proof (rule fold_res_invariant [where P = "good_calls fs" and g = "calls_of d fs"])
  show "fold (\<lambda>p r. bindR r (calls_of d fs p)) (zip [0..<length fs] functions) (Inr (\<lambda>_. [])) = Inr tree"
    using assms by (simp add: collect_calls_def)
  fix p t t'
  assume "p \<in> set (zip [0..<length fs] functions)" and t: "good_calls fs t"
    and "calls_of d fs p t = Inr t'"
  then obtain ss where "t' = fold (\<lambda>s. find_func_call fs (fst p) s) ss t"
    by (auto simp: calls_of_def bindR_Inr_iff)
  moreover have "fst p < length fs"
    using \<open>p \<in> set (zip [0..<length fs] functions)\<close> by (auto simp: in_set_zip)
  ultimately show "good_calls fs t'"
    using t find_calls_good(1) fold_invariant_set [of ss "good_calls fs"] by simp
qed (rule good_calls_empty)

text \<open>Collecting does not fail on functions that conform to the schema.\<close>

lemma func_kinds:
  "field_kind d ''Func'' ''block'' = Some (KMsg ''Block'')"
  "field_kind d ''Block'' ''statements'' = Some (KRep ''Statement'')"
  by (simp_all add: schema_eval proto_message_def)

lemma collect_calls_returns:
  assumes "\<forall>m \<in> set functions. conforms d m \<and> mtype m = ''Func''"
  shows "\<exists>tree. collect_calls d fs functions = Inr tree"
proof -
  have "\<exists>t'. calls_of d fs p t = Inr t'" if p: "p \<in> set (zip [0..<length fs] functions)" for p t
  proof -
    have "snd p \<in> set functions" using p by (auto simp: in_set_zip) (metis nth_mem)
    then have m: "conforms d (snd p)" "mtype (snd p) = ''Func''" using assms by auto
    obtain b where b: "get_msg d (snd p) ''block'' = Inr b" "mtype b = ''Block''" "conforms d b"
      using get_msg_conforms [OF m(1), of "''block''" "''Block''"] m(2) func_kinds(1) by auto
    obtain ss where "get_rep d b ''statements'' = Inr ss"
      using get_rep_conforms [OF b(3), of "''statements''" "''Statement''"] b(2) func_kinds(2) [of d]
      by metis
    then show ?thesis using b(1) by (simp add: calls_of_def)
  qed
  then show ?thesis
    unfolding collect_calls_def by (intro fold_res_returns) blast
qed

lemma find_cyclic_errors:
  "find_cyclic_calls fuel tree v cs st s = Inl e \<Longrightarrow>
     e = RecursionError \<or> e = ValueError ''list.remove(x): x not in list''"
proof (induction fuel tree v cs st s rule: find_cyclic_calls.induct)
  case (2 fuel tree v c cs st s)
  show ?case
  proof (cases "c \<in> set st")
    case True
    then show ?thesis using "2.IH"(1) "2.prems" by (auto split: if_splits simp del: fun_upd_apply)
  next
    case False
    then show ?thesis
      using "2.IH"(2,3) "2.prems"
      by (cases fuel; cases "find_cyclic_calls (fuel - 1) tree c (tree c) (st @ [c]) s") auto
  qed
qed simp

lemma resolve_errors:
  "resolve_cyclic_dependencies fuel rs tree = Inl e \<Longrightarrow>
     e = RecursionError \<or> e = ValueError ''list.remove(x): x not in list''"
proof (induction rs arbitrary: tree)
  case (Cons r rs)
  then show ?case
    using find_cyclic_errors by (cases "find_cyclic_calls fuel tree r (tree r) [r] tree") auto
qed simp

section \<open>The order of conversion is right\<close>

text \<open>The parts of a successful run.\<close>

lemma setup_orderE:
  assumes "setup_order fuel d ft functions = Inr (order, tree)" and "ft_wf ft"
  obtains tree0 where "good_calls (ft_functions ft) tree0"
    and "resolve_cyclic_dependencies fuel [0..<length (ft_functions ft)] tree0 = Inr tree"
    and "define_order fuel [0..<length (ft_functions ft)] tree = Inr order"
proof -
  have "map f_id (ft_functions ft) = [0..<length (ft_functions ft)]"
    using assms(2) by (simp only: ft_wf_def)
  then obtain tree0 where "collect_calls d (ft_functions ft) functions = Inr tree0"
    and "resolve_cyclic_dependencies fuel [0..<length (ft_functions ft)] tree0 = Inr tree"
    and "define_order fuel [0..<length (ft_functions ft)] tree = Inr order"
    using assms(1) by (auto simp: setup_order_def bindR_Inr_iff)
  then show thesis using that collect_calls_good by blast
qed

lemma good_calls_subtree:
  "good_calls fs t \<Longrightarrow> subtree s t \<Longrightarrow> calls_within (length fs) s \<and> (\<forall>v. \<forall>c \<in> set (s v). f_visibility (fs ! c) \<noteq> EXTERNAL)"
  unfolding good_calls_def calls_within_def subtree_def by blast

text \<open>
  Claim C15. When the order of conversion is computed, the call tree the converter keeps has no cycle,
  only functions of the contract in it and no external callee, and the order lists every function
  exactly once, callees before their callers.
\<close>

theorem setup_order_correct:
  assumes "ft_wf ft" and "setup_order fuel d ft functions = Inr (order, tree)"
  shows "acyclic (edges tree) \<and> callees_first tree order \<and>
    set order = {..<length (ft_functions ft)} \<and> length order = length (ft_functions ft) \<and>
    (\<forall>v. \<forall>c \<in> set (tree v). c < length (ft_functions ft) \<and> f_visibility (ft_functions ft ! c) \<noteq> EXTERNAL)"
proof -
  obtain tree0 where good: "good_calls (ft_functions ft) tree0"
    and res: "resolve_cyclic_dependencies fuel [0..<length (ft_functions ft)] tree0 = Inr tree"
    and ord: "define_order fuel [0..<length (ft_functions ft)] tree = Inr order"
    using setup_orderE [OF assms(2,1)] by metis
  note sub = good_calls_subtree [OF good resolve_subtree [OF res]]
  have "acyclic (edges tree)"
    using resolve_acyclic [OF res] good by (simp add: good_calls_def)
  then show ?thesis
    using define_order_spec [OF ord] sub by (simp add: calls_within_def)
qed

text \<open>A contract with two internal functions, the first of which calls the second.\<close>

definition two_functions :: func_tracker where
  "two_functions =
     register_function ''func_1'' 0 1 [] [] (register_function ''func_0'' 0 1 [] [] (new_func_tracker 5))"

definition calling :: "int \<Rightarrow> msg" where
  "calling k = Msg ''Func'' [(''vis'', VInt 1), (''block'', VMsg (Msg ''Block'' [(''statements'',
     VRep [Msg ''Statement'' [(''func_call'', VMsg (Msg ''FuncCall'' [(''func_num'', VInt k)]))]])]))]"

lemma two_functions_wf: "ft_wf two_functions"
  by (simp add: two_functions_def ft_wf_def register_function_def new_function_def
      new_func_tracker_def Let_def py_str_def nat_str.simps digit_char_def upt_rec)

lemma two_functions_order:
  "map_sum id fst (setup_order 2 True two_functions [calling 1, Msg ''Func'' []]) = Inr [1, 0]"
  by code_simp

lemma two_functions_run:
  obtains tree where "setup_order 2 True two_functions [calling 1, Msg ''Func'' []] = Inr ([1, 0], tree)"
  using two_functions_order
  by (cases "setup_order 2 True two_functions [calling 1, Msg ''Func'' []]") auto

theorem setup_order_correct_witness:
  "\<exists>tree. setup_order 2 True two_functions [calling 1, Msg ''Func'' []] = Inr ([1, 0], tree) \<and>
     acyclic (edges tree) \<and> callees_first tree [1, 0]"
proof -
  obtain tree where run: "setup_order 2 True two_functions [calling 1, Msg ''Func'' []] = Inr ([1, 0], tree)"
    by (rule two_functions_run)
  show ?thesis using run setup_order_correct [OF two_functions_wf run] by blast
qed

text \<open>The walks end, and the order is one of all functions.\<close>

lemma setup_order_returns:
  assumes "ft_wf ft" and "\<forall>m \<in> set functions. conforms d m \<and> mtype m = ''Func''"
    and "length (ft_functions ft) \<le> fuel"
  shows "(\<exists>order tree. setup_order fuel d ft functions = Inr (order, tree)) \<or>
     setup_order fuel d ft functions = Inl (ValueError ''list.remove(x): x not in list'')"
proof -
  let ?n = "length (ft_functions ft)"
  have ids: "map f_id (ft_functions ft) = [0..<?n]" using assms(1) by (simp only: ft_wf_def)
  obtain tree0 where t0: "collect_calls d (ft_functions ft) functions = Inr tree0"
    using collect_calls_returns [OF assms(2)] by blast
  then have good: "good_calls (ft_functions ft) tree0" by (rule collect_calls_good)
  then have within: "calls_within ?n tree0" by (simp add: good_calls_def)
  show ?thesis
  proof (cases "resolve_cyclic_dependencies fuel [0..<?n] tree0")
    case (Inl e)
    moreover have "resolve_cyclic_dependencies fuel [0..<?n] tree0 \<noteq> Inl RecursionError"
      by (rule resolve_fuel [OF _ within]) (use assms(3) in auto)
    ultimately show ?thesis
      using resolve_errors [OF Inl] t0 ids by (auto simp: setup_order_def)
  next
    case (Inr tree)
    have acyc: "acyclic (edges tree)"
      using resolve_acyclic [OF Inr] good by (simp add: good_calls_def)
    have within': "calls_within ?n tree" by (rule calls_within_subtree [OF within resolve_subtree [OF Inr]])
    have "\<forall>c \<in> set [0..<?n]. card (below tree c) < fuel"
      using card_below_less [OF acyc within'] assms(3) by fastforce
    then obtain order where "define_order fuel [0..<?n] tree = Inr order"
      unfolding define_order_def using find_next_id_returns [OF acyc within'] by blast
    then show ?thesis using t0 Inr ids by (simp add: setup_order_def)
  qed
qed

lemma setup_order_permutes:
  assumes "ft_wf ft" and "setup_order fuel d ft functions = Inr (order, tree)"
  shows "set order = {..<length (ft_functions ft)} \<and> length order = length (ft_functions ft)"
proof -
  obtain tree0 where good: "good_calls (ft_functions ft) tree0"
    and res: "resolve_cyclic_dependencies fuel [0..<length (ft_functions ft)] tree0 = Inr tree"
    and ord: "define_order fuel [0..<length (ft_functions ft)] tree = Inr order"
    using setup_orderE [OF assms(2,1)] by metis
  then show ?thesis
    using define_order_spec [OF ord] good_calls_subtree [OF good resolve_subtree [OF res]]
    by (simp add: calls_within_def)
qed

text \<open>
  Claim C16. With a Python stack as deep as there are functions, the order of conversion of functions that
  conform to the protocol file is always computed, except that removing a call twice raises
  ValueError; the walks themselves always end.
\<close>

theorem setup_order_total:
  assumes "ft_wf ft" and "\<forall>m \<in> set functions. conforms d m \<and> mtype m = ''Func''"
    and "length (ft_functions ft) \<le> fuel"
  shows "(\<exists>order tree. setup_order fuel d ft functions = Inr (order, tree)) \<or>
     setup_order fuel d ft functions = Inl (ValueError ''list.remove(x): x not in list'')"
  by (rule setup_order_returns [OF assms])

lemma calling_conforms: "conforms True (calling 1)" "mtype (calling 1) = ''Func''"
  by (code_simp, simp add: calling_def)

theorem setup_order_total_witness:
  "(\<exists>order tree. setup_order 2 True two_functions [calling 1, calling 1] = Inr (order, tree)) \<or>
     setup_order 2 True two_functions [calling 1, calling 1] = Inl (ValueError ''list.remove(x): x not in list'')"
  by (rule setup_order_total [OF two_functions_wf])
    (simp_all add: calling_conforms, simp add: two_functions_def register_function_def new_func_tracker_def)

text \<open>
  The ValueError happens: when two callees of a function call the same function and that one
  calls back, its call is removed while the first callee is walked and looked for again while the
  second one is.
\<close>

definition shared_callee :: call_tree where
  "shared_callee = (\<lambda>_. [])(0 := [1, 2], 1 := [3], 2 := [3], 3 := [0])"

theorem resolve_raises_on_shared_callee:
  "resolve_cyclic_dependencies 4 [0..<4] shared_callee = Inl (ValueError ''list.remove(x): x not in list'')"
proof -
  have "map_sum id (\<lambda>tree. map tree [0..<4]) (resolve_cyclic_dependencies 4 [0..<4] shared_callee) =
      Inl (ValueError ''list.remove(x): x not in list'')"
    by code_simp
  then show ?thesis by (cases "resolve_cyclic_dependencies 4 [0..<4] shared_callee") auto
qed

text \<open>
  Calls that are on no cycle are dropped as well: a function called by its caller before its
  sibling is in the stack when the sibling is walked.
\<close>

definition sibling_call :: call_tree where
  "sibling_call = (\<lambda>_. [])(0 := [1, 2], 2 := [1])"

theorem resolve_drops_sibling_call:
  "acyclic (edges sibling_call) \<and>
   map_sum id (\<lambda>tree. map tree [0..<3]) (resolve_cyclic_dependencies 3 [0..<3] sibling_call) =
     Inr [[1, 2], [], []]"
proof -
  have "acyclic (edges sibling_call)"
    by (rule acyclicI_order [where f = "\<lambda>v. if v = 0 then 3 else v"])
      (auto simp: edges_def sibling_call_def split: if_splits)
  moreover have "map_sum id (\<lambda>tree. map tree [0..<3]) (resolve_cyclic_dependencies 3 [0..<3] sibling_call) =
     Inr [[1, 2], [], []]"
    by code_simp
  ultimately show ?thesis by simp
qed

end
