(* ===== verification/Vy_Values.thy ===== *)
theory Vy_Values imports Type_Extract begin

text \<open>
  The value generators (\<^verbatim>\<open>types_d/value_generator.py\<close>), the
  \<^verbatim>\<open>generate\<close> methods of the types that use them and the input generator
  (\<^verbatim>\<open>generators/input_generation.py\<close>). A generator is a function of the random
  draws, which come as a list of naturals; a draw from the empty list is 0.
\<close>

section \<open>Random draws\<close>

type_synonym draws = "nat list"

definition draw :: "draws \<Rightarrow> nat \<times> draws" where
  "draw r = (case r of [] \<Rightarrow> (0, []) | k # r' \<Rightarrow> (k, r'))"

fun draw_many :: "nat \<Rightarrow> draws \<Rightarrow> nat list \<times> draws" where
  "draw_many 0 r = ([], r)"
| "draw_many (Suc n) r = (let (k, r) = draw r; (ks, r) = draw_many n r in (k # ks, r))"

definition rand_int :: "int \<Rightarrow> int \<Rightarrow> draws \<Rightarrow> int \<times> draws" where
  "rand_int low up r = (let (k, r) = draw r in (low + int k mod (up - low + 1), r))"

definition rand_bytes :: "nat \<Rightarrow> draws \<Rightarrow> 8 word list \<times> draws" where
  "rand_bytes m r = (let (ks, r) = draw_many m r in (map of_nat ks, r))"

section \<open>Values and their text\<close>

datatype gen_val =
    GBytes "8 word list"
  | GStr string
  | GInt int
  | GBool bool
  | GFloat pyfloat
  | GList "gen_val list"

text \<open>\<^verbatim>\<open>repr\<close> of a bytes object.\<close>

definition byte_repr :: "nat \<Rightarrow> nat \<Rightarrow> string" where
  "byte_repr q b =
     (if b = q \<or> b = 92 then [CHR 0x5C, char_of b]
      else if b = 9 then [CHR 0x5C, CHR ''t''] else if b = 10 then [CHR 0x5C, CHR ''n'']
      else if b = 13 then [CHR 0x5C, CHR ''r'']
      else if b < 32 \<or> 127 \<le> b then [CHR 0x5C, CHR ''x'', hex_char (b div 16), hex_char (b mod 16)]
      else [char_of b])"

definition bytes_repr :: "8 word list \<Rightarrow> string" where
  "bytes_repr bs =
     (let ns = map unat bs;
          q = (if 39 \<in> set ns \<and> 34 \<notin> set ns then 34 else 39)
      in ''b'' @ [char_of q] @ concat (map (byte_repr q) ns) @ [char_of q])"

text \<open>
  The text of a generated value in an f-string. A string inside a list is quoted; generated strings
  have letters, digits and hexadecimal literals only, so nothing in them is escaped.
\<close>

fun val_repr :: "pyenv \<Rightarrow> gen_val \<Rightarrow> string" where
  "val_repr E (GBytes bs) = bytes_repr bs"
| "val_repr E (GStr s) = [CHR 39] @ s @ [CHR 39]"
| "val_repr E (GInt i) = py_str i"
| "val_repr E (GBool b) = bool_literal b"
| "val_repr E (GFloat f) = f_repr E f"
| "val_repr E (GList vs) = ''['' @ py_join '', '' (map (val_repr E) vs) @ '']''"

definition val_format :: "pyenv \<Rightarrow> gen_val \<Rightarrow> string" where
  "val_format E v = (case v of GStr s \<Rightarrow> s | _ \<Rightarrow> val_repr E v)"

section \<open>Generators of the classes\<close>

definition letters_digits :: string where
  "letters_digits = ''abcdefghijklmnopqrstuvwxyzABCDEFGHIJKLMNOPQRSTUVWXYZ0123456789''"

definition bytes_random :: "nat \<Rightarrow> draws \<Rightarrow> gen_val \<times> draws" where
  "bytes_random m r = (let (bs, r) = rand_bytes m r in (GBytes bs, r))"

definition bytesM_random :: "nat \<Rightarrow> draws \<Rightarrow> gen_val \<times> draws" where
  "bytesM_random m r = (let (bs, r) = rand_bytes m r in (GStr (''0x'' @ bytes_hex bs), r))"

definition int_random :: "nat \<Rightarrow> bool \<Rightarrow> draws \<Rightarrow> gen_val \<times> draws" where
  "int_random n sgd r =
     (let (low, up) = get_value_boundaries n sgd; (v, r) = rand_int low up r in (GInt v, r))"

definition bool_random :: "draws \<Rightarrow> gen_val \<times> draws" where
  "bool_random r = (let (k, r) = draw r in (GBool (k mod 2 = 1), r))"

definition string_random :: "nat \<Rightarrow> draws \<Rightarrow> gen_val \<times> draws" where
  "string_random m r =
     (let (l, r) = rand_int 0 (2 ^ 8 - 1) r;
          l = (if int m < l then int m else l);
          (ks, r) = draw_many (nat l) r
      in (GStr (map (\<lambda>k. letters_digits ! (k mod length letters_digits)) ks), r))"

definition address_random :: "pyenv \<Rightarrow> draws \<Rightarrow> gen_val \<times> draws" where
  "address_random E r =
     (let (v, r) = rand_int 0 (2 ^ 160 - 1) r
      in (GStr (checksum_encode E (fill_address (py_hex (nat v)))), r))"

definition decimal_random :: "pyenv \<Rightarrow> draws \<Rightarrow> (gen_val \<times> draws) res" where
  "decimal_random E r =
     (let (v, r) = rand_int 0 (2 ^ 168 - 1) r in
      case (f_int_div E v (10 ^ 10), f_int_div E (2 ^ 167) (10 ^ 10)) of
        (Some a, Some b) \<Rightarrow>
          (case f_bin E ''-'' a b of Some (PyFloat f) \<Rightarrow> Inr (GFloat f, r) | _ \<Rightarrow> Inl OverflowError)
      | _ \<Rightarrow> Inl OverflowError)"

text \<open>The \<^verbatim>\<open>generate\<close> method of a type; \<^verbatim>\<open>DynArray\<close> inherits that of the list.\<close>

fun gen_list :: "(draws \<Rightarrow> (gen_val \<times> draws) res) \<Rightarrow> nat \<Rightarrow> draws \<Rightarrow> (gen_val list \<times> draws) res" where
  "gen_list g 0 r = Inr ([], r)"
| "gen_list g (Suc k) r =
     bindR (g r) (\<lambda>(v, r). bindR (gen_list g k r) (\<lambda>(vs, r). Inr (v # vs, r)))"

fun generate :: "pyenv \<Rightarrow> vy_type \<Rightarrow> draws \<Rightarrow> (gen_val \<times> draws) res" where
  "generate E (Bytes m) r = Inr (bytes_random m r)"
| "generate E (BytesM m) r = Inr (bytesM_random m r)"
| "generate E (IntT n sgd) r = Inr (int_random n sgd r)"
| "generate E Bool r = Inr (bool_random r)"
| "generate E Decimal r = decimal_random E r"
| "generate E (String m) r = Inr (string_random m r)"
| "generate E Address r = Inr (address_random E r)"
| "generate E (FixedList k b) r =
     bindR (gen_list (generate E b) k r) (\<lambda>(vs, r). Inr (GList vs, r))"
| "generate E (DynArray k b cur) r =
     bindR (gen_list (generate E b) k r) (\<lambda>(vs, r). Inr (GList vs, r))"
| "generate E NoneType r = Inl (AttributeError ''generate'')"

section \<open>The input generator\<close>

datatype strategy = DEFAULT | ZEROS

text \<open>
  \<^verbatim>\<open>decimal.Decimal(f)\<close> of a float is exact, so the float stands for the decimal.
\<close>

definition default_gen :: "pyenv \<Rightarrow> vy_type \<Rightarrow> draws \<Rightarrow> (gen_val \<times> draws) res" where
  "default_gen E t r =
     (case t of
        IntT n sgd \<Rightarrow> Inr (int_random n sgd r)
      | Bytes m \<Rightarrow> Inr (bytes_random m r)
      | BytesM m \<Rightarrow> Inr (bytesM_random m r)
      | Bool \<Rightarrow> Inr (bool_random r)
      | Decimal \<Rightarrow> decimal_random E r
      | String m \<Rightarrow> Inr (string_random m r)
      | Address \<Rightarrow> Inr (address_random E r)
      | _ \<Rightarrow> Inl (KeyError (vyper_type t)))"

definition zero_float :: pyfloat where "zero_float = 0"

definition zero_gen :: "pyenv \<Rightarrow> vy_type \<Rightarrow> draws \<Rightarrow> (gen_val \<times> draws) res" where
  "zero_gen E t r =
     (case t of
        IntT n sgd \<Rightarrow> Inr (GInt 0, r)
      | Bytes m \<Rightarrow> Inr (GBytes [], r)
      | BytesM m \<Rightarrow> Inr (GStr (''0x'' @ concat (replicate m ''00'')), r)
      | Bool \<Rightarrow> Inr (GBool False, r)
      | Decimal \<Rightarrow> Inr (GFloat zero_float, r)
      | String m \<Rightarrow> Inr (GStr '''', r)
      | Address \<Rightarrow> Inr (GStr ''0x0000000000000000000000000000000000000000'', r)
      | _ \<Rightarrow> Inl (KeyError (vyper_type t)))"

definition strategy_gens :: "strategy \<Rightarrow> pyenv \<Rightarrow> vy_type \<Rightarrow> draws \<Rightarrow> (gen_val \<times> draws) res" where
  "strategy_gens st = (case st of ZEROS \<Rightarrow> zero_gen | DEFAULT \<Rightarrow> default_gen)"

text \<open>\<^verbatim>\<open>bytes.fromhex\<close> of the text after the prefix.\<close>

definition hex_digit :: "char \<Rightarrow> nat option" where
  "hex_digit c = find (\<lambda>d. hex_char d = c) [0..<16]"

fun bytes_fromhex :: "string \<Rightarrow> 8 word list res" where
  "bytes_fromhex [] = Inr []"
| "bytes_fromhex [c] = Inl (ValueError ''non-hexadecimal number found in fromhex()'')"
| "bytes_fromhex (c # c' # cs) =
     (case (hex_digit c, hex_digit c') of
        (Some a, Some b) \<Rightarrow> bindR (bytes_fromhex cs) (\<lambda>bs. Inr (of_nat (16 * a + b) # bs))
      | _ \<Rightarrow> Inl (ValueError ''non-hexadecimal number found in fromhex()''))"

definition convert_gen_output :: "vy_type \<Rightarrow> gen_val \<Rightarrow> gen_val res" where
  "convert_gen_output t v =
     (case t of
        BytesM m \<Rightarrow>
          (case v of
             GStr s \<Rightarrow> bindR (bytes_fromhex (drop 2 s)) (\<lambda>bs. Inr (GBytes bs))
           | _ \<Rightarrow> Inl (TypeError ''fromhex() argument must be str''))
      | _ \<Rightarrow> Inr v)"

definition scalar_input :: "strategy \<Rightarrow> pyenv \<Rightarrow> vy_type \<Rightarrow> draws \<Rightarrow> (gen_val \<times> draws) res" where
  "scalar_input st E t r =
     bindR (strategy_gens st E t r) (\<lambda>(v, r). bindR (convert_gen_output t v) (\<lambda>v. Inr (v, r)))"

text \<open>
  A list is generated by a recursive call on its element type repeated. The recursion is on the type;
  what happens at a scalar is a parameter.
\<close>

fun list_value :: "(vy_type \<Rightarrow> draws \<Rightarrow> (gen_val \<times> draws) res) \<Rightarrow> vy_type \<Rightarrow> draws \<Rightarrow> (gen_val \<times> draws) res" where
  "list_value g (FixedList k b) r = bindR (gen_list (list_value g b) k r) (\<lambda>(vs, r). Inr (GList vs, r))"
| "list_value g (DynArray k b cur) r = bindR (gen_list (list_value g b) k r) (\<lambda>(vs, r). Inr (GList vs, r))"
| "list_value g t r = g t r"

definition input_value :: "strategy \<Rightarrow> pyenv \<Rightarrow> vy_type \<Rightarrow> draws \<Rightarrow> (gen_val \<times> draws) res" where
  "input_value st E = list_value (scalar_input st E)"

fun generate_inputs :: "strategy \<Rightarrow> pyenv \<Rightarrow> vy_type list \<Rightarrow> draws \<Rightarrow> (gen_val list \<times> draws) res" where
  "generate_inputs st E [] r = Inr ([], r)"
| "generate_inputs st E (t # ts) r =
     bindR (input_value st E t r) (\<lambda>(v, r).
     bindR (generate_inputs st E ts r) (\<lambda>(vs, r). Inr (v # vs, r)))"

section \<open>Generated inputs inhabit their types\<close>

text \<open>
  An address is the text of forty hexadecimal digits, or what \<open>checksum_encode\<close> makes of one.
\<close>

definition address_text :: "string \<Rightarrow> bool" where
  "address_text s = (take 2 s = ''0x'' \<and> length s = 42 \<and> list_all is_hex (drop 2 s))"

fun inhabits :: "pyenv \<Rightarrow> vy_type \<Rightarrow> gen_val \<Rightarrow> bool" where
  "inhabits E (IntT n sgd) v = (\<exists>i. v = GInt i \<and> int_range n sgd i)"
| "inhabits E (Bytes m) v = (\<exists>bs. v = GBytes bs \<and> length bs \<le> m)"
| "inhabits E (BytesM m) v = (\<exists>bs. v = GBytes bs \<and> length bs = m)"
| "inhabits E Bool v = (\<exists>b. v = GBool b)"
| "inhabits E Decimal v = (\<exists>f. v = GFloat f)"
| "inhabits E (String m) v = (\<exists>s. v = GStr s \<and> length s \<le> m \<and> set s \<subseteq> set letters_digits)"
| "inhabits E Address v =
     (\<exists>s. address_text s \<and> (v = GStr s \<or> v = GStr (checksum_encode E s)))"
| "inhabits E (FixedList k b) v = (\<exists>vs. v = GList vs \<and> length vs = k \<and> (\<forall>x \<in> set vs. inhabits E b x))"
| "inhabits E (DynArray k b cur) v = (\<exists>vs. v = GList vs \<and> length vs = k \<and> (\<forall>x \<in> set vs. inhabits E b x))"
| "inhabits E NoneType v = False"

text \<open>
  The contract of a scalar generator: a value of the type, or the overflow of a float operation. What
  it promises for scalars holds for the lists built from them.
\<close>

locale scalar_gen =
  fixes E :: pyenv and g :: "vy_type \<Rightarrow> draws \<Rightarrow> (gen_val \<times> draws) res"
  assumes scalar_value: "scalar_ok True t \<Longrightarrow> g t r = Inr (v, r') \<Longrightarrow> inhabits E t v"
    and scalar_error: "scalar_ok True t \<Longrightarrow> g t r = Inl e \<Longrightarrow> e = OverflowError"
begin

lemma gen_list_value:
  assumes "\<And>r v r'. h r = Inr (v, r') \<Longrightarrow> P v"
  shows "gen_list h k r = Inr (vs, r') \<Longrightarrow> length vs = k \<and> (\<forall>x \<in> set vs. P x)"
proof (induction k arbitrary: r vs r')
  case (Suc k)
  then show ?case using assms by (force simp: bindR_Inr_iff)
qed simp

lemma gen_list_error:
  assumes "\<And>r e. h r = Inl e \<Longrightarrow> e = OverflowError"
  shows "gen_list h k r = Inl e \<Longrightarrow> e = OverflowError"
proof (induction k arbitrary: r)
  case (Suc k)
  then show ?case
    using assms by (auto simp: bindR_def split: sum.splits prod.splits)
qed simp

lemma scalar_list_value: "scalar_ok True t \<Longrightarrow> list_value g t r = g t r"
  by (cases t) simp_all

lemma fixed_value:
  assumes "fixed_ok t"
  shows "list_value g t r = Inr (v, r') \<Longrightarrow> inhabits E t v"
    and "list_value g t r = Inl e \<Longrightarrow> e = OverflowError"
proof -
  obtain k b where t: "t = FixedList k b" and b: "scalar_ok True b"
    using assms by (auto simp: fixed_ok_def scalar_ok_var split: vy_type.splits)
  show "list_value g t r = Inr (v, r') \<Longrightarrow> inhabits E t v"
    using gen_list_value [of "list_value g b" "inhabits E b"] scalar_value [OF b] t
    by (auto simp: bindR_Inr_iff scalar_list_value [OF b])
  show "list_value g t r = Inl e \<Longrightarrow> e = OverflowError"
    using gen_list_error [of "list_value g b"] scalar_error [OF b] t
    by (auto simp: scalar_list_value [OF b] bindR_def split: sum.splits)
qed

lemma element_value:
  assumes "scalar_ok True t \<or> fixed_ok t"
  shows "list_value g t r = Inr (v, r') \<Longrightarrow> inhabits E t v"
    and "list_value g t r = Inl e \<Longrightarrow> e = OverflowError"
  using assms fixed_value scalar_value scalar_error scalar_list_value by metis+

lemma dyn_value:
  assumes "scalar_ok True b \<or> fixed_ok b"
  shows "list_value g (DynArray k b cur) r = Inr (v, r') \<Longrightarrow> inhabits E (DynArray k b cur) v"
    and "list_value g (DynArray k b cur) r = Inl e \<Longrightarrow> e = OverflowError"
proof -
  show "list_value g (DynArray k b cur) r = Inr (v, r') \<Longrightarrow> inhabits E (DynArray k b cur) v"
    using gen_list_value [of "list_value g b" "inhabits E b", OF element_value(1) [OF assms]]
    by (auto simp: bindR_Inr_iff)
  show "list_value g (DynArray k b cur) r = Inl e \<Longrightarrow> e = OverflowError"
    using gen_list_error [of "list_value g b", OF element_value(2) [OF assms]]
    by (auto simp: bindR_def split: sum.splits)
qed

lemma declarable_value:
  assumes "declarable t"
  shows "list_value g t r = Inr (v, r') \<Longrightarrow> inhabits E t v"
    and "list_value g t r = Inl e \<Longrightarrow> e = OverflowError"
proof -
  consider "scalar_ok True t \<or> fixed_ok t" | k b where "t = DynArray k b 0" "scalar_ok True b \<or> fixed_ok b"
    using assms by (auto simp: declarable_def dyn_ok_def split: vy_type.splits)
  note cases = this
  show "list_value g t r = Inr (v, r') \<Longrightarrow> inhabits E t v"
    using element_value(1) dyn_value(1) by (cases rule: cases) blast+
  show "list_value g t r = Inl e \<Longrightarrow> e = OverflowError"
    using element_value(2) dyn_value(2) by (cases rule: cases) blast+
qed

end

section \<open>Both strategies fulfil the contract\<close>

lemma rand_int_range:
  assumes "low \<le> up" and "rand_int low up r = (v, r')"
  shows "low \<le> v \<and> v \<le> up"
  using assms pos_mod_bound [of "up - low + 1" "int (fst (draw r))"]
    pos_mod_sign [of "up - low + 1" "int (fst (draw r))"]
  by (auto simp: rand_int_def split_beta)

lemma length_draw_many [simp]: "length (fst (draw_many n r)) = n"
  by (induction n arbitrary: r) (simp_all add: split_beta Let_def)

lemma int_random_value: "int_random n sgd r = (v, r') \<Longrightarrow> \<exists>i. v = GInt i \<and> int_range n sgd i"
  using boundaries_ordered [of n sgd]
    rand_int_range [of "fst (get_value_boundaries n sgd)" "snd (get_value_boundaries n sgd)" r, OF _ prod.collapse [symmetric]]
  by (auto simp: int_random_def int_range_def Let_def split_beta)

lemma hex_digit_char: "d < 16 \<Longrightarrow> hex_digit (hex_char d) = Some d"
proof -
  assume "d < 16"
  then have "d = 0 \<or> d = 1 \<or> d = 2 \<or> d = 3 \<or> d = 4 \<or> d = 5 \<or> d = 6 \<or> d = 7 \<or> d = 8 \<or> d = 9 \<or> d = 10 \<or>
      d = 11 \<or> d = 12 \<or> d = 13 \<or> d = 14 \<or> d = 15" by arith
  then show ?thesis by (elim disjE) (simp_all add: hex_digit_def hex_char_def upt_rec)
qed

text \<open>Printing bytes in hexadecimal and reading them back.\<close>

lemma fromhex_byte: "bytes_fromhex (byte_hex b @ cs) = bindR (bytes_fromhex cs) (\<lambda>bs. Inr (b # bs))"
proof -
  have "unat b < 256" using unsigned_less [of b] by simp
  then show ?thesis by (simp add: byte_hex_def hex_digit_char)
qed

lemma fromhex_bytes_hex: "bytes_fromhex (bytes_hex bs) = Inr bs"
  by (induction bs) (simp_all add: bytes_hex_def fromhex_byte)

lemma zero_hex: "concat (replicate m ''00'') = bytes_hex (replicate m 0)"
  by (induction m) (simp_all add: bytes_hex_def byte_hex_def hex_char_def)

lemma address_text_zero: "address_text ''0x0000000000000000000000000000000000000000''"
  by (simp add: address_text_def is_hex_def)

lemma address_text_random:
  assumes "v < 2 ^ 160"
  shows "address_text (fill_address (py_hex v))"
proof -
  have "(16::nat) ^ 40 = 2 ^ 160" by simp
  then have len: "length (nat_hex v) \<le> 40" using assms length_nat_hex [of v 40] by simp
  then have "fill_address (py_hex v) = fill_address (take 42 (py_hex v))" by (simp add: py_hex_def)
  then show ?thesis using fill_address_shape [OF assms] by (auto simp: address_text_def)
qed

lemma address_random_value:
  assumes "address_random E r = (v, r')"
  shows "\<exists>s. address_text s \<and> v = GStr (checksum_encode E s)"
proof -
  obtain k r'' where k: "rand_int 0 (2 ^ 160 - 1) r = (k, r'')" by (cases "rand_int 0 (2 ^ 160 - 1) r")
  have "nat k < 2 ^ 160" using rand_int_range [OF _ k] by (simp add: nat_less_iff)
  then show ?thesis using assms k address_text_random by (auto simp: address_random_def)
qed

lemma string_random_value:
  assumes "string_random m r = (v, r')"
  shows "\<exists>s. v = GStr s \<and> length s \<le> m \<and> set s \<subseteq> set letters_digits"
proof -
  have "letters_digits ! (k mod length letters_digits) \<in> set letters_digits" for k
    by (rule nth_mem) (simp add: letters_digits_def)
  then show ?thesis using assms by (auto simp: string_random_def split_beta Let_def nat_le_iff)
qed

text \<open>The default strategy, per class.\<close>

lemma default_input_simps:
  "scalar_input DEFAULT E (IntT n sgd) r = Inr (int_random n sgd r)"
  "scalar_input DEFAULT E (Bytes m) r = Inr (GBytes (fst (rand_bytes m r)), snd (rand_bytes m r))"
  "scalar_input DEFAULT E (BytesM m) r = Inr (GBytes (fst (rand_bytes m r)), snd (rand_bytes m r))"
  "scalar_input DEFAULT E Bool r = Inr (bool_random r)"
  "scalar_input DEFAULT E Decimal r = decimal_random E r"
  "scalar_input DEFAULT E (String m) r = Inr (string_random m r)"
  "scalar_input DEFAULT E Address r = Inr (address_random E r)"
  by (simp_all add: scalar_input_def strategy_gens_def default_gen_def convert_gen_output_def
      bytes_random_def bytesM_random_def fromhex_bytes_hex split_beta Let_def)
    (simp add: bindR_def split_beta split: sum.split)

lemma length_rand_bytes [simp]: "length (fst (rand_bytes m r)) = m"
  by (simp add: rand_bytes_def split_beta)

lemma default_scalar_gen: "scalar_gen E (scalar_input DEFAULT E)"
proof
  fix t r v r' e
  assume t: "scalar_ok True t"
  show "scalar_input DEFAULT E t r = Inr (v, r') \<Longrightarrow> inhabits E t v"
    using t int_random_value [of _ _ r v r'] address_random_value [of E r v r']
      string_random_value [of _ r v r']
    by (cases t) (auto simp: default_input_simps decimal_random_def Let_def split_beta bool_random_def
        split: option.splits pyval.splits)
  show "scalar_input DEFAULT E t r = Inl e \<Longrightarrow> e = OverflowError"
    using t
    by (cases t) (auto simp: default_input_simps decimal_random_def Let_def split_beta
        split: option.splits pyval.splits)
qed

lemma zero_scalar_gen: "scalar_gen E (scalar_input ZEROS E)"
proof
  fix t r v r' e
  assume t: "scalar_ok True t"
  show "scalar_input ZEROS E t r = Inr (v, r') \<Longrightarrow> inhabits E t v"
    using t address_text_zero
    by (cases t) (auto simp: scalar_input_def strategy_gens_def zero_gen_def convert_gen_output_def
        zero_hex fromhex_bytes_hex int_range_def get_value_boundaries_def)
  show "scalar_input ZEROS E t r = Inl e \<Longrightarrow> e = OverflowError"
    using t
    by (cases t) (auto simp: scalar_input_def strategy_gens_def zero_gen_def convert_gen_output_def
        zero_hex fromhex_bytes_hex)
qed

interpretation default: scalar_gen E "scalar_input DEFAULT E" for E
  by (rule default_scalar_gen)

interpretation zeros: scalar_gen E "scalar_input ZEROS E" for E
  by (rule zero_scalar_gen)

end
