(* ===== verification/Conv_State.thy ===== *)
theory Conv_State imports Call_Order Vy_Values begin

text \<open>
  The state of \<^verbatim>\<open>TypedConverter\<close> (\<^verbatim>\<open>converters/typed_converters.py\<close>),
  the primitive steps its methods are made of, and the methods that every expression handler uses:
  variable references, literals and the dispatch on the name of a type.
\<close>

section \<open>State and environment\<close>

datatype converter_class = TypedConverter | NaginiConverter

record cenv =
  penv :: pyenv
  conv_class :: converter_class

text \<open>
  The stacks have their top first. \<open>current_func\<close> is the number of the function that is
  being converted. \<open>rng\<close> are the random draws that are left.
\<close>

record conv_state =
  type_stack :: "vy_type list"
  op_stack :: "string list"
  c_result :: string
  function_inputs :: "(string \<times> vy_type list) list"
  tracker :: var_tracker
  funcs :: func_tracker
  block_level :: nat
  mut_level :: int
  function_output :: "vy_type list"
  for_count :: nat
  immutable_exp :: "(string \<times> string) list"
  call_map :: call_tree
  current_func :: "nat option"
  is_constant :: bool
  rng :: draws

definition init_state :: "draws \<Rightarrow> conv_state" where
  "init_state r =
     \<lparr>type_stack = [], op_stack = [], c_result = '''', function_inputs = [], tracker = new_tracker,
      funcs = new_func_tracker MAX_FUNCTIONS, block_level = 0, mut_level = 0, function_output = [],
      for_count = 0, immutable_exp = [], call_map = (\<lambda>_. []), current_func = None,
      is_constant = False, rng = r\<rparr>"

type_synonym 'a conv = "(conv_state, 'a) stm"

section \<open>Primitive steps\<close>

definition push_type :: "vy_type \<Rightarrow> unit conv" where
  "push_type t = modM (\<lambda>s. s\<lparr>type_stack := t # type_stack s\<rparr>)"

definition pop_type :: "unit conv" where
  "pop_type = (\<lambda>s. case type_stack s of
     [] \<Rightarrow> Inl (IndexError ''pop from empty list'') | t # ts \<Rightarrow> Inr ((), s\<lparr>type_stack := ts\<rparr>))"

definition top_type :: "vy_type conv" where
  "top_type = (\<lambda>s. case type_stack s of
     [] \<Rightarrow> Inl (IndexError ''list index out of range'') | t # ts \<Rightarrow> Inr (t, s))"

definition push_op :: "string \<Rightarrow> unit conv" where
  "push_op opr = modM (\<lambda>s. s\<lparr>op_stack := opr # op_stack s\<rparr>)"

definition pop_op :: "unit conv" where
  "pop_op = (\<lambda>s. case op_stack s of
     [] \<Rightarrow> Inl (IndexError ''pop from empty list'') | q # qs \<Rightarrow> Inr ((), s\<lparr>op_stack := qs\<rparr>))"

text \<open>The body between a push and the matching pop.\<close>

definition with_type :: "vy_type \<Rightarrow> 'a conv \<Rightarrow> 'a conv" where
  "with_type t m = seqM (push_type t) (bindM m (\<lambda>x. seqM pop_type (returnM x)))"

definition with_op :: "string \<Rightarrow> 'a conv \<Rightarrow> 'a conv" where
  "with_op opr m = seqM (push_op opr) (bindM m (\<lambda>x. seqM pop_op (returnM x)))"

text \<open>\<^verbatim>\<open>random.choice\<close>.\<close>

definition choice :: "'a list \<Rightarrow> 'a conv" where
  "choice xs = (\<lambda>s. if xs = [] then Inl (IndexError ''list index out of range'')
     else let (k, r) = draw (rng s) in Inr (xs ! (k mod length xs), s\<lparr>rng := r\<rparr>))"

text \<open>
  \<^verbatim>\<open>if self._mutability_level < k: self._mutability_level = k\<close>.
\<close>

definition raise_mut :: "int \<Rightarrow> unit conv" where
  "raise_mut k = modM (\<lambda>s. if mut_level s < k then s\<lparr>mut_level := k\<rparr> else s)"

text \<open>The indentation at the current block level.\<close>

definition TAB :: string where "TAB = ''    ''"

definition indent :: "nat \<Rightarrow> string" where
  "indent k = concat (replicate k TAB)"

definition code_offset :: "string conv" where
  "code_offset = getM (\<lambda>s. indent (block_level s))"

text \<open>\<^verbatim>\<open>f"({result})"\<close> when an operator encloses the expression.\<close>

definition parens :: "string \<Rightarrow> string conv" where
  "parens txt = getM (\<lambda>s. if op_stack s = [] then txt else ''('' @ txt @ '')'')"

section \<open>Fields of messages\<close>

definition has :: "cenv \<Rightarrow> msg \<Rightarrow> string \<Rightarrow> bool conv" where
  "has C m f = liftR (HasField (decimals (penv C)) m f)"

definition has_soft :: "cenv \<Rightarrow> msg \<Rightarrow> string \<Rightarrow> bool" where
  "has_soft C m f = py_has_field (decimals (penv C)) False m f"

definition sub :: "cenv \<Rightarrow> msg \<Rightarrow> string \<Rightarrow> msg conv" where
  "sub C m f = liftR (get_msg (decimals (penv C)) m f)"

definition num :: "cenv \<Rightarrow> msg \<Rightarrow> string \<Rightarrow> int conv" where
  "num C m f = liftR (get_int (decimals (penv C)) m f)"

definition flag :: "cenv \<Rightarrow> msg \<Rightarrow> string \<Rightarrow> bool conv" where
  "flag C m f = liftR (get_bool (decimals (penv C)) m f)"

definition rep :: "cenv \<Rightarrow> msg \<Rightarrow> string \<Rightarrow> msg list conv" where
  "rep C m f = liftR (get_rep (decimals (penv C)) m f)"

text \<open>
  \<^verbatim>\<open>if m.HasField(f): return ...\<close> and what follows it: an optional result and the
  rest of the method.
\<close>

definition when_has :: "cenv \<Rightarrow> msg \<Rightarrow> string \<Rightarrow> 'a conv \<Rightarrow> 'a option conv" where
  "when_has C m f k = bindM (has C m f) (\<lambda>h. if h then bindM k (\<lambda>x. returnM (Some x)) else returnM None)"

definition or_else :: "'a option conv \<Rightarrow> 'a conv \<Rightarrow> 'a conv" where
  "or_else m k = bindM m (\<lambda>r. case r of Some x \<Rightarrow> returnM x | None \<Rightarrow> k)"

text \<open>The type a message describes.\<close>

definition visit_type :: "cenv \<Rightarrow> msg \<Rightarrow> vy_type conv" where
  "visit_type C m = liftR (extract_vy_type TYPE_DEPTH (decimals (penv C)) False m)"

definition visit_wrapped_type :: "cenv \<Rightarrow> msg \<Rightarrow> vy_type conv" where
  "visit_wrapped_type C m = liftR (extract_vy_type TYPE_DEPTH (decimals (penv C)) True m)"

section \<open>Variable references\<close>

text \<open>In a constant expression only constants may be referred to; their names start with C.\<close>

definition constant_ref :: "nat \<Rightarrow> vy_type \<Rightarrow> string option conv" where
  "constant_ref level t =
     bindM (getM (\<lambda>s. get_readonly_variables level t (tracker s))) (\<lambda>allowed_vars.
     if allowed_vars = [] then returnM None
     else bindM (choice allowed_vars) (\<lambda>variable.
       case variable of
         [] \<Rightarrow> raiseM (IndexError ''string index out of range'')
       | c # _ \<Rightarrow> (if c \<noteq> CHR ''C'' then returnM None else returnM (Some variable))))"

definition note_global :: "bool \<Rightarrow> string \<Rightarrow> vy_type \<Rightarrow> unit conv" where
  "note_global assignment variable t =
     bindM (getM (\<lambda>s. get_global_vars t (tracker s))) (\<lambda>global_vars.
     seqM (if variable \<in> set global_vars \<and> assignment then raise_mut NON_PAYABLE else returnM ())
       (if variable \<in> set global_vars then raise_mut VIEW else returnM ()))"

definition visit_var_ref :: "nat \<Rightarrow> bool \<Rightarrow> string option conv" where
  "visit_var_ref level assignment =
     bindM top_type (\<lambda>t.
     bindM (getM is_constant) (\<lambda>const.
     if const then constant_ref level t
     else
       bindM (getM (\<lambda>s. get_mutable_variables level t False (tracker s) @
               (if assignment then [] else get_readonly_variables level t (tracker s)))) (\<lambda>allowed_vars.
       if allowed_vars = [] then returnM None
       else bindM (choice allowed_vars) (\<lambda>variable.
         seqM (note_global assignment variable t) (returnM (Some variable))))))"

text \<open>\<^verbatim>\<open>if expr.HasField("varRef")\<close>: a reference at the current level, if there is one.\<close>

definition var_ref_field :: "cenv \<Rightarrow> msg \<Rightarrow> string option conv" where
  "var_ref_field C m =
     bindM (has C m ''varRef'') (\<lambda>h.
     if h then bindM (getM block_level) (\<lambda>level. visit_var_ref level False) else returnM None)"

section \<open>Literals\<close>

definition create_literal :: "cenv \<Rightarrow> msg \<Rightarrow> string conv" where
  "create_literal C lit =
     bindM top_type (\<lambda>t.
     let d = decimals (penv C) in
     case t of
       Bool \<Rightarrow> liftR (bindR (get_bool d lit ''boolval'') (\<lambda>b. Inr (bool_literal b)))
     | Decimal \<Rightarrow> liftR (bindR (get_int d lit ''decimalval'') (\<lambda>v. Inr (decimal_literal v)))
     | BytesM m \<Rightarrow> liftR (bindR (get_bytes d lit ''bMval'') (\<lambda>bs. Inr (bytesM_literal m bs)))
     | String m \<Rightarrow> liftR (bindR (get_str d lit ''strval'') (\<lambda>cs. Inr (string_literal m cs)))
     | Address \<Rightarrow> liftR (bindR (get_int d lit ''addval'') (\<lambda>v. Inr (address_literal (penv C) (nat v))))
     | Bytes m \<Rightarrow> liftR (bindR (get_int d lit ''barrval'') (\<lambda>v. Inr (bytes_literal m (nat v))))
     | IntT n sgd \<Rightarrow> liftR (bindR (get_int d lit ''intval'') (\<lambda>v. Inr (int_literal n sgd v)))
     | NoneType \<Rightarrow> raiseM (AttributeError ''name'')
     | _ \<Rightarrow> raiseM (KeyError (type_name t)))"

section \<open>Handlers by type\<close>

datatype handler =
    H_int | H_bytes_m | H_bool | H_bytes | H_decimal | H_string | H_address | H_list

definition expression_handlers :: "(string \<times> handler \<times> string) list" where
  "expression_handlers =
     [(''INT'', H_int, ''intExp''), (''BYTESM'', H_bytes_m, ''bmExp''), (''BOOL'', H_bool, ''boolExp''),
      (''BYTES'', H_bytes, ''bExp''), (''DECIMAL'', H_decimal, ''decExpression''),
      (''STRING'', H_string, ''strExp''), (''ADDRESS'', H_address, ''addrExp''),
      (''FL_INT'', H_list, ''intList''), (''FL_BYTESM'', H_list, ''bmList''),
      (''FL_BOOL'', H_list, ''boolList''), (''FL_DECIMAL'', H_list, ''decList''),
      (''FL_ADDRESS'', H_list, ''addrList''), (''DA_INT'', H_list, ''intDyn''),
      (''DA_BYTESM'', H_list, ''bmDyn''), (''DA_BOOL'', H_list, ''boolDyn''),
      (''DA_DECIMAL'', H_list, ''decDyn''), (''DA_ADDRESS'', H_list, ''addrDyn''),
      (''DA_BYTES'', H_list, ''bytesDyn''), (''DA_STRING'', H_list, ''strDyn''),
      (''DA_FL_INT'', H_list, ''lintDyn''), (''DA_FL_BYTESM'', H_list, ''lbmDyn''),
      (''DA_FL_BOOL'', H_list, ''lboolByn''), (''DA_FL_DECIMAL'', H_list, ''ldecDyn''),
      (''DA_FL_ADDRESS'', H_list, ''ladrDyn'')]"

definition expression_handler :: "vy_type \<Rightarrow> (handler \<times> string) res" where
  "expression_handler t =
     (if t = NoneType then Inl (AttributeError ''name'')
      else case map_of expression_handlers (type_name t) of
        None \<Rightarrow> Inl (KeyError (type_name t)) | Some h \<Rightarrow> Inr h)"

type_synonym visitor = "handler \<Rightarrow> msg \<Rightarrow> string conv"

text \<open>\<^verbatim>\<open>visit_typed_expression\<close>: the field of the type, by the handler of the type.\<close>

definition visit_typed_expression :: "cenv \<Rightarrow> visitor \<Rightarrow> msg \<Rightarrow> vy_type \<Rightarrow> string conv" where
  "visit_typed_expression C visitor expr t =
     bindM (liftR (expression_handler t)) (\<lambda>(h, attr).
     bindM (sub C expr attr) (visitor h))"

section \<open>Operators\<close>

definition BIN_OP_MAP :: "string list" where
  "BIN_OP_MAP = [''+'', ''-'', ''*'', ''/'', ''%'', ''**'', ''&'', ''|'', ''^'', ''<<'', ''>>'']"

definition int_bin_op_map :: "converter_class \<Rightarrow> string list" where
  "int_bin_op_map c =
     (case c of TypedConverter \<Rightarrow> BIN_OP_MAP
      | NaginiConverter \<Rightarrow>
          [''+'', ''-'', ''*'', ''//'', ''%'', ''**'', ''&'', ''|'', ''^'', ''<<'', ''>>''])"

definition decimal_bin_op_map :: "converter_class \<Rightarrow> string list" where
  "decimal_bin_op_map c =
     (case c of TypedConverter \<Rightarrow> BIN_OP_MAP
      | NaginiConverter \<Rightarrow> [''+'', ''-'', ''*'', ''/'', ''%''])"

definition BIN_OP_BOOL_MAP :: "string list" where
  "BIN_OP_BOOL_MAP = [''and'', ''or'', ''=='', ''!='']"

definition INT_BIN_OP_BOOL_MAP :: "string list" where
  "INT_BIN_OP_BOOL_MAP = [''=='', ''!='', ''<'', ''<='', ''>'', ''>='']"

text \<open>The dicts are keyed by consecutive numbers from 0.\<close>

definition get_bin_op :: "int \<Rightarrow> string list \<Rightarrow> string res" where
  "get_bin_op opr op_set =
     (if 0 \<le> opr \<and> nat opr < length op_set then Inr (op_set ! nat opr) else Inl (KeyError (py_str opr)))"

end
