(* ===== verification/Conv_Expr.thy ===== *)
theory Conv_Expr imports Conv_State begin

text \<open>
  The expression methods of \<^verbatim>\<open>TypedConverter\<close>. They call each other through the
  handler table, so each method here takes the visitor of the sub-expressions as a parameter;
  \<open>visit_expr\<close> ties the knot, with the depth of the Python stack as its first argument.
\<close>

section \<open>Conversions between types\<close>

definition check_bounds_of :: "cenv \<Rightarrow> vy_type \<Rightarrow> string \<Rightarrow> string res" where
  "check_bounds_of C t txt =
     (case t of IntT n sgd \<Rightarrow> Inr (check_literal_bounds (penv C) n sgd txt)
      | _ \<Rightarrow> Inl (AttributeError ''check_literal_bounds''))"

definition convert_text :: "string \<Rightarrow> vy_type \<Rightarrow> string" where
  "convert_text txt t = ''convert('' @ txt @ '', '' @ vyper_type t @ '')''"

text \<open>\<^verbatim>\<open>__visit_conversion\<close>: visit the operand as its own type, wrap the result.\<close>

definition conversion_of ::
  "cenv \<Rightarrow> visitor \<Rightarrow> msg \<Rightarrow> vy_type \<Rightarrow> vy_type \<Rightarrow> bool \<Rightarrow> string conv" where
  "conversion_of C visitor m current_type input_type check_bounds =
     bindM (liftR (expression_handler input_type)) (\<lambda>(h, _).
     bindM (with_type input_type (visitor h m)) (\<lambda>txt.
     bindM (if check_bounds then liftR (check_bounds_of C current_type txt) else returnM txt) (\<lambda>txt.
       returnM (convert_text txt current_type))))"

text \<open>Which targets an integer converts to besides another integer type.\<close>

definition int_converts :: "vy_type \<Rightarrow> vy_type \<Rightarrow> bool res" where
  "int_converts current_type input_type =
     (case current_type of
        Address \<Rightarrow> (case input_type of IntT n sgd \<Rightarrow> Inr (\<not> sgd) | _ \<Rightarrow> Inl (AttributeError ''signed''))
      | BytesM m \<Rightarrow> (case input_type of IntT n sgd \<Rightarrow> Inr (n \<le> m * 8) | _ \<Rightarrow> Inl (AttributeError ''n''))
      | Bool \<Rightarrow> Inr True
      | Decimal \<Rightarrow> Inr True
      | _ \<Rightarrow> Inr False)"

definition convert_int_field :: "cenv \<Rightarrow> visitor \<Rightarrow> msg \<Rightarrow> vy_type \<Rightarrow> string option conv" where
  "convert_int_field C visitor expr t =
     (if has_soft C expr ''convert_int'' then
        bindM (sub C expr ''convert_int'') (\<lambda>ci.
        bindM (visit_wrapped_type C ci) (\<lambda>input_type.
        bindM (sub C ci ''exp'') (\<lambda>m.
        if isinstance_Int t \<and> \<not> py_eq input_type t then
          bindM (conversion_of C visitor m t input_type True) (\<lambda>x. returnM (Some x))
        else bindM (liftR (int_converts t input_type)) (\<lambda>ok.
          if ok then bindM (conversion_of C visitor m t input_type False) (\<lambda>x. returnM (Some x))
          else returnM None))))
      else returnM None)"

definition convert_decimal_field :: "cenv \<Rightarrow> visitor \<Rightarrow> msg \<Rightarrow> vy_type \<Rightarrow> string option conv" where
  "convert_decimal_field C visitor expr t =
     (if has_soft C expr ''convert_decimal'' then
        bindM (sub C expr ''convert_decimal'') (\<lambda>m.
        case t of
          IntT n sgd \<Rightarrow> bindM (conversion_of C visitor m t Decimal True) (\<lambda>x. returnM (Some x))
        | BytesM k \<Rightarrow>
            (if 21 \<le> k then bindM (conversion_of C visitor m t Decimal False) (\<lambda>x. returnM (Some x))
             else returnM None)
        | _ \<Rightarrow> bindM (conversion_of C visitor m t Decimal False) (\<lambda>x. returnM (Some x)))
      else returnM None)"

text \<open>A conversion from a fixed input type, when the target allows it.\<close>

definition convert_field ::
  "cenv \<Rightarrow> visitor \<Rightarrow> msg \<Rightarrow> string \<Rightarrow> vy_type \<Rightarrow> vy_type \<Rightarrow> bool \<Rightarrow> string option conv" where
  "convert_field C visitor expr f t input_type ok =
     (if has_soft C expr f \<and> ok then
        bindM (sub C expr f) (\<lambda>m. bindM (conversion_of C visitor m t input_type False) (\<lambda>x. returnM (Some x)))
      else returnM None)"

definition address_converts :: "vy_type \<Rightarrow> bool" where
  "address_converts t = (case t of IntT n sgd \<Rightarrow> \<not> sgd | BytesM m \<Rightarrow> 20 \<le> m | Bool \<Rightarrow> True | _ \<Rightarrow> False)"

definition convert_bytesm_field :: "cenv \<Rightarrow> visitor \<Rightarrow> msg \<Rightarrow> vy_type \<Rightarrow> string option conv" where
  "convert_bytesm_field C visitor expr t =
     (if has_soft C expr ''convert_bytesm'' then
        bindM (sub C expr ''convert_bytesm'') (\<lambda>cm.
        bindM (visit_wrapped_type C cm) (\<lambda>input_type.
        bindM (sub C cm ''exp'') (\<lambda>m.
        bindM (conversion_of C visitor m t input_type False) (\<lambda>x. returnM (Some x)))))
      else returnM None)"

definition bytes_input :: "vy_type \<Rightarrow> vy_type" where
  "bytes_input t = (case attr_m t of Inr m \<Rightarrow> Bytes (min m 32) | Inl _ \<Rightarrow> Bytes 32)"

definition string_input :: "vy_type \<Rightarrow> vy_type" where
  "string_input t = (case attr_m t of Inr m \<Rightarrow> String m | Inl _ \<Rightarrow> String 32)"

text \<open>
  \<^verbatim>\<open>_visit_conversion\<close>: the alternatives in order, None when no conversion applies.
\<close>

fun first_of :: "'a option conv list \<Rightarrow> 'a option conv" where
  "first_of [] = returnM None"
| "first_of (m # ms) = bindM m (\<lambda>r. case r of Some x \<Rightarrow> returnM (Some x) | None \<Rightarrow> first_of ms)"

definition visit_conversion :: "cenv \<Rightarrow> visitor \<Rightarrow> msg \<Rightarrow> vy_type \<Rightarrow> string option conv" where
  "visit_conversion C visitor expr t =
     first_of
       [convert_int_field C visitor expr t,
        convert_decimal_field C visitor expr t,
        convert_field C visitor expr ''convert_bool'' t Bool True,
        convert_field C visitor expr ''convert_address'' t Address (address_converts t),
        convert_bytesm_field C visitor expr t,
        convert_field C visitor expr ''convert_bytes'' t (bytes_input t) True,
        convert_field C visitor expr ''convert_string'' t (string_input t) True]"

text \<open>The end of most handlers: a variable, else a conversion, else the literal.\<close>

definition literal_field :: "cenv \<Rightarrow> msg \<Rightarrow> string conv" where
  "literal_field C expr = bindM (sub C expr ''lit'') (create_literal C)"

definition convert_or_literal :: "cenv \<Rightarrow> visitor \<Rightarrow> msg \<Rightarrow> string conv" where
  "convert_or_literal C visitor expr =
     bindM top_type (\<lambda>t. or_else (visit_conversion C visitor expr t) (literal_field C expr))"

section \<open>Calls that create or call contracts\<close>

text \<open>An optional argument: visited as the given type and appended under its keyword.\<close>

definition optional_arg ::
  "cenv \<Rightarrow> visitor \<Rightarrow> msg \<Rightarrow> string \<Rightarrow> vy_type \<Rightarrow> handler \<Rightarrow> string \<Rightarrow> string \<Rightarrow> string conv" where
  "optional_arg C visitor m f t h keyword txt =
     bindM (has C m f) (\<lambda>present.
     if present then
       bindM (with_type t (bindM (sub C m f) (visitor h))) (\<lambda>v. returnM (txt @ '', '' @ keyword @ '' = '' @ v))
     else returnM txt)"

definition visit_create_min_proxy_or_copy_of :: "cenv \<Rightarrow> visitor \<Rightarrow> msg \<Rightarrow> string \<Rightarrow> string conv" where
  "visit_create_min_proxy_or_copy_of C visitor m name =
     seqM (raise_mut NON_PAYABLE)
       (bindM (bindM (sub C m ''target'') (visitor H_address)) (\<lambda>target.
        bindM (optional_arg C visitor m ''value'' (IntT 256 False) H_int ''value'' (name @ ''('' @ target)) (\<lambda>txt.
        bindM (optional_arg C visitor m ''salt'' (BytesM 32) H_bytes_m ''salt'' txt) (\<lambda>txt.
          returnM (txt @ '')'')))))"

definition blueprint_raw_args :: "cenv \<Rightarrow> visitor \<Rightarrow> msg \<Rightarrow> string \<Rightarrow> string conv" where
  "blueprint_raw_args C visitor m txt =
     bindM (has C m ''rawArgs'') (\<lambda>present.
     if present then
       bindM (sub C m ''rawArgs'') (\<lambda>ra.
       bindM (with_type Bool (bindM (sub C ra ''flag'') (create_literal C))) (\<lambda>raw_flag.
       bindM (if raw_flag = ''True'' then
                bindM (with_type (Bytes 100) (bindM (sub C ra ''arg'') (visitor H_bytes))) (\<lambda>v.
                  returnM (txt @ '', '' @ v))
              else returnM txt) (\<lambda>txt.
         returnM (txt @ '', raw_args = '' @ raw_flag))))
     else returnM txt)"

definition visit_create_from_blueprint :: "cenv \<Rightarrow> visitor \<Rightarrow> msg \<Rightarrow> string conv" where
  "visit_create_from_blueprint C visitor m =
     seqM (raise_mut NON_PAYABLE)
       (bindM (bindM (sub C m ''target'') (visitor H_address)) (\<lambda>target.
        bindM (blueprint_raw_args C visitor m (''create_from_blueprint('' @ target)) (\<lambda>txt.
        bindM (optional_arg C visitor m ''value'' (IntT 256 False) H_int ''value'' txt) (\<lambda>txt.
        bindM (optional_arg C visitor m ''code_offset'' (IntT 256 False) H_int ''code_offset'' txt) (\<lambda>txt.
        bindM (optional_arg C visitor m ''salt'' (BytesM 32) H_bytes_m ''salt'' txt) (\<lambda>txt.
          returnM (txt @ '')'')))))))"

text \<open>
  \<^verbatim>\<open>visit_ecrecover\<close>: the hash and the parts that are byte arrays first, the missing
  ones as integers afterwards.
\<close>

definition ec_part :: "cenv \<Rightarrow> visitor \<Rightarrow> msg \<Rightarrow> string \<Rightarrow> handler \<Rightarrow> string option conv" where
  "ec_part C visitor m f h = when_has C m f (bindM (sub C m f) (visitor h))"

definition ecrecover_bytes ::
  "cenv \<Rightarrow> visitor \<Rightarrow> msg \<Rightarrow> (string \<times> string option \<times> string option \<times> string option) conv" where
  "ecrecover_bytes C visitor m =
     bindM (bindM (sub C m ''hash'') (visitor H_bytes_m)) (\<lambda>hash_v.
     bindM (when_has C m ''v8'' (with_type (IntT 8 False) (bindM (sub C m ''v8'') (visitor H_int)))) (\<lambda>vv.
     bindM (ec_part C visitor m ''rb'' H_bytes_m) (\<lambda>rr.
     bindM (ec_part C visitor m ''sb'' H_bytes_m) (\<lambda>ss.
       returnM (hash_v, vv, rr, ss)))))"

definition ec_int :: "cenv \<Rightarrow> visitor \<Rightarrow> msg \<Rightarrow> string \<Rightarrow> string option \<Rightarrow> string conv" where
  "ec_int C visitor m f r =
     (case r of Some x \<Rightarrow> returnM x | None \<Rightarrow> bindM (sub C m f) (visitor H_int))"

definition visit_ecrecover :: "cenv \<Rightarrow> visitor \<Rightarrow> msg \<Rightarrow> string conv" where
  "visit_ecrecover C visitor m =
     bindM (with_type (BytesM 32) (ecrecover_bytes C visitor m)) (\<lambda>(hash_v, vv, rr, ss).
     with_type (IntT 256 False)
       (bindM (ec_int C visitor m ''vi'' vv) (\<lambda>vv.
        bindM (ec_int C visitor m ''ri'' rr) (\<lambda>rr.
        bindM (ec_int C visitor m ''si'' ss) (\<lambda>ss.
          returnM (''ecrecover('' @ hash_v @ '', '' @ vv @ '', '' @ rr @ '', '' @ ss @ '')''))))))"

section \<open>raw_call\<close>

text \<open>\<^verbatim>\<open>int(text)\<close> of a decimal literal.\<close>

definition py_int :: "string \<Rightarrow> int res" where
  "py_int txt =
     (let neg = (take 1 txt = ''-''); ds = (if neg then drop 1 txt else txt)
      in if ds \<noteq> [] \<and> list_all is_digit ds
         then Inr (if neg then - int (digits_val 0 ds) else int (digits_val 0 ds))
         else Inl (ValueError ''invalid literal for int()''))"

definition create_var :: "vy_type \<Rightarrow> nat \<Rightarrow> int \<Rightarrow> string conv" where
  "create_var t level mut =
     (\<lambda>s. bindR (create_and_register_variable t level mut (tracker s)) (\<lambda>(n, tr). Inr (n, s\<lparr>tracker := tr\<rparr>)))"

text \<open>
  A result that is assigned: to a variable of the type if there is one, else to a new one, whose
  declaration is the second component.
\<close>

definition result_variable :: "vy_type \<Rightarrow> (string \<times> string) conv" where
  "result_variable t =
     bindM (getM block_level) (\<lambda>level.
     bindM (with_type t (visit_var_ref level True)) (\<lambda>r.
     case r of
       Some v \<Rightarrow> returnM (v, '''')
     | None \<Rightarrow> bindM (create_var t level REGULAR) (\<lambda>v.
         returnM (v, indent level @ v @ '': '' @ vyper_type t))))"

text \<open>
  The output size: the requested one, at most 100 bytes, for a statement; the size of the type for an
  expression. Returns the capped size, the argument text, the variable and its declaration.
\<close>

definition raw_call_output ::
  "int \<Rightarrow> nat \<Rightarrow> bool \<Rightarrow> (int \<times> string \<times> string \<times> string) conv" where
  "raw_call_output max_out expr_size expr_bool =
     (if max_out \<noteq> 0 \<and> expr_size = 0 \<and> \<not> expr_bool then
        let max_out = (if 100 < max_out then 100 else max_out) in
        bindM (liftR (mk_Bytes max_out)) (\<lambda>t.
        bindM (result_variable t) (\<lambda>(response, bytes_decl).
          returnM (max_out, '', max_outsize='' @ py_str max_out, response, bytes_decl)))
      else if expr_size \<noteq> 0 then
        returnM (max_out, '', max_outsize='' @ nat_str expr_size, '''', '''')
      else returnM (max_out, '''', '''', ''''))"

definition raw_call_arg :: "cenv \<Rightarrow> visitor \<Rightarrow> msg \<Rightarrow> string \<Rightarrow> string conv" where
  "raw_call_arg C visitor m f =
     bindM (has C m f) (\<lambda>present.
     if present then bindM (bindM (sub C m f) (visitor H_int)) (\<lambda>v. returnM ('', '' @ f @ ''='' @ v))
     else returnM '''')"

text \<open>The flags: the kind of call, and what happens when the call fails.\<close>

definition raw_call_kind :: "string \<Rightarrow> string \<Rightarrow> string \<times> string" where
  "raw_call_kind static delegate =
     (if static = ''True'' then ('', is_static_call=True'', static)
      else if delegate = ''True'' then ('', is_delegate_call=True'', ''False'') else ('''', static))"

definition raw_call_status ::
  "string \<Rightarrow> nat \<Rightarrow> bool \<Rightarrow> (string \<times> string \<times> string) conv" where
  "raw_call_status revert expr_size expr_bool =
     (if revert = ''False'' \<and> expr_size = 0 \<and> \<not> expr_bool then
        bindM (result_variable Bool) (\<lambda>(status, bool_decl).
          returnM ('', revert_on_failure=False'', status, bool_decl))
      else if expr_bool then returnM ('', revert_on_failure=False'', '''', '''')
      else returnM ('''', '''', ''''))"

text \<open>The statement around the call: the declarations and the assignment of what it returns.\<close>

definition with_default :: "string \<Rightarrow> string \<Rightarrow> string" where
  "with_default txt val = (if txt \<noteq> '''' then txt @ '' = '' @ val @ newline else txt)"

definition raw_call_text ::
  "string \<Rightarrow> string \<Rightarrow> int \<Rightarrow> string \<Rightarrow> string \<Rightarrow> string \<Rightarrow> string \<Rightarrow> string \<Rightarrow> string" where
  "raw_call_text off call max_out revert status bool_decl response bytes_decl =
     (if max_out \<noteq> 0 \<and> revert = ''False'' then
        with_default bool_decl ''False'' @ with_default bytes_decl [CHR ''b'', CHR 0x22, CHR 0x22] @
        off @ status @ '', '' @ response @ '' = '' @ call
      else if max_out \<noteq> 0 then
        (if bytes_decl \<noteq> '''' then bytes_decl else off @ response) @ '' = '' @ call
      else if revert = ''False'' then
        (if bool_decl \<noteq> '''' then bool_decl else off @ status) @ '' = '' @ call
      else off @ call)"

definition raw_call_outputs ::
  "cenv \<Rightarrow> visitor \<Rightarrow> msg \<Rightarrow> nat \<Rightarrow> bool \<Rightarrow> (int \<times> string \<times> string \<times> string) conv" where
  "raw_call_outputs C visitor m expr_size expr_bool =
     bindM (bindM (sub C m ''max_out'') (create_literal C)) (\<lambda>lit.
     bindM (liftR (py_int lit)) (\<lambda>max_out.
     bindM (raw_call_output max_out expr_size expr_bool) (\<lambda>(max_out, txt, response, bytes_decl).
     bindM (raw_call_arg C visitor m ''gas'') (\<lambda>gas.
     bindM (raw_call_arg C visitor m ''value'') (\<lambda>v.
       returnM (max_out, txt @ gas @ v, response, bytes_decl))))))"

definition raw_call_flags ::
  "cenv \<Rightarrow> msg \<Rightarrow> nat \<Rightarrow> bool \<Rightarrow> (string \<times> string \<times> string \<times> string \<times> string) conv" where
  "raw_call_flags C m expr_size expr_bool =
     bindM (bindM (sub C m ''delegate'') (create_literal C)) (\<lambda>delegate.
     bindM (bindM (sub C m ''static'') (create_literal C)) (\<lambda>static.
     let (kind, static) = raw_call_kind static delegate in
     bindM (bindM (sub C m ''revert'') (create_literal C)) (\<lambda>revert.
     bindM (raw_call_status revert expr_size expr_bool) (\<lambda>(txt, status, bool_decl).
       returnM (kind @ txt, static, revert, status, bool_decl)))))"

definition raw_call_mutability :: "string \<Rightarrow> unit conv" where
  "raw_call_mutability static =
     modM (\<lambda>s. if static = ''True'' \<and> mut_level s \<le> VIEW then s\<lparr>mut_level := VIEW\<rparr>
       else if mut_level s < NON_PAYABLE then s\<lparr>mut_level := NON_PAYABLE\<rparr> else s)"

definition visit_raw_call :: "cenv \<Rightarrow> visitor \<Rightarrow> msg \<Rightarrow> nat \<Rightarrow> bool \<Rightarrow> string conv" where
  "visit_raw_call C visitor m expr_size expr_bool =
     bindM (with_type Address (bindM (sub C m ''to'') (visitor H_address))) (\<lambda>to.
     bindM (with_type (Bytes 100) (bindM (sub C m ''data'') (visitor H_bytes))) (\<lambda>dat.
     bindM (with_type (IntT 256 False) (raw_call_outputs C visitor m expr_size expr_bool))
       (\<lambda>(max_out, outs, response, bytes_decl).
     bindM (with_type Bool (raw_call_flags C m expr_size expr_bool))
       (\<lambda>(flags, static, revert, status, bool_decl).
     let call = ''raw_call('' @ to @ '','' @ '' '' @ dat @ outs @ flags @ '')'' in
     bindM code_offset (\<lambda>off.
     seqM (raw_call_mutability static)
       (returnM (if expr_size = 0 \<and> \<not> expr_bool
         then raw_call_text off call max_out revert status bool_decl response bytes_decl
         else call)))))))"

end
