(* ===== verification/Conv_Handlers.thy ===== *)
theory Conv_Handlers imports Conv_Expr begin

text \<open>
  The handlers of the eight kinds of expressions, the list and concatenation expressions they use and
  the recursion over all of them.
\<close>

section \<open>Hashes, curve operations, concatenations\<close>

definition visit_hash256 :: "cenv \<Rightarrow> visitor \<Rightarrow> msg \<Rightarrow> string \<Rightarrow> string conv" where
  "visit_hash256 C visitor m name =
     bindM (or_else (when_has C m ''strVal'' (with_type (String 100) (bindM (sub C m ''strVal'') (visitor H_string))))
       (or_else (when_has C m ''bVal'' (with_type (Bytes 100) (bindM (sub C m ''bVal'') (visitor H_bytes))))
         (with_type (BytesM 32) (bindM (sub C m ''bmVal'') (visitor H_bytes_m))))) (\<lambda>v.
     returnM (name @ ''('' @ v @ '')''))"

definition visit_ecadd :: "cenv \<Rightarrow> visitor \<Rightarrow> msg \<Rightarrow> string conv" where
  "visit_ecadd C visitor m =
     with_type (FixedList 2 (IntT 256 False))
       (bindM (bindM (sub C m ''x'') (visitor H_list)) (\<lambda>x.
        bindM (bindM (sub C m ''y'') (visitor H_list)) (\<lambda>y.
          returnM (''ecadd('' @ x @ '', '' @ y @ '')''))))"

definition visit_ecmul :: "cenv \<Rightarrow> visitor \<Rightarrow> msg \<Rightarrow> string conv" where
  "visit_ecmul C visitor m =
     bindM (with_type (FixedList 2 (IntT 256 False)) (bindM (sub C m ''point'') (visitor H_list))) (\<lambda>point.
     bindM (with_type (IntT 256 False) (bindM (sub C m ''scalar'') (visitor H_int))) (\<lambda>scalar.
       returnM (''ecmul('' @ point @ '', '' @ scalar @ '')'')))"

text \<open>
  \<^verbatim>\<open>_visit_concat\<close>: the sizes of the first two parts are scaled down to the size of the
  type; a further part is taken when it still fits.
\<close>

definition scale_sizes :: "int \<Rightarrow> int \<Rightarrow> int \<Rightarrow> int \<times> int" where
  "scale_sizes max_size a_size b_size =
     (let total_size = a_size + b_size in
      if max_size < total_size then (a_size * max_size div total_size, b_size * max_size div total_size)
      else (a_size, b_size))"

fun concat_rest ::
  "cenv \<Rightarrow> (msg \<Rightarrow> int \<Rightarrow> (string \<times> int) conv) \<Rightarrow> int \<Rightarrow> msg list \<Rightarrow> int \<Rightarrow> string \<Rightarrow> string conv" where
  "concat_rest C part max_size [] total_size txt = returnM txt"
| "concat_rest C part max_size (e # es) total_size txt =
     bindM (num C e ''s_size'') (\<lambda>c_size.
     if total_size + c_size \<le> max_size then
       bindM (part e c_size) (\<lambda>(c, c_size).
         concat_rest C part max_size es (total_size + c_size) (txt @ '', '' @ c))
     else concat_rest C part max_size es total_size txt)"

definition visit_concat :: "cenv \<Rightarrow> (msg \<Rightarrow> int \<Rightarrow> (string \<times> int) conv) \<Rightarrow> msg \<Rightarrow> string conv" where
  "visit_concat C part m =
     bindM top_type (\<lambda>t.
     bindM (liftR (attr_m t)) (\<lambda>max_size.
     bindM (sub C m ''a'') (\<lambda>ma.
     bindM (sub C m ''b'') (\<lambda>mb.
     bindM (num C ma ''s_size'') (\<lambda>a_size.
     bindM (num C mb ''s_size'') (\<lambda>b_size.
     let (a_size, b_size) = scale_sizes (int max_size) a_size b_size in
     bindM (part ma a_size) (\<lambda>(a, a_size).
     bindM (part mb b_size) (\<lambda>(b, b_size).
     bindM (rep C m ''c'') (\<lambda>cs.
     bindM (concat_rest C part (int max_size) cs (a_size + b_size) (''concat('' @ a @ '', '' @ b)) (\<lambda>txt.
       returnM (txt @ '')'')))))))))))"

definition string_part :: "cenv \<Rightarrow> visitor \<Rightarrow> msg \<Rightarrow> int \<Rightarrow> (string \<times> int) conv" where
  "string_part C visitor m k =
     bindM (liftR (mk_String k)) (\<lambda>t.
     bindM (with_type t (bindM (sub C m ''s'') (visitor H_string))) (\<lambda>v. returnM (v, k)))"

definition bytes_part :: "cenv \<Rightarrow> visitor \<Rightarrow> msg \<Rightarrow> int \<Rightarrow> (string \<times> int) conv" where
  "bytes_part C visitor m k =
     bindM (has C m ''b_bm'') (\<lambda>bm.
     if bm \<and> k \<noteq> 0 then
       let k = (if k \<le> 32 then k else 32) in
       bindM (liftR (mk_BytesM k)) (\<lambda>t.
       bindM (with_type t (bindM (sub C m ''b_bm'') (visitor H_bytes_m))) (\<lambda>v. returnM (v, k)))
     else
       bindM (liftR (mk_Bytes k)) (\<lambda>t.
       bindM (with_type t (bindM (sub C m ''b_bs'') (visitor H_bytes))) (\<lambda>v. returnM (v, k))))"

section \<open>Lists\<close>

text \<open>\<^verbatim>\<open>f"{base_type.generate()}"\<close>, and the padding of a list with such values.\<close>

definition generate_text :: "cenv \<Rightarrow> vy_type \<Rightarrow> string conv" where
  "generate_text C t =
     (\<lambda>s. bindR (generate (penv C) t (rng s)) (\<lambda>(v, r).
        Inr (val_format (penv C) v, s\<lparr>rng := r\<rparr>)))"

fun pad_list :: "cenv \<Rightarrow> vy_type \<Rightarrow> nat \<Rightarrow> string \<Rightarrow> string conv" where
  "pad_list C b 0 txt = returnM txt"
| "pad_list C b (Suc k) txt = bindM (generate_text C b) (\<lambda>v. pad_list C b k (txt @ '', '' @ v))"

text \<open>The explicit items, up to the size of the type; returns how many there are.\<close>

fun list_items :: "(msg \<Rightarrow> string conv) \<Rightarrow> nat \<Rightarrow> msg list \<Rightarrow> nat \<Rightarrow> string \<Rightarrow> (nat \<times> string) conv" where
  "list_items visit_item size_max [] list_size txt = returnM (list_size, txt)"
| "list_items visit_item size_max (e # es) list_size txt =
     (if int list_size = MAX_LIST_SIZE \<or> list_size = size_max then returnM (list_size, txt)
      else bindM (visit_item e) (\<lambda>v.
        list_items visit_item size_max es (list_size + 1) (txt @ '', '' @ v)))"

definition list_values :: "cenv \<Rightarrow> visitor \<Rightarrow> msg \<Rightarrow> vy_type \<Rightarrow> vy_type \<Rightarrow> nat \<Rightarrow> string conv" where
  "list_values C visitor m t b k =
     bindM (liftR (expression_handler b)) (\<lambda>(h, _).
     bindM (with_type b
       (bindM (bindM (sub C m ''rexp'') (visitor h)) (\<lambda>v.
        bindM (rep C m ''exp'') (\<lambda>es. list_items (visitor h) k es 1 v)))) (\<lambda>(list_size, txt).
     bindM (if \<not> isinstance_DynArray t \<and> list_size < k \<and> \<not> isinstance_FixedList b
            then pad_list C b (k - list_size) txt else returnM txt) (\<lambda>txt.
       returnM (''['' @ txt @ '']''))))"

text \<open>A pair of 256-bit integers may be the result of a curve operation.\<close>

definition is_point :: "vy_type \<Rightarrow> nat \<Rightarrow> bool" where
  "is_point b k = (case b of IntT n sgd \<Rightarrow> n = 256 \<and> k = 2 | _ \<Rightarrow> False)"

definition curve_value :: "cenv \<Rightarrow> visitor \<Rightarrow> msg \<Rightarrow> vy_type \<Rightarrow> nat \<Rightarrow> string option conv" where
  "curve_value C visitor m b k =
     (if is_point b k then
        first_of
          [when_has C m ''ecadd'' (bindM (sub C m ''ecadd'') (visit_ecadd C visitor)),
           when_has C m ''ecmul'' (bindM (sub C m ''ecmul'') (visit_ecmul C visitor))]
      else returnM None)"

definition visit_list_expression :: "cenv \<Rightarrow> visitor \<Rightarrow> msg \<Rightarrow> string conv" where
  "visit_list_expression C visitor m =
     or_else (var_ref_field C m)
       (bindM top_type (\<lambda>t.
        bindM (liftR (attr_base_type t)) (\<lambda>b.
        bindM (liftR (attr_size t)) (\<lambda>k.
        or_else (curve_value C visitor m b k) (list_values C visitor m t b k)))))"

section \<open>The scalar handlers\<close>

definition bin_text :: "string \<Rightarrow> string \<Rightarrow> string \<Rightarrow> string" where
  "bin_text left opr right = left @ '' '' @ opr @ '' '' @ right"

text \<open>The two operands of an operator message, under the operator.\<close>

definition operands :: "cenv \<Rightarrow> visitor \<Rightarrow> handler \<Rightarrow> msg \<Rightarrow> (string \<times> string) conv" where
  "operands C visitor h m =
     bindM (bindM (sub C m ''left'') (visitor h)) (\<lambda>left.
     bindM (bindM (sub C m ''right'') (visitor h)) (\<lambda>right. returnM (left, right)))"

definition bin_op_of :: "cenv \<Rightarrow> msg \<Rightarrow> string list \<Rightarrow> string conv" where
  "bin_op_of C m op_set = bindM (num C m ''op'') (\<lambda>k. liftR (get_bin_op k op_set))"

definition plain_bin_op :: "cenv \<Rightarrow> visitor \<Rightarrow> handler \<Rightarrow> string list \<Rightarrow> msg \<Rightarrow> string conv" where
  "plain_bin_op C visitor h op_set m =
     bindM (bin_op_of C m op_set) (\<lambda>bin_op.
     bindM (with_op bin_op (operands C visitor h m)) (\<lambda>(left, right).
       parens (bin_text left bin_op right)))"

text \<open>A comparison visits its operands as the type of the operands.\<close>

definition comparison :: "cenv \<Rightarrow> visitor \<Rightarrow> handler \<Rightarrow> vy_type \<Rightarrow> msg \<Rightarrow> string conv" where
  "comparison C visitor h t m =
     bindM (with_type t
       (bindM (bin_op_of C m INT_BIN_OP_BOOL_MAP) (\<lambda>bin_op.
        bindM (with_op bin_op (operands C visitor h m)) (\<lambda>(left, right).
          returnM (bin_text left bin_op right)))))
       parens"

definition not_op :: "cenv \<Rightarrow> visitor \<Rightarrow> msg \<Rightarrow> string conv" where
  "not_op C visitor m =
     bindM (with_op ''unNot'' (bindM (sub C m ''expr'') (visitor H_bool))) (\<lambda>v. parens (''not '' @ v))"

text \<open>A field that is ignored while a constant is converted.\<close>

definition when_variable :: "cenv \<Rightarrow> msg \<Rightarrow> string \<Rightarrow> 'a conv \<Rightarrow> 'a option conv" where
  "when_variable C m f k =
     bindM (has C m f) (\<lambda>h.
     bindM (getM is_constant) (\<lambda>const.
     if h \<and> \<not> const then bindM k (\<lambda>x. returnM (Some x)) else returnM None))"

definition visit_bool_expression :: "cenv \<Rightarrow> visitor \<Rightarrow> msg \<Rightarrow> string conv" where
  "visit_bool_expression C visitor m =
     bindM top_type (\<lambda>t.
     or_else (first_of
       [when_has C m ''boolBinOp'' (bindM (sub C m ''boolBinOp'') (plain_bin_op C visitor H_bool BIN_OP_BOOL_MAP)),
        when_has C m ''boolUnOp'' (bindM (sub C m ''boolUnOp'') (not_op C visitor)),
        when_has C m ''intBoolBinOp'' (bindM (sub C m ''intBoolBinOp'') (comparison C visitor H_int (IntT 256 False))),
        (if has_soft C m ''decBoolBinOp''
         then bindM (bindM (sub C m ''decBoolBinOp'') (comparison C visitor H_decimal Decimal)) (\<lambda>x. returnM (Some x))
         else returnM None),
        var_ref_field C m,
        when_variable C m ''raw_call'' (bindM (sub C m ''raw_call'') (\<lambda>rc. visit_raw_call C visitor rc 0 True))])
       (convert_or_literal C visitor m))"

text \<open>
  Integer operators check the operands and the result against the type of the expression.
\<close>

definition binop_bounds_of ::
  "cenv \<Rightarrow> vy_type \<Rightarrow> string \<Rightarrow> string \<Rightarrow> string \<Rightarrow> (string \<times> string \<times> string) res" where
  "binop_bounds_of C t left bin_op right =
     (case t of IntT n sgd \<Rightarrow> check_binop_bounds (penv C) n left bin_op right
      | _ \<Rightarrow> Inl (AttributeError ''check_binop_bounds''))"

definition int_bin_op :: "cenv \<Rightarrow> visitor \<Rightarrow> vy_type \<Rightarrow> msg \<Rightarrow> string conv" where
  "int_bin_op C visitor t m =
     bindM (bin_op_of C m (int_bin_op_map (conv_class C))) (\<lambda>bin_op.
     bindM (with_op bin_op
       (bindM (operands C visitor H_int m) (\<lambda>(left, right).
        bindM (liftR (binop_bounds_of C t left bin_op right)) (\<lambda>(left, bin_op, right).
          liftR (check_bounds_of C t (bin_text left bin_op right))))))
       parens)"

definition attr_signed :: "vy_type \<Rightarrow> bool res" where
  "attr_signed t = (case t of IntT n sgd \<Rightarrow> Inr sgd | _ \<Rightarrow> Inl (AttributeError ''signed''))"

definition int_un_op :: "cenv \<Rightarrow> visitor \<Rightarrow> vy_type \<Rightarrow> msg \<Rightarrow> string conv" where
  "int_un_op C visitor t m =
     bindM (with_op ''unMinus'' (bindM (sub C m ''expr'') (visitor H_int))) (\<lambda>v.
     bindM (liftR (attr_signed t)) (\<lambda>sgd.
     if sgd then bindM (liftR (check_bounds_of C t (''-'' @ v))) parens else returnM v))"

definition visit_int_expression :: "cenv \<Rightarrow> visitor \<Rightarrow> msg \<Rightarrow> string conv" where
  "visit_int_expression C visitor m =
     bindM top_type (\<lambda>t.
     or_else (first_of
       [when_has C m ''binOp'' (bindM (sub C m ''binOp'') (int_bin_op C visitor t)),
        when_has C m ''unOp'' (bindM (sub C m ''unOp'') (int_un_op C visitor t)),
        var_ref_field C m])
       (convert_or_literal C visitor m))"

definition decimal_un_op :: "cenv \<Rightarrow> visitor \<Rightarrow> msg \<Rightarrow> string conv" where
  "decimal_un_op C visitor m =
     bindM (with_op ''unMinus'' (bindM (sub C m ''expr'') (visitor H_decimal))) (\<lambda>v. parens (''-'' @ v))"

definition visit_decimal_expression :: "cenv \<Rightarrow> visitor \<Rightarrow> msg \<Rightarrow> string conv" where
  "visit_decimal_expression C visitor m =
     or_else (first_of
       [when_has C m ''binOp'' (bindM (sub C m ''binOp'')
          (plain_bin_op C visitor H_decimal (decimal_bin_op_map (conv_class C)))),
        when_has C m ''unOp'' (bindM (sub C m ''unOp'') (decimal_un_op C visitor)),
        var_ref_field C m])
       (convert_or_literal C visitor m)"

text \<open>A hash has 32 bytes and is converted when another size is wanted.\<close>

definition hash_value :: "cenv \<Rightarrow> visitor \<Rightarrow> string \<Rightarrow> vy_type \<Rightarrow> msg \<Rightarrow> string conv" where
  "hash_value C visitor name t m =
     bindM (visit_hash256 C visitor m name) (\<lambda>v.
     bindM (liftR (attr_m t)) (\<lambda>k. returnM (if k \<noteq> 32 then convert_text v t else v)))"

definition visit_bytes_m_expression :: "cenv \<Rightarrow> visitor \<Rightarrow> msg \<Rightarrow> string conv" where
  "visit_bytes_m_expression C visitor m =
     bindM top_type (\<lambda>t.
     or_else (first_of
       [when_has C m ''sha'' (bindM (sub C m ''sha'') (hash_value C visitor ''sha256'' t)),
        when_has C m ''keccak'' (bindM (sub C m ''keccak'') (hash_value C visitor ''keccak256'' t)),
        var_ref_field C m])
       (convert_or_literal C visitor m))"

text \<open>A raw call in a bytes expression needs a type of positive size.\<close>

definition bytes_raw_call :: "cenv \<Rightarrow> visitor \<Rightarrow> vy_type \<Rightarrow> msg \<Rightarrow> string option conv" where
  "bytes_raw_call C visitor t m =
     bindM (has C m ''raw_call'') (\<lambda>h.
     bindM (getM is_constant) (\<lambda>const.
     if h \<and> \<not> const then
       bindM (liftR (attr_m t)) (\<lambda>k.
       if 0 < k then
         bindM (bindM (sub C m ''raw_call'') (\<lambda>rc. visit_raw_call C visitor rc k False)) (\<lambda>x. returnM (Some x))
       else returnM None)
     else returnM None))"

definition visit_bytes_expression :: "cenv \<Rightarrow> visitor \<Rightarrow> msg \<Rightarrow> string conv" where
  "visit_bytes_expression C visitor m =
     bindM top_type (\<lambda>t.
     or_else (first_of
       [var_ref_field C m,
        bytes_raw_call C visitor t m,
        when_has C m ''concat'' (bindM (sub C m ''concat'') (visit_concat C (bytes_part C visitor)))])
       (convert_or_literal C visitor m))"

definition quoted :: "string \<Rightarrow> string" where
  "quoted txt = [CHR 0x22] @ txt @ [CHR 0x22]"

definition visit_string_expression :: "cenv \<Rightarrow> visitor \<Rightarrow> msg \<Rightarrow> string conv" where
  "visit_string_expression C visitor m =
     or_else (first_of
       [var_ref_field C m,
        when_has C m ''concat'' (bindM (sub C m ''concat'') (visit_concat C (string_part C visitor)))])
       (bindM top_type (\<lambda>t.
        or_else (visit_conversion C visitor m t)
          (bindM (literal_field C m) (\<lambda>v. returnM (quoted v)))))"

definition visit_address_expression :: "cenv \<Rightarrow> visitor \<Rightarrow> msg \<Rightarrow> string conv" where
  "visit_address_expression C visitor m =
     bindM top_type (\<lambda>t.
     or_else (first_of
       [when_variable C m ''cmp'' (bindM (sub C m ''cmp'') (\<lambda>x.
          visit_create_min_proxy_or_copy_of C visitor x ''create_minimal_proxy_to'')),
        when_variable C m ''cfb'' (bindM (sub C m ''cfb'') (visit_create_from_blueprint C visitor)),
        when_variable C m ''cco'' (bindM (sub C m ''cco'') (\<lambda>x.
          visit_create_min_proxy_or_copy_of C visitor x ''create_copy_of'')),
        when_has C m ''ecRec'' (bindM (sub C m ''ecRec'') (visit_ecrecover C visitor)),
        var_ref_field C m])
       (convert_or_literal C visitor m))"

section \<open>The recursion\<close>

definition visit_handler :: "cenv \<Rightarrow> visitor \<Rightarrow> visitor" where
  "visit_handler C visitor h =
     (case h of
        H_int \<Rightarrow> visit_int_expression C visitor
      | H_bytes_m \<Rightarrow> visit_bytes_m_expression C visitor
      | H_bool \<Rightarrow> visit_bool_expression C visitor
      | H_bytes \<Rightarrow> visit_bytes_expression C visitor
      | H_decimal \<Rightarrow> visit_decimal_expression C visitor
      | H_string \<Rightarrow> visit_string_expression C visitor
      | H_address \<Rightarrow> visit_address_expression C visitor
      | H_list \<Rightarrow> visit_list_expression C visitor)"

text \<open>
  The Python stack bounds how deep handlers nest: with no frame left the call raises.
\<close>

fun visit_expr :: "cenv \<Rightarrow> nat \<Rightarrow> visitor" where
  "visit_expr C 0 h m = raiseM RecursionError"
| "visit_expr C (Suc depth) h m = visit_handler C (visit_expr C depth) h m"

end
