(* ===== verification/Conv_Stmt.thy ===== *)
theory Conv_Stmt imports Conv_Handlers begin

text \<open>
  The statement methods of \<^verbatim>\<open>TypedConverter\<close> and the recursion over blocks. Each
  method takes the visitor of expressions and, where it has a nested block, the visitor of blocks.
\<close>

section \<open>The tracker in the state\<close>

definition next_id_of :: "vy_type \<Rightarrow> int conv" where
  "next_id_of t = (\<lambda>s. let (i, tr) = next_id t (tracker s) in Inr (i, s\<lparr>tracker := tr\<rparr>))"

definition register_var :: "string \<Rightarrow> nat \<Rightarrow> vy_type \<Rightarrow> bool \<Rightarrow> unit conv" where
  "register_var name level t mutable =
     modM (\<lambda>s. s\<lparr>tracker := register_function_variable name level t mutable (tracker s)\<rparr>)"

definition remove_level :: "bool \<Rightarrow> unit conv" where
  "remove_level mutable =
     modM (\<lambda>s. s\<lparr>tracker := remove_function_level (block_level s) mutable (tracker s)\<rparr>)"

definition enter_block :: "unit conv" where
  "enter_block = modM (\<lambda>s. s\<lparr>block_level := block_level s + 1\<rparr>)"

definition leave_block :: "unit conv" where
  "leave_block = modM (\<lambda>s. s\<lparr>block_level := block_level s - 1\<rparr>)"

section \<open>Declarations and assignments\<close>

definition var_decl :: "cenv \<Rightarrow> visitor \<Rightarrow> msg \<Rightarrow> vy_type \<Rightarrow> string conv" where
  "var_decl C visitor expr t =
     with_type t
       (bindM (next_id_of t) (\<lambda>idx.
        bindM (visit_typed_expression C visitor expr t) (\<lambda>v.
        bindM (getM block_level) (\<lambda>level.
        let name = var_name ''x'' t idx in
        seqM (register_var name level t True)
          (returnM (indent level @ name @ '': '' @ vyper_type t @ '' = '' @ v))))))"

definition visit_var_decl :: "cenv \<Rightarrow> visitor \<Rightarrow> msg \<Rightarrow> string conv" where
  "visit_var_decl C visitor m =
     bindM (visit_type C m) (\<lambda>t. bindM (sub C m ''expr'') (\<lambda>expr. var_decl C visitor expr t))"

text \<open>
  Without a variable to assign to, a new one is declared instead; that branch returns without
  popping the type.
\<close>

definition visit_assignment :: "cenv \<Rightarrow> visitor \<Rightarrow> msg \<Rightarrow> string conv" where
  "visit_assignment C visitor m =
     bindM (bindM (sub C m ''ref_id'') (visit_type C)) (\<lambda>t.
     seqM (push_type t)
       (bindM (getM block_level) (\<lambda>level.
        bindM (visit_var_ref level True) (\<lambda>r.
        bindM (sub C m ''expr'') (\<lambda>expr.
        case r of
          None \<Rightarrow> var_decl C visitor expr t
        | Some v \<Rightarrow>
            bindM (visit_typed_expression C visitor expr t) (\<lambda>e.
            seqM pop_type (returnM (indent level @ v @ '' = '' @ e))))))))"

section \<open>Loops\<close>

text \<open>The header of a loop; the classes differ in the annotation of the variable.\<close>

definition format_for :: "converter_class \<Rightarrow> string \<Rightarrow> vy_type \<Rightarrow> string \<Rightarrow> string" where
  "format_for c name t range_text =
     (case c of
        TypedConverter \<Rightarrow> ''for '' @ name @ '' in range('' @ range_text @ ''):''
      | NaginiConverter \<Rightarrow> ''for '' @ name @ '': '' @ vyper_type t @ '' in range('' @ range_text @ ''):'')"

definition loop_variable :: "string conv" where
  "loop_variable =
     bindM (next_id_of (IntT 256 False)) (\<lambda>idx.
     bindM (getM block_level) (\<lambda>level.
     seqM (register_var (loop_name idx) (level + 1) (IntT 256 False) False) (returnM (loop_name idx))))"

definition loop_bounds :: "int \<Rightarrow> int \<Rightarrow> int \<times> int" where
  "loop_bounds a b =
     (let (start, stop) = (if a < b then (a, b) else (b, a))
      in (start, if stop = start then stop + 1 else stop))"

definition visit_for_stmt_ranged :: "cenv \<Rightarrow> msg \<Rightarrow> string conv" where
  "visit_for_stmt_ranged C m =
     bindM (num C m ''start'') (\<lambda>a.
     bindM (num C m ''stop'') (\<lambda>b.
     let (start, stop) = loop_bounds a b in
     bindM loop_variable (\<lambda>name.
       returnM (format_for (conv_class C) name (IntT 256 False) (py_str start @ '', '' @ py_str stop)))))"

definition loop_range :: "string option \<Rightarrow> int \<Rightarrow> string" where
  "loop_range variable len =
     (case variable of None \<Rightarrow> py_str len | Some v \<Rightarrow> v @ '', '' @ v @ ''+'' @ py_str len)"

definition visit_for_stmt_variable :: "cenv \<Rightarrow> msg \<Rightarrow> string conv" where
  "visit_for_stmt_variable C m =
     bindM (has C m ''ref_id'') (\<lambda>h.
     bindM (if h then with_type (IntT 256 False) (bindM (getM block_level) (\<lambda>level. visit_var_ref level False))
            else returnM None) (\<lambda>variable.
     bindM (num C m ''length'') (\<lambda>len.
     let len = (if len = 0 then 1 else len) in
     bindM loop_variable (\<lambda>name.
       returnM (format_for (conv_class C) name (IntT 256 False) (loop_range variable len))))))"

type_synonym block_visitor = "msg \<Rightarrow> string conv"

definition visit_for_stmt :: "cenv \<Rightarrow> block_visitor \<Rightarrow> msg \<Rightarrow> string conv" where
  "visit_for_stmt C blk m =
     bindM code_offset (\<lambda>off.
     bindM (has C m ''variable'') (\<lambda>h.
     bindM (if h then bindM (sub C m ''variable'') (visit_for_stmt_variable C)
            else bindM (sub C m ''ranged'') (visit_for_stmt_ranged C)) (\<lambda>header.
     seqM (modM (\<lambda>s. s\<lparr>for_count := for_count s + 1\<rparr>))
       (seqM enter_block
       (bindM (bindM (sub C m ''body'') blk) (\<lambda>body.
        seqM (remove_level True) (seqM (remove_level False) (seqM leave_block
        (seqM (modM (\<lambda>s. s\<lparr>for_count := for_count s - 1\<rparr>))
          (returnM (off @ header @ newline @ body)))))))))))"

section \<open>Conditionals\<close>

text \<open>A nested block whose mutable variables go out of scope at its end.\<close>

definition scoped_block :: "block_visitor \<Rightarrow> msg \<Rightarrow> string conv" where
  "scoped_block blk m =
     seqM enter_block (bindM (blk m) (\<lambda>body. seqM (remove_level True) (seqM leave_block (returnM body))))"

fun visit_cases :: "cenv \<Rightarrow> visitor \<Rightarrow> block_visitor \<Rightarrow> bool \<Rightarrow> msg list \<Rightarrow> string \<Rightarrow> string conv" where
  "visit_cases C visitor blk is_first [] txt = returnM txt"
| "visit_cases C visitor blk is_first (m # ms) txt =
     bindM code_offset (\<lambda>off.
     bindM (with_type Bool (bindM (sub C m ''cond'') (visitor H_bool))) (\<lambda>condition.
     bindM (bindM (sub C m ''if_body'') (scoped_block blk)) (\<lambda>body.
       visit_cases C visitor blk False ms
         (txt @ (if is_first then '''' else off @ ''elif'') @ '' '' @ condition @ '':'' @ newline @ body @ newline))))"

definition visit_if_cases :: "cenv \<Rightarrow> visitor \<Rightarrow> block_visitor \<Rightarrow> msg list \<Rightarrow> string conv" where
  "visit_if_cases C visitor blk ms =
     bindM (getM block_level) (\<lambda>level.
     if ms = [] then returnM (indent level @ ''if False:'' @ newline @ indent (level + 1) @ ''pass'')
     else visit_cases C visitor blk True ms (indent level @ ''if''))"

definition visit_else_case :: "block_visitor \<Rightarrow> msg \<Rightarrow> string conv" where
  "visit_else_case blk m =
     bindM code_offset (\<lambda>off.
     bindM (scoped_block blk m) (\<lambda>body. returnM (off @ ''else:'' @ newline @ body)))"

definition visit_if_stmt :: "cenv \<Rightarrow> visitor \<Rightarrow> block_visitor \<Rightarrow> msg \<Rightarrow> string conv" where
  "visit_if_stmt C visitor blk m =
     bindM (bindM (rep C m ''cases'') (visit_if_cases C visitor blk)) (\<lambda>txt.
     bindM (has C m ''else_case'') (\<lambda>h.
     if h then bindM (bindM (sub C m ''else_case'') (visit_else_case blk)) (\<lambda>e. returnM (txt @ newline @ e))
     else returnM txt))"

section \<open>Statements without a block\<close>

definition visit_selfd :: "cenv \<Rightarrow> visitor \<Rightarrow> msg \<Rightarrow> string conv" where
  "visit_selfd C visitor m =
     seqM (raise_mut NON_PAYABLE)
       (bindM (with_type Address (bindM (sub C m ''to'') (visitor H_address))) (\<lambda>to.
        bindM code_offset (\<lambda>off. returnM (off @ ''selfdestruct('' @ to @ '')''))))"

definition visit_raise_statement :: "cenv \<Rightarrow> visitor \<Rightarrow> msg \<Rightarrow> string conv" where
  "visit_raise_statement C visitor m =
     bindM (with_type (String 100) (bindM (sub C m ''errval'') (visitor H_string))) (\<lambda>v.
     bindM code_offset (\<lambda>off.
       returnM (if 2 < length v then off @ ''raise '' @ v else off @ ''raise'')))"

definition visit_raw_revert :: "cenv \<Rightarrow> visitor \<Rightarrow> msg \<Rightarrow> string conv" where
  "visit_raw_revert C visitor m =
     bindM (with_type (Bytes 100) (bindM (sub C m ''data'') (visitor H_bytes))) (\<lambda>v.
     bindM code_offset (\<lambda>off. returnM (off @ ''raw_revert('' @ v @ '')'')))"

definition MAX_RAW_LOG_TOPICS :: int where "MAX_RAW_LOG_TOPICS = 4"

definition visit_raw_log :: "cenv \<Rightarrow> visitor \<Rightarrow> msg \<Rightarrow> string conv" where
  "visit_raw_log C visitor m =
     seqM (raise_mut NON_PAYABLE)
       (bindM (num C m ''topic_amount'') (\<lambda>k.
        let topic_amount = (k - 1) mod MAX_RAW_LOG_TOPICS + 1 in
        bindM (with_type (FixedList (nat topic_amount) (BytesM 32)) (bindM (sub C m ''topics'') (visitor H_list))) (\<lambda>topics.
        bindM (has C m ''data_bs'') (\<lambda>h.
        bindM (if h then with_type (Bytes 100) (bindM (sub C m ''data_bs'') (visitor H_bytes))
               else with_type (BytesM 32) (bindM (sub C m ''data_bm'') (visitor H_bytes_m))) (\<lambda>dat.
        bindM code_offset (\<lambda>off.
          returnM (off @ ''raw_log('' @ topics @ '', '' @ dat @ '')'')))))))"

definition visit_assert_stmt :: "cenv \<Rightarrow> visitor \<Rightarrow> msg \<Rightarrow> string conv" where
  "visit_assert_stmt C visitor m =
     bindM (with_type Bool (bindM (sub C m ''cond'') (visitor H_bool))) (\<lambda>condition.
     bindM (with_type (String 100) (bindM (sub C m ''reason'') (visitor H_string))) (\<lambda>v.
     bindM code_offset (\<lambda>off.
     let txt = off @ ''assert '' @ condition in
       returnM (if 2 < length v then txt @ '', '' @ v else txt))))"

definition visit_send_stmt :: "cenv \<Rightarrow> visitor \<Rightarrow> msg \<Rightarrow> string conv" where
  "visit_send_stmt C visitor m =
     seqM (raise_mut NON_PAYABLE)
       (bindM (with_type Address (bindM (sub C m ''to'') (visitor H_address))) (\<lambda>target.
        bindM (with_type (IntT 256 False)
          (bindM (bindM (sub C m ''amount'') (visitor H_int)) (\<lambda>v.
           bindM (raw_call_arg C visitor m ''gas'') (\<lambda>gas. returnM ('', '' @ v @ gas))))) (\<lambda>args.
        bindM code_offset (\<lambda>off.
          returnM (off @ ''send('' @ target @ args @ '')'')))))"

text \<open>Any dynamic array in scope; the element type is looked up by the name.\<close>

definition any_dyn_array :: vy_type where
  "any_dyn_array = DynArray (nat MAX_LIST_SIZE) NoneType 0"

definition visit_append_stmt :: "cenv \<Rightarrow> visitor \<Rightarrow> msg \<Rightarrow> string option conv" where
  "visit_append_stmt C visitor m =
     bindM (getM block_level) (\<lambda>level.
     bindM (with_type any_dyn_array (visit_var_ref level True)) (\<lambda>r.
     case r of
       None \<Rightarrow> returnM None
     | Some name \<Rightarrow>
         bindM (getM (\<lambda>s. get_dyn_array_base_type name True (tracker s))) (\<lambda>bt.
         let t = (case bt of None \<Rightarrow> NoneType | Some t \<Rightarrow> t) in
         bindM (with_type t (bindM (sub C m ''expr'') (\<lambda>e. visit_typed_expression C visitor e t))) (\<lambda>v.
           returnM (Some (indent level @ name @ ''.append('' @ v @ '')''))))))"

text \<open>Without an array the method returns before the pop.\<close>

definition visit_pop_stmt :: "string option conv" where
  "visit_pop_stmt =
     bindM (getM block_level) (\<lambda>level.
     seqM (push_type any_dyn_array)
       (bindM (visit_var_ref level True) (\<lambda>r.
        case r of
          None \<Rightarrow> returnM None
        | Some name \<Rightarrow> seqM pop_type (returnM (Some (indent level @ name @ ''.pop()''))))))"

section \<open>Calls of functions of the contract\<close>

definition function_at :: "nat \<Rightarrow> func_obj conv" where
  "function_at i =
     (\<lambda>s. if i < length (ft_functions (funcs s)) then Inr (ft_functions (funcs s) ! i, s)
          else Inl (IndexError ''list index out of range''))"

text \<open>
  The variable an output is assigned to: one in scope that is not taken yet, else a new one with its
  declaration.
\<close>

definition output_variable :: "vy_type \<Rightarrow> string list \<Rightarrow> (string \<times> string) conv" where
  "output_variable t output_vars =
     bindM (getM block_level) (\<lambda>level.
     bindM (getM (\<lambda>s. get_mutable_variables level t True (tracker s))) (\<lambda>allowed_vars.
     bindM (if allowed_vars \<noteq> [] then bindM (choice allowed_vars) (\<lambda>v. returnM (Some v)) else returnM None) (\<lambda>r.
     case r of
       Some v \<Rightarrow>
         (if v \<notin> set output_vars then
            bindM (getM (\<lambda>s. get_global_vars t (tracker s))) (\<lambda>global_vars.
            seqM (if v \<in> set global_vars then raise_mut NON_PAYABLE else returnM ()) (returnM (v, '''')))
          else bindM (create_var t level REGULAR) (\<lambda>v.
            returnM (v, indent level @ v @ '': '' @ vyper_type t @ '' = empty('' @ vyper_type t @ '')'' @ newline)))
     | None \<Rightarrow> bindM (create_var t level REGULAR) (\<lambda>v.
         returnM (v, indent level @ v @ '': '' @ vyper_type t @ '' = empty('' @ vyper_type t @ '')'' @ newline)))))"

fun output_variables :: "vy_type list \<Rightarrow> string list \<Rightarrow> string \<Rightarrow> (string list \<times> string) conv" where
  "output_variables [] output_vars txt = returnM (output_vars, txt)"
| "output_variables (t # ts) output_vars txt =
     bindM (output_variable t output_vars) (\<lambda>(v, decl_text).
       output_variables ts (output_vars @ [v]) (txt @ decl_text))"

definition params_attrs :: "string list" where
  "params_attrs = [''one'', ''two'', ''three'', ''four'', ''five'']"

text \<open>Typed payloads by position; a list longer than the attributes is cut.\<close>

fun visit_payloads :: "cenv \<Rightarrow> visitor \<Rightarrow> msg \<Rightarrow> (vy_type \<times> string) list \<Rightarrow> string list conv" where
  "visit_payloads C visitor m [] = returnM []"
| "visit_payloads C visitor m ((t, attr) # ps) =
     bindM (with_type t (bindM (sub C m attr) (\<lambda>e. visit_typed_expression C visitor e t))) (\<lambda>v.
     bindM (visit_payloads C visitor m ps) (\<lambda>vs. returnM (v # vs)))"

definition callee_of :: "cenv \<Rightarrow> msg \<Rightarrow> nat conv" where
  "callee_of C m =
     bindM (num C m ''func_num'') (\<lambda>k.
     getM (\<lambda>s. nat (k mod int (length (ft_functions (funcs s))))))"

definition visit_func_call :: "cenv \<Rightarrow> visitor \<Rightarrow> msg \<Rightarrow> string conv" where
  "visit_func_call C visitor m =
     bindM (bindM (callee_of C m) function_at) (\<lambda>f.
     seqM (raise_mut (f_mutability f))
       (bindM (output_variables (f_outputs f) [] '''') (\<lambda>(output_vars, decls).
        bindM code_offset (\<lambda>off.
        bindM (sub C m ''params'') (\<lambda>params.
        bindM (visit_payloads C visitor params (zip (f_inputs f) params_attrs)) (\<lambda>input_values.
          returnM (decls @ off @ (if output_vars \<noteq> [] then py_join '', '' output_vars @ '' = '' else '''') @
            render_call f input_values)))))))"

section \<open>The dispatch on statements\<close>

text \<open>A call is converted only when the call tree still has it.\<close>

definition call_allowed :: "cenv \<Rightarrow> msg \<Rightarrow> bool conv" where
  "call_allowed C m =
     bindM (getM (\<lambda>s. length (ft_functions (funcs s)))) (\<lambda>n.
     if n = 0 then returnM False
     else
       bindM (bindM (sub C m ''func_call'') (callee_of C)) (\<lambda>func_num.
       bindM (getM current_func) (\<lambda>cf.
       case cf of
         None \<Rightarrow> raiseM (AttributeError ''id'')
       | Some i \<Rightarrow> getM (\<lambda>s. func_num \<in> set (call_map s i)))))"

definition statement_call :: "cenv \<Rightarrow> visitor \<Rightarrow> msg \<Rightarrow> string option conv" where
  "statement_call C visitor m =
     bindM (has C m ''func_call'') (\<lambda>h.
     if h then
       bindM (call_allowed C m) (\<lambda>ok.
       if ok then bindM (bindM (sub C m ''func_call'') (visit_func_call C visitor)) (\<lambda>x. returnM (Some x))
       else returnM None)
     else returnM None)"

text \<open>A statement that may turn out to be impossible.\<close>

definition when_has_option :: "cenv \<Rightarrow> msg \<Rightarrow> string \<Rightarrow> 'a option conv \<Rightarrow> 'a option conv" where
  "when_has_option C m f k = bindM (has C m f) (\<lambda>h. if h then k else returnM None)"

definition loop_control :: "cenv \<Rightarrow> msg \<Rightarrow> string option conv" where
  "loop_control C m =
     bindM (getM for_count) (\<lambda>k.
     if 0 < k then
       first_of
         [when_has C m ''cont_stmt'' (bindM code_offset (\<lambda>off. returnM (off @ ''continue''))),
          when_has C m ''break_stmt'' (bindM code_offset (\<lambda>off. returnM (off @ ''break'')))]
     else returnM None)"

definition visit_statement :: "cenv \<Rightarrow> visitor \<Rightarrow> block_visitor \<Rightarrow> msg \<Rightarrow> string conv" where
  "visit_statement C visitor blk m =
     or_else (first_of
       [loop_control C m,
        when_has C m ''decl'' (bindM (sub C m ''decl'') (visit_var_decl C visitor)),
        when_has C m ''for_stmt'' (bindM (sub C m ''for_stmt'') (visit_for_stmt C blk)),
        when_has C m ''if_stmt'' (bindM (sub C m ''if_stmt'') (visit_if_stmt C visitor blk)),
        when_has C m ''assert_stmt'' (bindM (sub C m ''assert_stmt'') (visit_assert_stmt C visitor)),
        statement_call C visitor m,
        when_has_option C m ''append_stmt'' (bindM (sub C m ''append_stmt'') (visit_append_stmt C visitor)),
        when_has_option C m ''pop_stmt'' visit_pop_stmt,
        when_has C m ''send_stmt'' (bindM (sub C m ''send_stmt'') (visit_send_stmt C visitor)),
        when_has C m ''raw_call'' (bindM (sub C m ''raw_call'') (\<lambda>rc. visit_raw_call C visitor rc 0 False)),
        when_has C m ''raw_log'' (bindM (sub C m ''raw_log'') (visit_raw_log C visitor))])
       (bindM (sub C m ''assignment'') (visit_assignment C visitor))"

section \<open>Blocks\<close>

definition visit_return_payload :: "cenv \<Rightarrow> visitor \<Rightarrow> msg \<Rightarrow> string conv" where
  "visit_return_payload C visitor m =
     bindM (getM function_output) (\<lambda>outs.
     bindM (visit_payloads C visitor m (zip outs params_attrs)) (\<lambda>vs.
     bindM code_offset (\<lambda>off.
       returnM (off @ butlast (''return '' @ concat (map (\<lambda>v. v @ '','') vs))))))"

definition visit_exit_statement :: "cenv \<Rightarrow> visitor \<Rightarrow> msg \<Rightarrow> bool \<Rightarrow> string conv" where
  "visit_exit_statement C visitor m force_return =
     or_else (first_of
       [when_has C m ''selfd'' (bindM (sub C m ''selfd'') (visit_selfd C visitor)),
        when_has C m ''raise_st'' (bindM (sub C m ''raise_st'') (visit_raise_statement C visitor)),
        when_has C m ''raw_revert'' (bindM (sub C m ''raw_revert'') (visit_raw_revert C visitor))])
       (bindM (getM function_output) (\<lambda>outs.
        bindM (flag C m ''flag'') (\<lambda>fl.
        if outs \<noteq> [] \<or> fl \<or> force_return
        then bindM (sub C m ''payload'') (visit_return_payload C visitor) else returnM '''')))"

fun visit_statements :: "cenv \<Rightarrow> visitor \<Rightarrow> block_visitor \<Rightarrow> msg list \<Rightarrow> string \<Rightarrow> string conv" where
  "visit_statements C visitor blk [] txt = returnM txt"
| "visit_statements C visitor blk (m # ms) txt =
     bindM (visit_statement C visitor blk m) (\<lambda>v.
       visit_statements C visitor blk ms (txt @ v @ newline))"

definition block_body :: "cenv \<Rightarrow> visitor \<Rightarrow> block_visitor \<Rightarrow> msg \<Rightarrow> string conv" where
  "block_body C visitor blk m =
     bindM (rep C m ''statements'') (\<lambda>ms.
     bindM (visit_statements C visitor blk ms '''') (\<lambda>txt.
     bindM (sub C m ''exit_d'') (\<lambda>exit_d.
     bindM (flag C exit_d ''flag'') (\<lambda>fl.
     bindM (getM block_level) (\<lambda>level.
     if level = 1 \<or> fl \<or> ms = [] then
       bindM (visit_exit_statement C visitor exit_d (ms = [])) (\<lambda>e. returnM (txt @ e @ newline))
     else returnM txt)))))"

text \<open>Blocks and the expressions in them share the Python stack.\<close>

fun visit_block :: "cenv \<Rightarrow> nat \<Rightarrow> block_visitor" where
  "visit_block C 0 m = raiseM RecursionError"
| "visit_block C (Suc depth) m = block_body C (visit_expr C depth) (visit_block C depth) m"

end
