(* ===== verification/Conv_Contract.thy ===== *)
theory Conv_Contract imports Conv_Stmt begin

text \<open>
  The methods of \<^verbatim>\<open>TypedConverter\<close> for whole functions and contracts, with
  \<^verbatim>\<open>parameters_converter.py\<close> and what \<^verbatim>\<open>NaginiConverter\<close>
  (\<^verbatim>\<open>typed_converters_4.py\<close>) overrides.
\<close>

section \<open>Parameters\<close>

text \<open>
  Inputs are read-only variables of level 1. The text, the types and the names grow together; at most
  the configured number of parameters is taken.
\<close>

fun input_parameters ::
  "cenv \<Rightarrow> nat \<Rightarrow> msg list \<Rightarrow> string \<Rightarrow> vy_type list \<Rightarrow> string list \<Rightarrow>
   (string \<times> vy_type list \<times> string list) conv" where
  "input_parameters C i [] txt input_types names = returnM (txt, input_types, names)"
| "input_parameters C i (m # ms) txt input_types names =
     bindM (visit_type C m) (\<lambda>t.
     bindM (create_var t 1 IMMUTABLE) (\<lambda>name.
     let txt = (if 0 < i then txt @ '', '' else txt) @ name @ '': '' @ vyper_type t;
         input_types = input_types @ [t]; names = names @ [name]
     in if i + 1 = MAX_FUNCTION_INPUT then returnM (txt, input_types, names)
        else input_parameters C (i + 1) ms txt input_types names))"

definition visit_input_parameters ::
  "cenv \<Rightarrow> msg list \<Rightarrow> (string \<times> vy_type list \<times> string list) conv" where
  "visit_input_parameters C ms = input_parameters C 0 ms '''' [] []"

fun output_parameters :: "cenv \<Rightarrow> nat \<Rightarrow> msg list \<Rightarrow> vy_type list \<Rightarrow> vy_type list conv" where
  "output_parameters C i [] output_types = returnM output_types"
| "output_parameters C i (m # ms) output_types =
     bindM (visit_type C m) (\<lambda>t.
     if i + 1 = MAX_FUNCTION_OUTPUT then returnM (output_types @ [t])
     else output_parameters C (i + 1) ms (output_types @ [t]))"

definition visit_output_parameters :: "cenv \<Rightarrow> msg list \<Rightarrow> vy_type list conv" where
  "visit_output_parameters C ms = output_parameters C 0 ms []"

section \<open>Reentrancy keys\<close>

text \<open>
  Invalid characters are dropped, and digits until another valid character has been seen. The key is
  used unless it is empty or reserved in lower case.
\<close>

definition in_chars :: "nat \<Rightarrow> string \<Rightarrow> bool" where
  "in_chars c cs = (c < 256 \<and> char_of c \<in> set cs)"

fun key_chars :: "bool \<Rightarrow> nat list \<Rightarrow> string" where
  "key_chars valid_prefix [] = ''''"
| "key_chars valid_prefix (c # cs) =
     (if \<not> in_chars c VALID_CHARS then key_chars valid_prefix cs
      else if in_chars c INVALID_PREFIX \<and> \<not> valid_prefix then key_chars valid_prefix cs
      else char_of c # key_chars (valid_prefix \<or> \<not> in_chars c INVALID_PREFIX) cs)"

definition lower_char :: "char \<Rightarrow> char" where
  "lower_char c = (let k = of_char c :: nat in if 65 \<le> k \<and> k \<le> 90 then char_of (k + 32) else c)"

definition visit_reentrancy :: "cenv \<Rightarrow> msg \<Rightarrow> string conv" where
  "visit_reentrancy C ret =
     (case conv_class C of
        TypedConverter \<Rightarrow>
          liftR (bindR (get_str (decimals (penv C)) ret ''key'') (\<lambda>cs.
            let key = key_chars False cs in
            Inr (if key \<noteq> '''' \<and> map lower_char key \<notin> set RESERVED_KEYWORDS
                 then ''@nonreentrant('' @ quoted key @ '')'' @ newline else '''')))
      | NaginiConverter \<Rightarrow> returnM (''@nonreentrant'' @ newline))"

text \<open>A function that changes or reads the state gets the decorator.\<close>

definition reentrancy_of :: "cenv \<Rightarrow> msg \<Rightarrow> string conv" where
  "reentrancy_of C function =
     bindM (has C function ''ret'') (\<lambda>h.
     bindM (getM mut_level) (\<lambda>mut.
     if h \<and> PURE < mut then bindM (sub C function ''ret'') (visit_reentrancy C) else returnM ''''))"

section \<open>Global variables\<close>

definition set_constant :: "bool \<Rightarrow> unit conv" where
  "set_constant b = modM (\<lambda>s. s\<lparr>is_constant := b\<rparr>)"

definition var_decl_global :: "cenv \<Rightarrow> visitor \<Rightarrow> msg \<Rightarrow> string conv" where
  "var_decl_global C visitor m =
     bindM (visit_type C m) (\<lambda>t.
     with_type t
       (bindM (num C m ''mut'') (\<lambda>mut.
        if mut = REGULAR then
          bindM (create_var t 0 mut) (\<lambda>name. returnM (name @ '': '' @ vyper_type t))
        else
          seqM (if mut = CONSTANT then set_constant True else returnM ())
          (bindM (bindM (sub C m ''expr'') (\<lambda>e. visit_typed_expression C visitor e t)) (\<lambda>v.
           seqM (set_constant False)
           (bindM (create_var t 0 mut) (\<lambda>name.
            if mut = CONSTANT then
              returnM (name @ '': constant('' @ vyper_type t @ '') = '' @ v)
            else
              seqM (modM (\<lambda>s. s\<lparr>immutable_exp := immutable_exp s @ [(name, v)]\<rparr>))
                (returnM (name @ '': immutable('' @ vyper_type t @ '')''))))))))) "

section \<open>Functions\<close>

definition set_level :: "nat \<Rightarrow> unit conv" where
  "set_level k = modM (\<lambda>s. s\<lparr>block_level := k\<rparr>)"

definition set_mut :: "int \<Rightarrow> unit conv" where
  "set_mut k = modM (\<lambda>s. s\<lparr>mut_level := k\<rparr>)"

text \<open>The body of a function: a block of level 1 and the end of that level.\<close>

definition function_body :: "string conv \<Rightarrow> string conv" where
  "function_body body =
     seqM (set_level 1)
       (bindM body (\<lambda>txt.
        seqM (remove_level True) (seqM (remove_level False) (seqM (set_level 0) (returnM txt)))))"

definition update_function :: "nat \<Rightarrow> (func_obj \<Rightarrow> func_obj) \<Rightarrow> unit conv" where
  "update_function i g =
     modM (\<lambda>s. s\<lparr>funcs := (funcs s)\<lparr>ft_functions := (ft_functions (funcs s))[i := g (ft_functions (funcs s) ! i)]\<rparr>\<rparr>)"

definition visit_func :: "cenv \<Rightarrow> block_visitor \<Rightarrow> nat \<Rightarrow> msg \<Rightarrow> unit conv" where
  "visit_func C blk i function =
     seqM (set_mut 0) (seqM (modM (\<lambda>s. s\<lparr>current_func := Some i\<rparr>))
       (bindM (function_body (bindM (sub C function ''block'') blk)) (\<lambda>block.
        bindM (reentrancy_of C function) (\<lambda>reentrancy.
        bindM (num C function ''mut'') (\<lambda>fmut.
        bindM (getM mut_level) (\<lambda>mut.
        bindM (getM function_output) (\<lambda>outs.
          update_function i (\<lambda>f. f\<lparr>f_mutability := max mut fmut, f_body := block,
            f_reentrancy := reentrancy, f_outputs := outs\<rparr>))))))))"

definition init_visibility :: "converter_class \<Rightarrow> string" where
  "init_visibility c = (case c of TypedConverter \<Rightarrow> ''@external'' | NaginiConverter \<Rightarrow> ''@deploy'')"

definition visit_init_immutables :: "string conv" where
  "visit_init_immutables =
     getM (\<lambda>s. concat (map (\<lambda>(var, expr). TAB @ var @ '' = '' @ expr @ newline) (immutable_exp s)))"

definition note_inputs :: "string \<Rightarrow> vy_type list \<Rightarrow> unit conv" where
  "note_inputs name ts = modM (\<lambda>s. s\<lparr>function_inputs := AList.update name ts (function_inputs s)\<rparr>)"

definition visit_init :: "cenv \<Rightarrow> block_visitor \<Rightarrow> msg \<Rightarrow> string conv" where
  "visit_init C blk init =
     seqM (set_mut 0)
       (bindM (bindM (rep C init ''input_params'') (visit_input_parameters C)) (\<lambda>(params, types, _).
        seqM (if types \<noteq> [] then note_inputs ''__init__'' types else returnM ())
        (bindM (function_body (bindM visit_init_immutables (\<lambda>imm.
           bindM (bindM (sub C init ''block'') blk) (\<lambda>b. returnM (imm @ b))))) (\<lambda>block.
         bindM (num C init ''mut'') (\<lambda>mut.
           returnM (init_visibility (conv_class C) @ newline @
             (if mut \<noteq> 0 then ''@payable'' @ newline else '''') @
             ''def __init__('' @ params @ ''):'' @ newline @ block))))))"

definition output_text :: "vy_type list \<Rightarrow> string" where
  "output_text outs =
     (let output_str = py_join '', '' (map vyper_type outs);
          output_str = (if 1 < length outs then ''('' @ output_str @ '')'' else output_str)
      in if 0 < length outs then '' -> '' @ output_str else output_str)"

definition visit_default_func :: "cenv \<Rightarrow> block_visitor \<Rightarrow> msg \<Rightarrow> string conv" where
  "visit_default_func C blk function =
     seqM (set_mut 0)
       (bindM (function_body (bindM (sub C function ''block'') blk)) (\<lambda>block.
        bindM (getM function_output) (\<lambda>outs.
        bindM (reentrancy_of C function) (\<lambda>reentrancy.
        bindM (num C function ''mut'') (\<lambda>fmut.
        bindM (getM mut_level) (\<lambda>mut.
        bindM (liftR (mutability_decorator (max mut fmut))) (\<lambda>mutability.
          returnM (''@external'' @ newline @ reentrancy @ mutability @ newline @ ''def __default__()'' @
            output_text outs @ '':'' @ newline @ block))))))))"

section \<open>The contract\<close>

definition emit :: "string \<Rightarrow> unit conv" where
  "emit txt = modM (\<lambda>s. s\<lparr>c_result := c_result s @ txt\<rparr>)"

fun visit_decls :: "cenv \<Rightarrow> visitor \<Rightarrow> nat \<Rightarrow> msg list \<Rightarrow> unit conv" where
  "visit_decls C visitor i [] = returnM ()"
| "visit_decls C visitor i (m # ms) =
     (if MAX_STORAGE_VARIABLES \<le> i then returnM ()
      else bindM (var_decl_global C visitor m) (\<lambda>txt.
        seqM (emit (txt @ newline)) (visit_decls C visitor (i + 1) ms)))"

definition set_output :: "vy_type list \<Rightarrow> unit conv" where
  "set_output outs = modM (\<lambda>s. s\<lparr>function_output := outs\<rparr>)"

text \<open>The signature and the body of one function; returns the names of its inputs.\<close>

definition convert_function :: "cenv \<Rightarrow> block_visitor \<Rightarrow> msg list \<Rightarrow> nat \<Rightarrow> string list conv" where
  "convert_function C blk functions i =
     bindM (function_at i) (\<lambda>f.
     if length functions \<le> i then raiseM (IndexError ''list index out of range'')
     else let function = functions ! i in
     bindM (bindM (rep C function ''input_params'') (visit_input_parameters C)) (\<lambda>(_, types, names).
     seqM (update_function i (\<lambda>f. f\<lparr>f_inputs := types\<rparr>))
     (bindM (bindM (rep C function ''output_params'') (visit_output_parameters C)) (\<lambda>outs.
      seqM (update_function i (\<lambda>f. f\<lparr>f_outputs := outs\<rparr>))
      (seqM (set_output outs)
      (seqM (note_inputs (f_name f) types)
      (seqM (visit_func C blk i function) (returnM names))))))))"

fun convert_functions :: "cenv \<Rightarrow> block_visitor \<Rightarrow> msg list \<Rightarrow> nat list \<Rightarrow> string list list conv" where
  "convert_functions C blk functions [] = returnM []"
| "convert_functions C blk functions (i # is) =
     bindM (convert_function C blk functions i) (\<lambda>names.
     bindM (convert_functions C blk functions is) (\<lambda>rest. returnM (names # rest)))"

text \<open>The definitions in the order of the contract, each with the names of its inputs.\<close>

definition names_of :: "nat list \<Rightarrow> string list list \<Rightarrow> nat \<Rightarrow> string list res" where
  "names_of order input_names i =
     (case map_of (zip order input_names) i of
        None \<Rightarrow> Inl (ValueError (py_str (int i) @ '' is not in list'')) | Some names \<Rightarrow> Inr names)"

fun render_functions :: "nat list \<Rightarrow> string list list \<Rightarrow> func_obj list \<Rightarrow> unit conv" where
  "render_functions order input_names [] = returnM ()"
| "render_functions order input_names (f # fs) =
     bindM (liftR (names_of order input_names (f_id f))) (\<lambda>names.
     bindM (liftR (render_definition f names)) (\<lambda>txt.
     seqM (emit (txt @ newline)) (render_functions order input_names fs)))"

definition visit_init_part :: "cenv \<Rightarrow> block_visitor \<Rightarrow> msg \<Rightarrow> unit conv" where
  "visit_init_part C blk contract =
     bindM (sub C contract ''init'') (\<lambda>init.
     bindM (flag C init ''flag'') (\<lambda>fl.
     bindM (getM immutable_exp) (\<lambda>imm.
     if fl \<or> imm \<noteq> [] then bindM (visit_init C blk init) (\<lambda>txt. emit (txt @ newline)) else returnM ())))"

definition register_contract_functions :: "cenv \<Rightarrow> msg list \<Rightarrow> unit conv" where
  "register_contract_functions C functions =
     (\<lambda>s. bindR (register_functions (decimals (penv C)) functions (funcs s)) (\<lambda>ft.
        Inr ((), s\<lparr>funcs := ft\<rparr>)))"

definition order_functions :: "cenv \<Rightarrow> msg list \<Rightarrow> nat list conv" where
  "order_functions C functions =
     (\<lambda>s. bindR (setup_order MAX_FUNCTIONS (decimals (penv C)) (funcs s) functions) (\<lambda>(order, tree).
        Inr (order, s\<lparr>call_map := tree\<rparr>)))"

definition visit_default_part :: "cenv \<Rightarrow> block_visitor \<Rightarrow> msg \<Rightarrow> unit conv" where
  "visit_default_part C blk contract =
     bindM (has C contract ''def_func'') (\<lambda>h.
     if h then
       bindM (sub C contract ''def_func'') (\<lambda>df.
       bindM (bindM (rep C df ''output_params'') (visit_output_parameters C)) (\<lambda>outs.
       seqM (set_output outs) (bindM (visit_default_func C blk df) (\<lambda>txt. emit (txt @ newline)))))
     else returnM ())"

definition visit_functions_part :: "cenv \<Rightarrow> block_visitor \<Rightarrow> msg \<Rightarrow> unit conv" where
  "visit_functions_part C blk contract =
     bindM (rep C contract ''functions'') (\<lambda>functions.
     seqM (register_contract_functions C functions)
     (bindM (order_functions C functions) (\<lambda>order.
      bindM (convert_functions C blk functions order) (\<lambda>input_names.
      bindM (getM (\<lambda>s. ft_functions (funcs s))) (render_functions order input_names)))))"

definition visit :: "cenv \<Rightarrow> nat \<Rightarrow> msg \<Rightarrow> unit conv" where
  "visit C depth contract =
     bindM (rep C contract ''decls'') (\<lambda>decls.
     seqM (visit_decls C (visit_expr C depth) 0 decls)
     (bindM (getM c_result) (\<lambda>r.
      seqM (if r \<noteq> '''' then emit newline else returnM ())
      (seqM (visit_init_part C (visit_block C depth) contract)
      (seqM (visit_functions_part C (visit_block C depth) contract)
        (visit_default_part C (visit_block C depth) contract))))))"

text \<open>The conversion of a contract: its source and the inputs of its functions.\<close>

definition convert_contract ::
  "cenv \<Rightarrow> nat \<Rightarrow> draws \<Rightarrow> msg \<Rightarrow> (string \<times> (string \<times> vy_type list) list) res" where
  "convert_contract C depth r contract =
     bindR (visit C depth contract (init_state r)) (\<lambda>(_, s). Inr (c_result s, function_inputs s))"

end
