(* ===== verification/Samples.thy ===== *)
theory Samples imports Conv_Contract begin

text \<open>
  A concrete environment and small messages, on which the witnesses of the properties run the
  converter.
\<close>

section \<open>Environment\<close>

definition sample_penv :: pyenv where
  "sample_penv =
     \<lparr>decimals = True, checksum_encode = id, max_bits = 10000, max_parens = 200, f_parse = (\<lambda>_. 0),
      f_of_int = (\<lambda>_. None), f_int_div = (\<lambda>_ _. None), f_neg = id, f_bin = (\<lambda>_ _ _. None),
      f_complex = (\<lambda>_ _ _. None), f_less = (\<lambda>_ _. False), f_greater = (\<lambda>_ _. False),
      f_equal = (\<lambda>_ _. False), f_repr = (\<lambda>_. ''0.0'')\<rparr>"

definition sample_env :: cenv where
  "sample_env = \<lparr>penv = sample_penv, conv_class = TypedConverter\<rparr>"

section \<open>Messages\<close>

definition int_lit :: "int \<Rightarrow> msg" where
  "int_lit k = Msg ''IntExpression'' [(''lit'', VMsg (Msg ''Literal'' [(''intval'', VInt k)]))]"

definition int_var :: msg where
  "int_var = Msg ''IntExpression'' [(''varRef'', VMsg (Msg ''VarRef'' []))]"

definition int_bin :: "int \<Rightarrow> msg \<Rightarrow> msg \<Rightarrow> msg" where
  "int_bin k l r = Msg ''IntExpression''
     [(''binOp'', VMsg (Msg ''IntBinOp'' [(''op'', VInt k), (''left'', VMsg l), (''right'', VMsg r)]))]"

definition int_typed :: "msg \<Rightarrow> msg" where
  "int_typed e = Msg ''TypedExpression'' [(''intExp'', VMsg e)]"

definition int_type_field :: "string \<times> fval" where
  "int_type_field = (''i'', VMsg (Msg ''Int'' [(''n'', VInt 255)]))"

definition int_assign :: "msg \<Rightarrow> msg" where
  "int_assign e = Msg ''Statement''
     [(''assignment'', VMsg (Msg ''AssignmentStatement''
        [(''ref_id'', VMsg (Msg ''VarRef'' [int_type_field])), (''expr'', VMsg (int_typed e))]))]"

definition block_of :: "msg list \<Rightarrow> msg" where
  "block_of ss = Msg ''Block'' [(''statements'', VRep ss)]"

definition loop_over :: "msg \<Rightarrow> msg" where
  "loop_over b = Msg ''Statement'' [(''for_stmt'', VMsg (Msg ''ForStmt''
     [(''ranged'', VMsg (Msg ''ForStmtRanged'' [(''start'', VInt 3), (''stop'', VInt 1)])), (''body'', VMsg b)]))]"

definition sample_function :: "msg list \<Rightarrow> msg" where
  "sample_function ss = Msg ''Func''
     [(''vis'', VInt 1), (''input_params'', VRep [Msg ''FuncParam'' [int_type_field]]), (''block'', VMsg (block_of ss))]"

definition sample_contract :: "msg list \<Rightarrow> msg" where
  "sample_contract ss = Msg ''Contract''
     [(''decls'', VRep [Msg ''VarDecl'' [int_type_field]]), (''functions'', VRep [sample_function ss])]"

definition int_state :: conv_state where
  "int_state = (init_state [])\<lparr>type_stack := [IntT 256 False]\<rparr>"

section \<open>Running the methods\<close>

text \<open>
  The methods applied to a state, so that the simplifier unfolds only what runs.
\<close>

lemma bindM_apply:
  "bindM m k s = (case m s of Inl e \<Rightarrow> Inl e | Inr (x, t) \<Rightarrow> k x t)"
  by (simp add: bindM_def)

lemmas run_defs =
  push_type_def [THEN fun_cong] pop_type_def [THEN fun_cong] top_type_def [THEN fun_cong]
  push_op_def [THEN fun_cong] pop_op_def [THEN fun_cong] with_type_def [THEN fun_cong]
  with_op_def [THEN fun_cong] choice_def [THEN fun_cong] raise_mut_def [THEN fun_cong]
  code_offset_def [THEN fun_cong] parens_def [THEN fun_cong] has_def [THEN fun_cong]
  sub_def [THEN fun_cong] num_def [THEN fun_cong] flag_def [THEN fun_cong] rep_def [THEN fun_cong]
  when_has_def [THEN fun_cong] or_else_def [THEN fun_cong] visit_type_def [THEN fun_cong]
  visit_wrapped_type_def [THEN fun_cong] constant_ref_def [THEN fun_cong]
  note_global_def [THEN fun_cong] visit_var_ref_def [THEN fun_cong]
  var_ref_field_def [THEN fun_cong] create_literal_def [THEN fun_cong]
  visit_typed_expression_def [THEN fun_cong] conversion_of_def [THEN fun_cong]
  convert_int_field_def [THEN fun_cong] convert_decimal_field_def [THEN fun_cong]
  convert_field_def [THEN fun_cong] convert_bytesm_field_def [THEN fun_cong]
  visit_conversion_def [THEN fun_cong] literal_field_def [THEN fun_cong]
  convert_or_literal_def [THEN fun_cong] optional_arg_def [THEN fun_cong]
  visit_create_min_proxy_or_copy_of_def [THEN fun_cong] blueprint_raw_args_def [THEN fun_cong]
  visit_create_from_blueprint_def [THEN fun_cong] ec_part_def [THEN fun_cong]
  ecrecover_bytes_def [THEN fun_cong] ec_int_def [THEN fun_cong]
  visit_ecrecover_def [THEN fun_cong] create_var_def [THEN fun_cong]
  result_variable_def [THEN fun_cong] raw_call_output_def [THEN fun_cong]
  raw_call_arg_def [THEN fun_cong] raw_call_status_def [THEN fun_cong]
  raw_call_outputs_def [THEN fun_cong] raw_call_flags_def [THEN fun_cong]
  raw_call_mutability_def [THEN fun_cong] visit_raw_call_def [THEN fun_cong]
  visit_hash256_def [THEN fun_cong] visit_ecadd_def [THEN fun_cong]
  visit_ecmul_def [THEN fun_cong] visit_concat_def [THEN fun_cong] string_part_def [THEN fun_cong]
  bytes_part_def [THEN fun_cong] generate_text_def [THEN fun_cong] list_values_def [THEN fun_cong]
  curve_value_def [THEN fun_cong] visit_list_expression_def [THEN fun_cong]
  operands_def [THEN fun_cong] bin_op_of_def [THEN fun_cong] plain_bin_op_def [THEN fun_cong]
  comparison_def [THEN fun_cong] not_op_def [THEN fun_cong] when_variable_def [THEN fun_cong]
  visit_bool_expression_def [THEN fun_cong] int_bin_op_def [THEN fun_cong]
  int_un_op_def [THEN fun_cong] visit_int_expression_def [THEN fun_cong]
  decimal_un_op_def [THEN fun_cong] visit_decimal_expression_def [THEN fun_cong]
  hash_value_def [THEN fun_cong] visit_bytes_m_expression_def [THEN fun_cong]
  bytes_raw_call_def [THEN fun_cong] visit_bytes_expression_def [THEN fun_cong]
  visit_string_expression_def [THEN fun_cong] visit_address_expression_def [THEN fun_cong]
  visit_handler_def [THEN fun_cong] next_id_of_def [THEN fun_cong]
  register_var_def [THEN fun_cong] remove_level_def [THEN fun_cong]
  enter_block_def [THEN fun_cong] leave_block_def [THEN fun_cong] var_decl_def [THEN fun_cong]
  visit_var_decl_def [THEN fun_cong] visit_assignment_def [THEN fun_cong]
  loop_variable_def [THEN fun_cong] visit_for_stmt_ranged_def [THEN fun_cong]
  visit_for_stmt_variable_def [THEN fun_cong] visit_for_stmt_def [THEN fun_cong]
  scoped_block_def [THEN fun_cong] visit_if_cases_def [THEN fun_cong]
  visit_else_case_def [THEN fun_cong] visit_if_stmt_def [THEN fun_cong]
  visit_selfd_def [THEN fun_cong] visit_raise_statement_def [THEN fun_cong]
  visit_raw_revert_def [THEN fun_cong] visit_raw_log_def [THEN fun_cong]
  visit_assert_stmt_def [THEN fun_cong] visit_send_stmt_def [THEN fun_cong]
  visit_append_stmt_def [THEN fun_cong] visit_pop_stmt_def [THEN fun_cong]
  function_at_def [THEN fun_cong] output_variable_def [THEN fun_cong]
  callee_of_def [THEN fun_cong] visit_func_call_def [THEN fun_cong]
  call_allowed_def [THEN fun_cong] statement_call_def [THEN fun_cong]
  when_has_option_def [THEN fun_cong] loop_control_def [THEN fun_cong]
  visit_statement_def [THEN fun_cong] visit_return_payload_def [THEN fun_cong]
  visit_exit_statement_def [THEN fun_cong] block_body_def [THEN fun_cong]
  visit_input_parameters_def [THEN fun_cong] visit_output_parameters_def [THEN fun_cong]
  visit_reentrancy_def [THEN fun_cong] reentrancy_of_def [THEN fun_cong]
  set_constant_def [THEN fun_cong] var_decl_global_def [THEN fun_cong]
  set_level_def [THEN fun_cong] set_mut_def [THEN fun_cong] function_body_def [THEN fun_cong]
  update_function_def [THEN fun_cong] visit_func_def [THEN fun_cong]
  visit_init_immutables_def [THEN fun_cong] note_inputs_def [THEN fun_cong]
  visit_init_def [THEN fun_cong] visit_default_func_def [THEN fun_cong] emit_def [THEN fun_cong]
  set_output_def [THEN fun_cong] convert_function_def [THEN fun_cong]
  visit_init_part_def [THEN fun_cong] register_contract_functions_def [THEN fun_cong]
  order_functions_def [THEN fun_cong] visit_default_part_def [THEN fun_cong]
  visit_functions_part_def [THEN fun_cong] visit_def [THEN fun_cong]
  first_of.simps [THEN fun_cong] concat_rest.simps [THEN fun_cong] pad_list.simps [THEN fun_cong]
  list_items.simps [THEN fun_cong] visit_expr.simps [THEN fun_cong]
  visit_cases.simps [THEN fun_cong] output_variables.simps [THEN fun_cong]
  visit_payloads.simps [THEN fun_cong] visit_statements.simps [THEN fun_cong]
  visit_block.simps [THEN fun_cong] input_parameters.simps [THEN fun_cong]
  output_parameters.simps [THEN fun_cong] visit_decls.simps [THEN fun_cong]
  convert_functions.simps [THEN fun_cong] render_functions.simps [THEN fun_cong]

lemmas run = run_defs bindM_apply schema_eval proto_message_def HasField_def get_msg_def get_int_def
  get_bool_def get_str_def get_bytes_def get_rep_def present_def is_int_kind_def hasattr_def
  sample_penv_def sample_env_def has_soft_def py_has_field_def draw_def

lemma TYPE_DEPTH_Suc: "TYPE_DEPTH = Suc (Suc (Suc 0))"
  by (simp add: TYPE_DEPTH_def)

lemmas sample_defs = int_lit_def int_var_def int_bin_def int_typed_def int_type_field_def int_assign_def
  block_of_def loop_over_def sample_function_def sample_contract_def int_state_def init_state_def
  visit_handler_def TYPE_DEPTH_Suc

end
