(* ===== verification/Conv_Frame.thy ===== *)
theory Conv_Frame imports Conv_Contract begin

text \<open>
  What converting an expression may change. The frame of an expression is a relation between the
  states before and after; the rules in \<open>keeps\<close> reduce it to the calls in a method's body.
\<close>

section \<open>The frame of an expression\<close>

text \<open>
  Only the random draws and the mutability change; the mutability never falls, and not at all while
  a constant is converted.
\<close>

definition expr_frame :: "conv_state \<Rightarrow> conv_state \<Rightarrow> bool" where
  "expr_frame s t \<longleftrightarrow>
     (\<exists>r k. t = s\<lparr>rng := r, mut_level := k\<rparr> \<and> mut_level s \<le> k \<and> (is_constant s \<longrightarrow> k = mut_level s))"

lemma expr_frame_refl: "expr_frame s s"
  unfolding expr_frame_def by (rule exI [of _ "rng s"], rule exI [of _ "mut_level s"]) simp

lemma expr_frame_trans: "expr_frame s t \<Longrightarrow> expr_frame t u \<Longrightarrow> expr_frame s u"
proof -
  assume "expr_frame s t" "expr_frame t u"
  then obtain r k r' k' where t: "t = s\<lparr>rng := r, mut_level := k\<rparr>" and u: "u = t\<lparr>rng := r', mut_level := k'\<rparr>"
    and le: "mut_level s \<le> k" "mut_level t \<le> k'"
    and const: "is_constant s \<longrightarrow> k = mut_level s" "is_constant t \<longrightarrow> k' = mut_level t"
    unfolding expr_frame_def by blast
  have "u = s\<lparr>rng := r', mut_level := k'\<rparr>" unfolding u t by simp
  moreover have "mut_level s \<le> k'" "is_constant s \<longrightarrow> k' = mut_level s" using le const unfolding t by simp_all
  ultimately show "expr_frame s u" unfolding expr_frame_def by blast
qed

lemma expr_frame_rng: "expr_frame s (s\<lparr>rng := r\<rparr>)"
  unfolding expr_frame_def by (rule exI [of _ r], rule exI [of _ "mut_level s"]) simp

interpretation expr: frame_rel expr_frame
  by unfold_locales (rule expr_frame_refl, erule (1) expr_frame_trans)

lemma expr_frame_fields:
  assumes "expr_frame s t"
  shows "type_stack t = type_stack s" "op_stack t = op_stack s" "tracker t = tracker s"
    "block_level t = block_level s" "is_constant t = is_constant s" "funcs t = funcs s"
    "for_count t = for_count s" "function_output t = function_output s" "c_result t = c_result s"
    "call_map t = call_map s" "current_func t = current_func s" "immutable_exp t = immutable_exp s"
    "function_inputs t = function_inputs s" "mut_level s \<le> mut_level t"
    "is_constant s \<Longrightarrow> mut_level t = mut_level s"
  using assms by (auto simp: expr_frame_def)

section \<open>The primitive steps\<close>

lemma keeps_top [keeps]: "expr.keepsM top_type"
  by (rule expr.keepsI) (auto simp: top_type_def expr_frame_refl split: list.splits)

lemma keeps_choice [keeps]: "expr.keepsM (choice xs)"
proof (rule expr.keepsI)
  fix s x t
  assume "choice xs s = Inr (x, t)"
  then have "t = s\<lparr>rng := snd (draw (rng s))\<rparr>" by (auto simp: choice_def split_beta split: if_splits)
  then show "expr_frame s t" by (simp add: expr_frame_rng)
qed

lemma keeps_with_type [keeps]: "expr.keepsM m \<Longrightarrow> expr.keepsM (with_type t m)"
proof (rule expr.keepsI)
  fix s x u
  assume m: "expr.keepsM m" and run: "with_type t m s = Inr (x, u)"
  obtain v where v: "m (s\<lparr>type_stack := t # type_stack s\<rparr>) = Inr (x, v)" and u: "pop_type v = Inr ((), u)"
    using run by (auto simp: with_type_def push_type_def bindM_Inr_iff)
  have "expr_frame (s\<lparr>type_stack := t # type_stack s\<rparr>) v" using expr.keepsD [OF m v] .
  then obtain r k where v': "v = s\<lparr>type_stack := t # type_stack s, rng := r, mut_level := k\<rparr>"
    and k: "mut_level s \<le> k" "is_constant s \<longrightarrow> k = mut_level s"
    unfolding expr_frame_def by auto
  have "u = s\<lparr>rng := r, mut_level := k\<rparr>" using u unfolding v' by (simp add: pop_type_def)
  then show "expr_frame s u" unfolding expr_frame_def using k by blast
qed

lemma keeps_with_op [keeps]: "expr.keepsM m \<Longrightarrow> expr.keepsM (with_op opr m)"
proof (rule expr.keepsI)
  fix s x u
  assume m: "expr.keepsM m" and run: "with_op opr m s = Inr (x, u)"
  obtain v where v: "m (s\<lparr>op_stack := opr # op_stack s\<rparr>) = Inr (x, v)" and u: "pop_op v = Inr ((), u)"
    using run by (auto simp: with_op_def push_op_def bindM_Inr_iff)
  have "expr_frame (s\<lparr>op_stack := opr # op_stack s\<rparr>) v" using expr.keepsD [OF m v] .
  then obtain r k where v': "v = s\<lparr>op_stack := opr # op_stack s, rng := r, mut_level := k\<rparr>"
    and k: "mut_level s \<le> k" "is_constant s \<longrightarrow> k = mut_level s"
    unfolding expr_frame_def by auto
  have "u = s\<lparr>rng := r, mut_level := k\<rparr>" using u unfolding v' by (simp add: pop_op_def)
  then show "expr_frame s u" unfolding expr_frame_def using k by blast
qed

text \<open>Steps that only read, and the fields of messages.\<close>

lemma keeps_reads [keeps]:
  "expr.keepsM (parens txt)" "expr.keepsM code_offset" "expr.keepsM (has C m f)"
  "expr.keepsM (sub C m f)" "expr.keepsM (num C m f)" "expr.keepsM (flag C m f)"
  "expr.keepsM (rep C m f)" "expr.keepsM (visit_type C m)" "expr.keepsM (visit_wrapped_type C m)"
  unfolding parens_def code_offset_def has_def sub_def num_def flag_def rep_def visit_type_def
    visit_wrapped_type_def
  by (rule keeps)+

lemma keeps_when_has [keeps]: "expr.keepsM k \<Longrightarrow> expr.keepsM (when_has C m f k)"
  unfolding when_has_def by (intro keeps)

lemma keeps_or_else [keeps]: "expr.keepsM m \<Longrightarrow> expr.keepsM k \<Longrightarrow> expr.keepsM (or_else m k)"
  unfolding or_else_def by (intro keeps)

lemma keeps_first_of [keeps]:
  "expr.keepsM (first_of [])"
  "expr.keepsM m \<Longrightarrow> expr.keepsM (first_of ms) \<Longrightarrow> expr.keepsM (first_of (m # ms))"
  by (auto intro!: keeps)

section \<open>Variable references change at most the mutability\<close>

text \<open>
  Raising the mutability is only allowed outside constants; the state is tested where the step runs.
\<close>

lemma expr_frame_raise: "\<not> is_constant s \<Longrightarrow> raise_mut k s = Inr (x, t) \<Longrightarrow> expr_frame s t"
  unfolding raise_mut_def expr_frame_def
  by (auto intro!: exI [of _ "rng s"] exI [of _ "mut_level t"])

lemma is_constant_raise: "raise_mut k s = Inr (x, t) \<Longrightarrow> is_constant t = is_constant s"
  by (auto simp: raise_mut_def split: if_splits)

text \<open>A method that keeps the frame when it starts outside constants.\<close>

definition nc_frame :: "conv_state \<Rightarrow> conv_state \<Rightarrow> bool" where
  "nc_frame s t \<longleftrightarrow> (\<not> is_constant s \<longrightarrow> expr_frame s t)"

interpretation nc: frame_rel nc_frame
proof
  fix s t u
  assume "nc_frame s t" "nc_frame t u"
  then show "nc_frame s u"
    using expr_frame_fields(5) [of s t] expr_frame_trans [of s t u] by (auto simp: nc_frame_def)
qed (simp add: nc_frame_def expr_frame_refl)

lemma keeps_ncI: "expr.keepsM m \<Longrightarrow> nc.keepsM m"
  by (simp add: nc.keepsM_def expr.keepsM_def nc_frame_def)

lemma nc_raise [keeps]: "nc.keepsM (raise_mut k)"
  using expr_frame_raise by (auto simp: nc.keepsM_def nc_frame_def)

text \<open>The guard on constants turns such a method into one that keeps the frame always.\<close>

lemma keeps_guard:
  assumes "nc.keepsM n" and "expr.keepsM k"
  shows "expr.keepsM (bindM (getM is_constant) (\<lambda>const. if b \<and> \<not> const then n else k))"
    and "expr.keepsM (bindM (getM is_constant) (\<lambda>const. if const then k else n))"
  using assms unfolding expr.keepsM_def nc.keepsM_def nc_frame_def by (auto simp: bindM_Inr_iff)

lemma keeps_when_variable [keeps]:
  assumes "nc.keepsM k"
  shows "expr.keepsM (when_variable C m f k)"
proof -
  have "nc.keepsM (bindM k (\<lambda>x. returnM (Some x)))" by (intro keeps assms)
  from keeps_guard(1) [OF this expr.keeps_return] show ?thesis
    unfolding when_variable_def by (rule expr.keeps_bind [OF keeps_reads(3)])
qed

lemma nc_note [keeps]: "nc.keepsM (note_global assignment v t)"
  unfolding note_global_def by (intro keeps)

lemma keeps_constant_ref [keeps]: "expr.keepsM (constant_ref level t)"
  unfolding constant_ref_def by (intro keeps) (auto intro: keeps split: list.split)

lemma keeps_var_ref [keeps]: "expr.keepsM (visit_var_ref level assignment)"
  unfolding visit_var_ref_def
proof (rule expr.keeps_bind [OF keeps_top], rule keeps_guard(2) [OF _ keeps_constant_ref])
  show "nc.keepsM (bindM (getM (\<lambda>s. get_mutable_variables level t False (tracker s) @
      (if assignment then [] else get_readonly_variables level t (tracker s)))) (\<lambda>vs.
      if vs = [] then returnM None
      else bindM (choice vs) (\<lambda>v. seqM (note_global assignment v t) (returnM (Some v)))))" for t
    by (intro keeps keeps_ncI [OF keeps_choice])
qed

lemma keeps_var_ref_field [keeps]: "expr.keepsM (var_ref_field C m)"
  unfolding var_ref_field_def by (intro keeps)

lemma keeps_literal [keeps]: "expr.keepsM (create_literal C lit)"
  unfolding create_literal_def Let_def by (intro keeps) (auto intro: keeps split: vy_type.split)

section \<open>The handlers keep the frame when the visitor of the sub-expressions does\<close>

text \<open>
  A result variable is only registered by the statement form of \<^verbatim>\<open>raw_call\<close>.
\<close>

lemma keeps_raw_call_parts:
  assumes "expr_size \<noteq> 0 \<or> expr_bool"
  shows "expr.keepsM (raw_call_output max_out expr_size expr_bool)"
    and "expr.keepsM (raw_call_status revert expr_size expr_bool)"
  using assms unfolding raw_call_output_def raw_call_status_def by (auto intro: keeps)

lemma nc_raw_call_mutability: "nc.keepsM (raw_call_mutability static)"
proof (rule nc.keepsI)
  fix s x t
  assume "raw_call_mutability static s = Inr (x, t)"
  then have "t = s\<lparr>rng := rng s, mut_level := mut_level t\<rparr> \<and> mut_level s \<le> mut_level t"
    by (auto simp: raw_call_mutability_def VIEW_def NON_PAYABLE_def)
  then show "nc_frame s t" unfolding nc_frame_def expr_frame_def by blast
qed

locale expr_visitor =
  fixes visitor :: visitor
  assumes visitor_keeps [keeps]: "expr.keepsM (visitor h m)"
begin

lemma keeps_typed_expression [keeps]: "expr.keepsM (visit_typed_expression C visitor e t)"
  unfolding visit_typed_expression_def by (intro keeps)

lemma keeps_conversion_of [keeps]: "expr.keepsM (conversion_of C visitor m t u b)"
  unfolding conversion_of_def by (intro keeps)

lemma keeps_convert_int [keeps]: "expr.keepsM (convert_int_field C visitor m t)"
  unfolding convert_int_field_def by (intro keeps)

lemma keeps_convert_decimal [keeps]: "expr.keepsM (convert_decimal_field C visitor m t)"
  unfolding convert_decimal_field_def
  by (intro keeps) (auto intro: keeps split: vy_type.split)

lemma keeps_convert_field [keeps]: "expr.keepsM (convert_field C visitor m f t u ok)"
  unfolding convert_field_def by (intro keeps)

lemma keeps_convert_bytesm [keeps]: "expr.keepsM (convert_bytesm_field C visitor m t)"
  unfolding convert_bytesm_field_def by (intro keeps)

lemma keeps_conversion [keeps]: "expr.keepsM (visit_conversion C visitor m t)"
  unfolding visit_conversion_def by (intro keeps)

lemma keeps_literal_field [keeps]: "expr.keepsM (literal_field C m)"
  unfolding literal_field_def by (intro keeps)

lemma keeps_convert_or_literal [keeps]: "expr.keepsM (convert_or_literal C visitor m)"
  unfolding convert_or_literal_def by (intro keeps)

lemma keeps_optional_arg [keeps]: "expr.keepsM (optional_arg C visitor m f t h k txt)"
  unfolding optional_arg_def by (intro keeps)

lemma keeps_blueprint_raw_args [keeps]: "expr.keepsM (blueprint_raw_args C visitor m txt)"
  unfolding blueprint_raw_args_def by (intro keeps)

lemma nc_create_min_proxy [keeps]: "nc.keepsM (visit_create_min_proxy_or_copy_of C visitor m name)"
  unfolding visit_create_min_proxy_or_copy_of_def
  by (rule nc.keeps_bind [OF nc_raise], rule keeps_ncI) (intro keeps)

lemma nc_create_from_blueprint [keeps]: "nc.keepsM (visit_create_from_blueprint C visitor m)"
  unfolding visit_create_from_blueprint_def
  by (rule nc.keeps_bind [OF nc_raise], rule keeps_ncI) (intro keeps)

lemma keeps_ecrecover [keeps]: "expr.keepsM (visit_ecrecover C visitor m)"
  unfolding visit_ecrecover_def ecrecover_bytes_def ec_part_def ec_int_def by (intro keeps)

lemma keeps_raw_call_arg [keeps]: "expr.keepsM (raw_call_arg C visitor m f)"
  unfolding raw_call_arg_def by (intro keeps)

lemma keeps_raw_call_outputs:
  assumes "expr_size \<noteq> 0 \<or> expr_bool"
  shows "expr.keepsM (raw_call_outputs C visitor m expr_size expr_bool)"
    and "expr.keepsM (raw_call_flags C m expr_size expr_bool)"
  unfolding raw_call_outputs_def raw_call_flags_def
  by (intro keeps keeps_raw_call_parts assms)+

lemma nc_raw_call [keeps]:
  assumes "expr_size \<noteq> 0 \<or> expr_bool"
  shows "nc.keepsM (visit_raw_call C visitor m expr_size expr_bool)"
  unfolding visit_raw_call_def
  by (intro nc.keeps_bind nc.keeps_prod nc.keeps_let nc_raw_call_mutability nc.keeps_return)
    (rule keeps_ncI, intro keeps keeps_raw_call_outputs assms)+

lemma keeps_hash256 [keeps]: "expr.keepsM (visit_hash256 C visitor m name)"
  unfolding visit_hash256_def by (intro keeps)

lemma keeps_ecadd [keeps]: "expr.keepsM (visit_ecadd C visitor m)"
  unfolding visit_ecadd_def by (intro keeps)

lemma keeps_ecmul [keeps]: "expr.keepsM (visit_ecmul C visitor m)"
  unfolding visit_ecmul_def by (intro keeps)

lemma keeps_concat_rest [keeps]:
  assumes "\<And>m k. expr.keepsM (part m k)"
  shows "expr.keepsM (concat_rest C part max_size es k acc)"
proof (induction es arbitrary: k acc)
  case (Cons e es)
  show ?case unfolding concat_rest.simps by (intro keeps assms Cons.IH)
qed (simp add: expr.keeps_return)

lemma keeps_concat:
  assumes "\<And>m k. expr.keepsM (part m k)"
  shows "expr.keepsM (visit_concat C part m)"
  unfolding visit_concat_def by (intro keeps assms)

lemma keeps_string_part [keeps]: "expr.keepsM (string_part C visitor m k)"
  unfolding string_part_def by (intro keeps)

lemma keeps_bytes_part [keeps]: "expr.keepsM (bytes_part C visitor m k)"
  unfolding bytes_part_def by (intro keeps)

lemma keeps_generate_text [keeps]: "expr.keepsM (generate_text C b)"
proof (rule expr.keepsI)
  fix s x t
  assume "generate_text C b s = Inr (x, t)"
  then show "expr_frame s t" by (auto simp: generate_text_def bindR_Inr_iff expr_frame_rng)
qed

lemma keeps_pad_list [keeps]: "expr.keepsM (pad_list C b k acc)"
proof (induction k arbitrary: acc)
  case (Suc k)
  show ?case unfolding pad_list.simps by (intro keeps Suc.IH)
qed (simp add: expr.keeps_return)

lemma keeps_list_items [keeps]: "expr.keepsM (list_items (visitor h) k es n acc)"
proof (induction es arbitrary: n acc)
  case (Cons e es)
  show ?case unfolding list_items.simps by (intro keeps Cons.IH)
qed (simp add: expr.keeps_return)

lemma keeps_list_values [keeps]: "expr.keepsM (list_values C visitor m t b k)"
  unfolding list_values_def by (intro keeps)

lemma keeps_curve_value [keeps]: "expr.keepsM (curve_value C visitor m b k)"
  unfolding curve_value_def
  by (intro keeps)

lemma keeps_operands [keeps]: "expr.keepsM (operands C visitor h m)"
  unfolding operands_def by (intro keeps)

lemma keeps_operators [keeps]:
  "expr.keepsM (plain_bin_op C visitor h ops m)" "expr.keepsM (comparison C visitor h t m)"
  "expr.keepsM (not_op C visitor m)" "expr.keepsM (int_bin_op C visitor t m)"
  "expr.keepsM (int_un_op C visitor t m)" "expr.keepsM (decimal_un_op C visitor m)"
  unfolding plain_bin_op_def comparison_def not_op_def int_bin_op_def int_un_op_def decimal_un_op_def
    bin_op_of_def
  by (intro keeps)+

lemma keeps_hash_value [keeps]: "expr.keepsM (hash_value C visitor name t m)"
  unfolding hash_value_def by (intro keeps)

lemma keeps_bytes_raw_call [keeps]: "expr.keepsM (bytes_raw_call C visitor t m)"
proof -
  have "nc.keepsM (bindM (liftR (attr_m t)) (\<lambda>k. if 0 < k then
      bindM (bindM (sub C m ''raw_call'') (\<lambda>rc. visit_raw_call C visitor rc k False)) (\<lambda>x. returnM (Some x))
      else returnM None))"
    by (intro keeps keeps_ncI [OF keeps_reads(4)]) simp
  from keeps_guard(1) [OF this expr.keeps_return] show ?thesis
    unfolding bytes_raw_call_def by (rule expr.keeps_bind [OF keeps_reads(3)])
qed

text \<open>The alternatives of a handler, one by one.\<close>

lemma keeps_sub_bind [keeps]: "(\<And>x. nc.keepsM (k x)) \<Longrightarrow> nc.keepsM (bindM (sub C m f) k)"
  by (rule nc.keeps_bind [OF keeps_ncI [OF keeps_reads(4)]])

lemma keeps_int [keeps]: "expr.keepsM (visit_int_expression C visitor m)"
  unfolding visit_int_expression_def by (intro keeps)

lemma keeps_bytes_m [keeps]: "expr.keepsM (visit_bytes_m_expression C visitor m)"
  unfolding visit_bytes_m_expression_def by (intro keeps)

lemma keeps_bool [keeps]: "expr.keepsM (visit_bool_expression C visitor m)"
  unfolding visit_bool_expression_def by (intro keeps) simp

lemma keeps_bytes [keeps]: "expr.keepsM (visit_bytes_expression C visitor m)"
  unfolding visit_bytes_expression_def by (intro keeps keeps_concat)

lemma keeps_decimal [keeps]: "expr.keepsM (visit_decimal_expression C visitor m)"
  unfolding visit_decimal_expression_def by (intro keeps)

lemma keeps_string [keeps]: "expr.keepsM (visit_string_expression C visitor m)"
  unfolding visit_string_expression_def by (intro keeps keeps_concat)

lemma keeps_address [keeps]: "expr.keepsM (visit_address_expression C visitor m)"
  unfolding visit_address_expression_def by (intro keeps)

lemma keeps_list [keeps]: "expr.keepsM (visit_list_expression C visitor m)"
  unfolding visit_list_expression_def by (intro keeps)

lemma keeps_handler: "expr.keepsM (visit_handler C visitor h m)"
  unfolding visit_handler_def by (cases h) (simp_all add: keeps)

end

text \<open>By induction on the depth, the visitor itself.\<close>

lemma keeps_visit_expr: "expr.keepsM (visit_expr C depth h m)"
proof (induction depth arbitrary: h m)
  case (Suc depth)
  then have "expr_visitor (visit_expr C depth)" by unfold_locales
  then show ?case by (simp add: expr_visitor.keeps_handler)
qed (simp add: expr.keeps_raise)

interpretation visit: expr_visitor "visit_expr C depth" for C depth
  by unfold_locales (rule keeps_visit_expr)

end
