(* ===== verification/Conv_Scope.thy ===== *)
theory Conv_Scope imports Conv_Frame begin

text \<open>
  What a statement may change. A statement declares mutable variables of its own block level and
  leaves everything else of the scope as it was; a nested block takes its declarations with it.
\<close>

section \<open>The scope of a state\<close>

text \<open>
  The variables that are alive: as the tracker has them, with numbers that are taken, under distinct
  names, none deeper than the current block.
\<close>

definition scope_at :: "nat \<Rightarrow> decl list \<Rightarrow> var_tracker \<Rightarrow> bool" where
  "scope_at b D tr \<longleftrightarrow>
     tracks D tr \<and> numbered D tr \<and> distinct (map d_name D) \<and> (\<forall>d \<in> set D. d_level d \<le> b)"

abbreviation scope_ok :: "decl list \<Rightarrow> conv_state \<Rightarrow> bool" where
  "scope_ok D s \<equiv> scope_at (block_level s) D (tracker s)"

lemma scope_at_mono: "scope_at b D tr \<Longrightarrow> b \<le> b' \<Longrightarrow> scope_at b' D tr"
  by (auto simp: scope_at_def)

lemma scope_at_next_id [simp]: "scope_at b D (snd (next_id t tr)) = scope_at b D tr"
  by (simp add: scope_at_def)

lemma scope_at_register:
  assumes "scope_at b D tr" and "l \<le> b'" and "b \<le> b'"
    and "numbered_name t (fst (next_id t tr)) (full_name n l mutable)"
  shows "scope_at b' (D @ [Decl (full_name n l mutable) l t (key_of mutable)])
     (register_function_variable n l t mutable (snd (next_id t tr)))"
proof -
  let ?tr = "snd (next_id t tr)"
  have D: "tracks D ?tr" "numbered D ?tr" "distinct (map d_name D)" "\<forall>d \<in> set D. d_level d \<le> b"
    using assms(1) by (simp_all add: scope_at_def)
  have name: "numbered_name t (id_of (var_id_map ?tr) (type_name t) + 1) (full_name n l mutable)"
    using assms(4) by (simp add: next_id_facts)
  then show ?thesis
    using register_function_variable_tracks [OF D(1)] numbered_register [OF D(2) name]
      numbered_fresh [OF D(2) name] D(3,4) assms(2,3)
    by (auto simp: scope_at_def)
qed

lemma scope_at_create:
  assumes "scope_at b D tr" and "l \<le> b" and "create_and_register_variable t l mut tr = Inr (n, tr')"
  shows "scope_at b (D @ [Decl (full_name n l (mut = REGULAR)) l t (key_of (mut = REGULAR))]) tr'"
proof -
  have D: "tracks D tr" "numbered D tr" "distinct (map d_name D)" "\<forall>d \<in> set D. d_level d \<le> b"
    using assms(1) by (simp_all add: scope_at_def)
  show ?thesis
    using create_and_register_fresh [OF D(1,2) assms(3)] D(3,4) assms(2) by (auto simp: scope_at_def)
qed

text \<open>Leaving a level drops its declarations of one kind.\<close>

lemma scope_at_remove:
  assumes "scope_at b D tr"
  shows "scope_at b (filter (\<lambda>d. \<not> (d_key d = key_of mutable \<and> d_level d = l)) D)
     (remove_function_level l mutable tr)"
  using assms remove_function_level_tracks numbered_remove
  by (auto simp: scope_at_def distinct_map intro: inj_on_subset)

text \<open>Declarations of a statement at a level.\<close>

definition locals_at :: "nat \<Rightarrow> decl list \<Rightarrow> bool" where
  "locals_at l N \<longleftrightarrow> (\<forall>d \<in> set N. d_level d = l \<and> d_key d = key_of True)"

lemma locals_at_simps [simp]:
  "locals_at l []" "locals_at l (M @ N) \<longleftrightarrow> locals_at l M \<and> locals_at l N"
  by (auto simp: locals_at_def)

definition scope_grows :: "conv_state \<Rightarrow> conv_state \<Rightarrow> bool" where
  "scope_grows s t \<longleftrightarrow> (\<forall>D. scope_ok D s \<longrightarrow> (\<exists>N. scope_ok (D @ N) t \<and> locals_at (block_level s) N))"

text \<open>What every statement leaves alone.\<close>

definition fixed_part :: "conv_state \<Rightarrow> conv_state \<Rightarrow> bool" where
  "fixed_part s t \<longleftrightarrow>
     op_stack t = op_stack s \<and> block_level t = block_level s \<and> for_count t = for_count s \<and>
     funcs t = funcs s \<and> function_output t = function_output s \<and> current_func t = current_func s \<and>
     call_map t = call_map s \<and> is_constant t = is_constant s \<and> immutable_exp t = immutable_exp s \<and>
     c_result t = c_result s \<and> function_inputs t = function_inputs s \<and> mut_level s \<le> mut_level t"

text \<open>
  The frame of a step that declares variables, and of a statement, which may also leave types on the
  stack.
\<close>

definition decl_frame :: "conv_state \<Rightarrow> conv_state \<Rightarrow> bool" where
  "decl_frame s t \<longleftrightarrow> fixed_part s t \<and> scope_grows s t \<and> type_stack t = type_stack s"

definition stmt_frame :: "conv_state \<Rightarrow> conv_state \<Rightarrow> bool" where
  "stmt_frame s t \<longleftrightarrow> fixed_part s t \<and> scope_grows s t \<and> (\<exists>l. type_stack t = l @ type_stack s)"

lemma scope_grows_refl: "scope_grows s s"
  unfolding scope_grows_def by (intro allI impI exI [of _ "[]"]) simp

lemma scope_grows_trans:
  assumes "scope_grows s t" "scope_grows t u" "block_level t = block_level s"
  shows "scope_grows s u"
  unfolding scope_grows_def
proof (intro allI impI)
  fix D
  assume "scope_ok D s"
  then obtain M where M: "scope_ok (D @ M) t" "locals_at (block_level s) M"
    using assms(1) unfolding scope_grows_def by blast
  then obtain N where "scope_ok ((D @ M) @ N) u" "locals_at (block_level t) N"
    using assms(2) unfolding scope_grows_def by blast
  then show "\<exists>N. scope_ok (D @ N) u \<and> locals_at (block_level s) N"
    using M assms(3) by (intro exI [of _ "M @ N"]) simp
qed

lemma fixed_part_refl: "fixed_part s s"
  by (simp add: fixed_part_def)

lemma fixed_part_trans: "fixed_part s t \<Longrightarrow> fixed_part t u \<Longrightarrow> fixed_part s u"
  by (simp add: fixed_part_def)

interpretation decl: frame_rel decl_frame
proof
  fix s t u
  assume "decl_frame s t" "decl_frame t u"
  then show "decl_frame s u"
    using fixed_part_trans [of s t u] scope_grows_trans [of s t u]
    by (simp add: decl_frame_def fixed_part_def)
qed (simp add: decl_frame_def fixed_part_refl scope_grows_refl)

interpretation stmt: frame_rel stmt_frame
proof
  fix s t u
  assume st: "stmt_frame s t" "stmt_frame t u"
  then have "block_level t = block_level s" by (simp add: stmt_frame_def fixed_part_def)
  moreover obtain l l' where "type_stack t = l @ type_stack s" "type_stack u = l' @ type_stack t"
    using st by (auto simp: stmt_frame_def)
  then have "type_stack u = (l' @ l) @ type_stack s" by simp
  ultimately show "stmt_frame s u"
    using st fixed_part_trans [of s t u] scope_grows_trans [of s t u]
    unfolding stmt_frame_def by blast
qed (simp add: stmt_frame_def fixed_part_refl scope_grows_refl)

text \<open>From expressions to declarations to statements.\<close>

lemma scope_grows_same:
  "tracker t = tracker s \<Longrightarrow> block_level t = block_level s \<Longrightarrow> scope_grows s t"
  unfolding scope_grows_def by (intro allI impI exI [of _ "[]"]) simp

lemma expr_decl_frame: "expr_frame s t \<Longrightarrow> decl_frame s t"
  unfolding decl_frame_def fixed_part_def
  by (simp add: expr_frame_fields scope_grows_same)

lemma decl_stmt_frame: "decl_frame s t \<Longrightarrow> stmt_frame s t"
  by (simp add: decl_frame_def stmt_frame_def)

lemma declI: "expr.keepsM m \<Longrightarrow> decl.keepsM m"
  using expr_decl_frame by (auto simp: decl.keepsM_def expr.keepsM_def)

lemma stmtI: "decl.keepsM m \<Longrightarrow> stmt.keepsM m"
  using decl_stmt_frame by (auto simp: decl.keepsM_def stmt.keepsM_def)

lemmas stmt_exprI = stmtI [OF declI]

section \<open>Steps that declare\<close>

lemma decl_raise [keeps]: "decl.keepsM (raise_mut k)"
  by (rule decl.keepsI) (auto simp: raise_mut_def decl_frame_def fixed_part_def scope_grows_refl
      scope_grows_same split: if_splits)

lemma decl_with_type [keeps]: "decl.keepsM m \<Longrightarrow> decl.keepsM (with_type t m)"
proof (rule decl.keepsI)
  fix s x u
  assume m: "decl.keepsM m" and run: "with_type t m s = Inr (x, u)"
  let ?s = "s\<lparr>type_stack := t # type_stack s\<rparr>"
  obtain v where v: "m ?s = Inr (x, v)" and u: "pop_type v = Inr ((), u)"
    using run by (auto simp: with_type_def push_type_def bindM_Inr_iff)
  have "decl_frame ?s v" using decl.keepsD [OF m v] .
  then have v': "fixed_part s v" "scope_grows ?s v" "type_stack v = t # type_stack s"
    by (simp_all add: decl_frame_def fixed_part_def)
  then have "u = v\<lparr>type_stack := type_stack s\<rparr>" using u by (simp add: pop_type_def)
  then show "decl_frame s u" using v' by (simp add: decl_frame_def fixed_part_def scope_grows_def)
qed

text \<open>The frame from a state at a known block level.\<close>

definition frame_at :: "nat \<Rightarrow> conv_state \<Rightarrow> conv_state \<Rightarrow> bool" where
  "frame_at l s t \<longleftrightarrow> (block_level s = l \<longrightarrow> decl_frame s t)"

interpretation at: frame_rel "frame_at l" for l
proof
  fix s t u
  assume "frame_at l s t" "frame_at l t u"
  then show "frame_at l s u"
    using decl.trans [of s t u] by (auto simp: frame_at_def decl_frame_def fixed_part_def)
qed (simp add: frame_at_def decl.refl)

lemma atI: "decl.keepsM m \<Longrightarrow> at.keepsM l m"
  by (simp add: decl.keepsM_def at.keepsM_def frame_at_def)

lemma decl_level: "(\<And>l. at.keepsM l (k l)) \<Longrightarrow> decl.keepsM (bindM (getM block_level) k)"
  by (auto simp: decl.keepsM_def at.keepsM_def frame_at_def bindM_Inr_iff)

text \<open>A new declaration of the current level.\<close>

lemma decl_frame_tracker:
  assumes "\<And>D. scope_ok D s \<Longrightarrow> \<exists>N. scope_at (block_level s) (D @ N) tr \<and> locals_at (block_level s) N"
  shows "decl_frame s (s\<lparr>tracker := tr\<rparr>)"
  using assms by (simp add: decl_frame_def fixed_part_def scope_grows_def)

lemma create_var_at [keeps]: "at.keepsM l (create_var t l REGULAR)"
proof (rule at.keepsI)
  fix s n s'
  assume "create_var t l REGULAR s = Inr (n, s')"
  then obtain tr where tr: "create_and_register_variable t l REGULAR (tracker s) = Inr (n, tr)"
    and s': "s' = s\<lparr>tracker := tr\<rparr>" by (auto simp: create_var_def bindR_Inr_iff)
  have "decl_frame s (s\<lparr>tracker := tr\<rparr>)" if "block_level s = l"
  proof (rule decl_frame_tracker)
    fix D
    assume "scope_ok D s"
    from scope_at_create [OF this _ tr] that
    show "\<exists>N. scope_at (block_level s) (D @ N) tr \<and> locals_at (block_level s) N"
      by (intro exI [of _ "[Decl (full_name n l True) l t (key_of True)]"]) (simp add: locals_at_def)
  qed
  then show "frame_at l s s'" by (simp add: frame_at_def s')
qed

section \<open>Statements\<close>

text \<open>A name taken by \<open>next_id\<close> is registered after the expression, which changes nothing.\<close>

lemma decl_numbered_var:
  assumes "expr.keepsM m"
  shows "decl.keepsM (bindM (next_id_of t) (\<lambda>idx. bindM m (\<lambda>v. bindM (getM block_level) (\<lambda>level.
     seqM (register_var (var_name ''x'' t idx) level t True) (returnM (g idx v level))))))"
proof (rule decl.keepsI)
  fix s u :: conv_state and x
  let ?i = "fst (next_id t (tracker s))" and ?tr = "snd (next_id t (tracker s))"
  let ?n = "var_name ''x'' t ?i"
  assume "bindM (next_id_of t) (\<lambda>idx. bindM m (\<lambda>v. bindM (getM block_level) (\<lambda>level.
     seqM (register_var (var_name ''x'' t idx) level t True) (returnM (g idx v level))))) s = Inr (x, u)"
  then obtain v s2 where m: "m (s\<lparr>tracker := ?tr\<rparr>) = Inr (v, s2)"
    and u: "u = s2\<lparr>tracker := register_function_variable ?n (block_level s2) t True (tracker s2)\<rparr>"
    by (auto simp: next_id_of_def register_var_def bindM_Inr_iff split_beta Let_def)
  have s2: "expr_frame (s\<lparr>tracker := ?tr\<rparr>) s2" using expr.keepsD [OF assms m] .
  have same: "block_level s2 = block_level s" "tracker s2 = ?tr"
    using expr_frame_fields [OF s2] by simp_all
  have "numbered_name t ?i (full_name ?n (block_level s) True)"
    unfolding numbered_name_def full_name_def name_prefixes_def var_name_def by simp
  then have "scope_at (block_level s) (D @ [Decl (full_name ?n (block_level s) True) (block_level s) t (key_of True)])
      (tracker u)" if "scope_ok D s" for D
    using scope_at_register [OF that, where t = t and n = ?n and mutable = True] same u by simp
  then have "\<exists>N. scope_at (block_level s) (D @ N) (tracker u) \<and> locals_at (block_level s) N" if "scope_ok D s" for D
    using that by (intro exI [of _ "[Decl (full_name ?n (block_level s) True) (block_level s) t (key_of True)]"])
      (simp add: locals_at_def)
  then show "decl_frame s u"
    using expr_frame_fields [OF s2] by (simp add: u decl_frame_def fixed_part_def scope_grows_def)
qed

lemma decl_note [keeps]: "decl.keepsM (note_global assignment v t)"
  unfolding note_global_def by (intro keeps)

lemma decl_result_variable [keeps]: "decl.keepsM (result_variable t)"
  unfolding result_variable_def
  by (rule decl_level) (intro keeps, rule atI, rule declI, intro keeps)

lemma decl_output_variable [keeps]: "decl.keepsM (output_variable t vs)"
  unfolding output_variable_def
  by (rule decl_level) (intro keeps | rule atI | rule declI)+

lemma decl_output_variables [keeps]: "decl.keepsM (output_variables ts vs acc)"
proof (induction ts arbitrary: vs acc)
  case (Cons t ts)
  show ?case unfolding output_variables.simps by (intro keeps Cons.IH)
qed (simp add: decl.keeps_return)

lemma decl_raw_call_mutability [keeps]: "decl.keepsM (raw_call_mutability static)"
  by (rule decl.keepsI) (auto simp: raw_call_mutability_def decl_frame_def fixed_part_def
      scope_grows_same VIEW_def NON_PAYABLE_def)

lemma decl_raw_call_parts [keeps]:
  "decl.keepsM (raw_call_output k n b)" "decl.keepsM (raw_call_status r n b)"
  unfolding raw_call_output_def raw_call_status_def by (intro keeps)+

text \<open>
  A type that is pushed and, on some paths, left on the stack: what follows the push may take one
  type off.
\<close>

definition may_pop :: "'a conv \<Rightarrow> bool" where
  "may_pop m \<longleftrightarrow> (\<forall>s x u. m s = Inr (x, u) \<longrightarrow>
     fixed_part s u \<and> scope_grows s u \<and> (\<exists>l. type_stack u = l @ tl (type_stack s)))"

lemma may_pop_decl: "decl.keepsM m \<Longrightarrow> may_pop m"
  unfolding may_pop_def decl.keepsM_def decl_frame_def
  by (metis append_Cons append_Nil list.exhaust_sel list.sel(2))

lemma may_pop_pop: "may_pop (seqM pop_type (returnM x))"
  by (auto simp: may_pop_def bindM_Inr_iff pop_type_def fixed_part_def scope_grows_same split: list.splits)

lemma may_pop_bind:
  assumes "decl.keepsM m" and "\<And>x. may_pop (k x)"
  shows "may_pop (bindM m k)"
  unfolding may_pop_def
proof (intro allI impI)
  fix s x u
  assume "bindM m k s = Inr (x, u)"
  then obtain y v where m: "m s = Inr (y, v)" and k: "k y v = Inr (x, u)" by (rule bindM_InrE)
  have sv: "decl_frame s v" using decl.keepsD [OF assms(1) m] .
  moreover have "fixed_part v u \<and> scope_grows v u \<and> (\<exists>l. type_stack u = l @ tl (type_stack v))"
    using assms(2) k unfolding may_pop_def by blast
  ultimately show "fixed_part s u \<and> scope_grows s u \<and> (\<exists>l. type_stack u = l @ tl (type_stack s))"
    using fixed_part_trans [of s v u] scope_grows_trans [of s v u]
    by (auto simp: decl_frame_def fixed_part_def)
qed

lemma may_pop_option:
  "may_pop n \<Longrightarrow> (\<And>x. may_pop (f x)) \<Longrightarrow> may_pop (case z of None \<Rightarrow> n | Some x \<Rightarrow> f x)"
  by (cases z) simp_all

lemma stmt_push:
  assumes "may_pop m"
  shows "stmt.keepsM (seqM (push_type t) m)"
proof (rule stmt.keepsI)
  fix s x u
  assume "seqM (push_type t) m s = Inr (x, u)"
  then have "m (s\<lparr>type_stack := t # type_stack s\<rparr>) = Inr (x, u)"
    by (simp add: push_type_def bindM_Inr_iff)
  then show "stmt_frame s u"
    using assms unfolding may_pop_def by (fastforce simp: stmt_frame_def fixed_part_def scope_grows_def)
qed

lemma keeps_function_at [keeps]: "expr.keepsM (function_at i)"
  by (rule expr.keepsI) (auto simp: function_at_def expr_frame_refl split: if_splits)

context expr_visitor
begin

lemma decl_var_decl [keeps]: "decl.keepsM (var_decl C visitor e t)"
  unfolding var_decl_def Let_def
  by (rule decl_with_type, rule decl_numbered_var) (intro keeps)

lemma decl_visit_var_decl [keeps]: "decl.keepsM (visit_var_decl C visitor m)"
  unfolding visit_var_decl_def by (intro keeps | rule declI)+

lemma keeps_payloads [keeps]: "expr.keepsM (visit_payloads C visitor m ps)"
proof (induction ps)
  case (Cons p ps)
  show ?case by (cases p) (simp only: visit_payloads.simps, intro keeps Cons.IH)
next
  case Nil
  show ?case unfolding visit_payloads.simps by (rule expr.keeps_return)
qed

lemma decl_raw_call [keeps]: "decl.keepsM (visit_raw_call C visitor m k b)"
  unfolding visit_raw_call_def raw_call_outputs_def raw_call_flags_def
  by (intro keeps | rule declI)+

lemma decl_func_call [keeps]: "decl.keepsM (visit_func_call C visitor m)"
  unfolding visit_func_call_def callee_of_def by (intro keeps | rule declI)+

lemma decl_simple_statements [keeps]:
  "decl.keepsM (visit_selfd C visitor m)" "decl.keepsM (visit_raise_statement C visitor m)"
  "decl.keepsM (visit_raw_revert C visitor m)" "decl.keepsM (visit_raw_log C visitor m)"
  "decl.keepsM (visit_assert_stmt C visitor m)" "decl.keepsM (visit_send_stmt C visitor m)"
  unfolding visit_selfd_def visit_raise_statement_def visit_raw_revert_def visit_raw_log_def
    visit_assert_stmt_def visit_send_stmt_def Let_def
  by (intro keeps | rule declI)+

lemma decl_append [keeps]: "decl.keepsM (visit_append_stmt C visitor m)"
  unfolding visit_append_stmt_def by (intro keeps | rule declI)+

lemma stmt_assignment [keeps]: "stmt.keepsM (visit_assignment C visitor m)"
  unfolding visit_assignment_def
  by (rule stmt.keeps_bind [OF stmt_exprI], intro keeps, rule stmt_push)
    (intro may_pop_bind may_pop_option may_pop_pop may_pop_decl [OF decl_var_decl] declI keeps)

end

lemma stmt_pop_stmt [keeps]: "stmt.keepsM visit_pop_stmt"
  unfolding visit_pop_stmt_def
  by (rule stmt.keeps_bind [OF stmt_exprI], intro keeps, rule stmt_push)
    (intro may_pop_bind may_pop_option may_pop_pop may_pop_decl declI keeps)

text \<open>
  A nested block: what it declares is gone when its level is left.
\<close>

lemma filter_locals:
  assumes "locals_at l N"
  shows "filter (\<lambda>d. \<not> (d_key d = key_of True \<and> d_level d = l)) N = []"
  using assms by (auto simp: locals_at_def filter_empty_conv)

lemma filter_outer:
  assumes "\<forall>d \<in> set D. d_level d \<le> b"
  shows "filter (\<lambda>d. \<not> (d_key d = k \<and> d_level d = b + 1)) D = D"
  using assms by (intro filter_True) auto

lemma scope_at_leave:
  assumes "scope_at (b + 1) (D @ N) tr" and "locals_at (b + 1) N" and "\<forall>d \<in> set D. d_level d \<le> b"
  shows "scope_at b D (remove_function_level (b + 1) True tr)"
  using scope_at_remove [OF assms(1), where mutable = True and l = "b + 1"]
    filter_locals [OF assms(2)] filter_outer [OF assms(3)] assms(3)
  by (simp add: scope_at_def)

text \<open>A step after which the scope is what it was before.\<close>

definition closed_frame :: "conv_state \<Rightarrow> conv_state \<Rightarrow> bool" where
  "closed_frame s t \<longleftrightarrow>
     fixed_part s t \<and> (\<forall>D. scope_ok D s \<longrightarrow> scope_ok D t) \<and> (\<exists>l. type_stack t = l @ type_stack s)"

lemma closed_stmt_frame: "closed_frame s t \<Longrightarrow> stmt_frame s t"
  unfolding closed_frame_def stmt_frame_def scope_grows_def
  by (metis append_Nil2 locals_at_simps(1))

lemma scoped_block_closed:
  assumes "\<And>m. stmt.keepsM (blk m)" and "scoped_block blk m s = Inr (x, u)"
  shows "closed_frame s u"
proof -
  let ?b = "block_level s"
  let ?s = "s\<lparr>block_level := ?b + 1\<rparr>"
  obtain v where v: "blk m ?s = Inr (x, v)"
    and u: "u = v\<lparr>tracker := remove_function_level (block_level v) True (tracker v),
      block_level := block_level v - 1\<rparr>"
    using assms(2)
    by (auto simp: scoped_block_def enter_block_def remove_level_def leave_block_def bindM_Inr_iff)
  have sv: "stmt_frame ?s v" using stmt.keepsD [OF assms(1) v] .
  then have lv: "block_level v = ?b + 1" by (simp add: stmt_frame_def fixed_part_def)
  have "scope_ok D u" if D: "scope_ok D s" for D
  proof -
    have "scope_ok D ?s" using scope_at_mono [OF D] by simp
    then obtain N where "scope_ok (D @ N) v" "locals_at (?b + 1) N"
      using sv unfolding stmt_frame_def scope_grows_def by fastforce
    then show ?thesis using scope_at_leave [of ?b D N "tracker v"] D lv by (simp add: u scope_at_def)
  qed
  then show ?thesis using sv lv by (simp add: closed_frame_def stmt_frame_def fixed_part_def u)
qed

lemma stmt_scoped_block [keeps]:
  assumes "\<And>m. stmt.keepsM (blk m)"
  shows "stmt.keepsM (scoped_block blk m)"
  by (rule stmt.keepsI) (rule closed_stmt_frame [OF scoped_block_closed [OF assms]])

section \<open>Loops\<close>

text \<open>The variable of a loop is registered in the level of the body, before the body is entered.\<close>

definition header_frame :: "conv_state \<Rightarrow> conv_state \<Rightarrow> bool" where
  "header_frame s t \<longleftrightarrow>
     fixed_part s t \<and> type_stack t = type_stack s \<and>
     (\<forall>D. scope_ok D s \<longrightarrow>
       (\<exists>d. d_level d = block_level s + 1 \<and> d_key d = key_of False \<and>
         scope_at (block_level s + 1) (D @ [d]) (tracker t)))"

lemma loop_variable_frame: "loop_variable s = Inr (x, t) \<Longrightarrow> header_frame s t"
proof -
  let ?t = "IntT 256 False" and ?l = "block_level s + 1"
  let ?i = "fst (next_id ?t (tracker s))" and ?tr = "snd (next_id ?t (tracker s))"
  let ?n = "loop_name ?i"
  assume "loop_variable s = Inr (x, t)"
  then have t: "t = s\<lparr>tracker := register_function_variable ?n ?l ?t False ?tr\<rparr>"
    by (auto simp: loop_variable_def next_id_of_def register_var_def bindM_Inr_iff split_beta Let_def)
  have name: "numbered_name ?t ?i (full_name ?n ?l False)"
    by (simp add: numbered_name_def full_name_def)
  have "\<exists>d. d_level d = ?l \<and> d_key d = key_of False \<and> scope_at ?l (D @ [d]) (tracker t)"
    if "scope_ok D s" for D
    using scope_at_register [OF that _ _ name, of ?l] t
    by (intro exI [of _ "Decl (full_name ?n ?l False) ?l ?t (key_of False)"]) simp
  then show ?thesis by (simp add: header_frame_def fixed_part_def t)
qed

lemma header_frame_after:
  assumes "expr_frame s t" and "header_frame t u"
  shows "header_frame s u"
  using assms expr_frame_fields [OF assms(1)] by (simp add: header_frame_def fixed_part_def)

text \<open>A header: expressions, then the variable.\<close>

definition header_of :: "'a conv \<Rightarrow> bool" where
  "header_of m \<longleftrightarrow> (\<forall>s x t. m s = Inr (x, t) \<longrightarrow> header_frame s t)"

lemma header_bind: "expr.keepsM m \<Longrightarrow> (\<And>x. header_of (k x)) \<Longrightarrow> header_of (bindM m k)"
  unfolding header_of_def expr.keepsM_def bindM_Inr_iff using header_frame_after by blast

lemma header_variable: "header_of (bindM loop_variable (\<lambda>n. returnM (f n)))"
  using loop_variable_frame by (auto simp: header_of_def bindM_Inr_iff)

lemma header_ranged: "header_of (visit_for_stmt_ranged C m)"
  unfolding visit_for_stmt_ranged_def Let_def
  by (intro header_bind keeps) (simp add: header_variable split_beta)

lemma header_for_variable: "header_of (visit_for_stmt_variable C m)"
  unfolding visit_for_stmt_variable_def Let_def
  by (intro header_bind header_variable keeps)

lemma scope_at_leave_loop:
  assumes "scope_at (b + 1) ((D @ [d]) @ N) tr" and "locals_at (b + 1) N"
    and "d_level d = b + 1" "d_key d = key_of False" and "\<forall>d \<in> set D. d_level d \<le> b"
  shows "scope_at b D (remove_function_level (b + 1) False (remove_function_level (b + 1) True tr))"
proof -
  have "filter (\<lambda>d. \<not> (d_key d = key_of True \<and> d_level d = b + 1)) ((D @ [d]) @ N) = D @ [d]"
    using filter_locals [OF assms(2)] filter_outer [OF assms(5)] assms(3,4) by (simp add: key_of_def)
  then have "scope_at (b + 1) (D @ [d]) (remove_function_level (b + 1) True tr)"
    using scope_at_remove [OF assms(1), where mutable = True and l = "b + 1"] by simp
  from scope_at_remove [OF this, where mutable = False and l = "b + 1"] show ?thesis
    using filter_outer [OF assms(5)] assms(3-5) by (simp add: scope_at_def)
qed

lemma for_stmt_closed:
  assumes "\<And>m. stmt.keepsM (blk m)" and run: "visit_for_stmt C blk m s = Inr (x, u)"
  shows "closed_frame s u"
proof -
  let ?b = "block_level s"
  let ?header = "\<lambda>h. if h then bindM (sub C m ''variable'') (visit_for_stmt_variable C)
     else bindM (sub C m ''ranged'') (visit_for_stmt_ranged C)"
  from run obtain h w header s1 bm body s2 where h: "has C m ''variable'' s = Inr (h, w)"
    and header: "?header h w = Inr (header, s1)"
    and bm: "sub C m ''body'' (s1\<lparr>for_count := for_count s1 + 1, block_level := block_level s1 + 1\<rparr>) = Inr (bm, s2)"
    and v: "\<exists>v. blk bm s2 = Inr (body, v) \<and>
      u = v\<lparr>tracker := remove_function_level (block_level v) False (remove_function_level (block_level v) True (tracker v)),
        block_level := block_level v - 1, for_count := for_count v - 1\<rparr>"
    by (fastforce simp: visit_for_stmt_def code_offset_def enter_block_def remove_level_def leave_block_def
        bindM_Inr_iff)
  have same: "w = s" "s2 = s1\<lparr>for_count := for_count s1 + 1, block_level := block_level s1 + 1\<rparr>"
    using h bm by (auto simp: has_def sub_def liftR_Inr_iff)
  have "header_of (?header h)"
    by (simp add: header_bind header_ranged header_for_variable keeps_reads)
  then have s1: "header_frame s s1" using header same(1) unfolding header_of_def by blast
  obtain v where v: "blk bm s2 = Inr (body, v)"
      "u = v\<lparr>tracker := remove_function_level (block_level v) False (remove_function_level (block_level v) True (tracker v)),
        block_level := block_level v - 1, for_count := for_count v - 1\<rparr>"
    using v by blast
  have sv: "stmt_frame s2 v" using stmt.keepsD [OF assms(1) v(1)] .
  have lv: "block_level v = ?b + 1" "for_count v = for_count s + 1"
    using sv s1 same(2) by (simp_all add: stmt_frame_def fixed_part_def header_frame_def)
  have "scope_ok D u" if D: "scope_ok D s" for D
  proof -
    obtain d where d: "d_level d = ?b + 1" "d_key d = key_of False" "scope_ok (D @ [d]) s2"
      using s1 D same(2) by (auto simp: header_frame_def fixed_part_def)
    then obtain N where "scope_ok ((D @ [d]) @ N) v" "locals_at (?b + 1) N"
      using sv lv unfolding stmt_frame_def scope_grows_def fixed_part_def by metis
    then show ?thesis
      using scope_at_leave_loop [of ?b D d N "tracker v"] d D lv by (simp add: v(2) scope_at_def)
  qed
  then show ?thesis
    using sv s1 lv same(2) by (simp add: closed_frame_def stmt_frame_def fixed_part_def header_frame_def v(2))
qed

lemma stmt_for_stmt [keeps]:
  assumes "\<And>m. stmt.keepsM (blk m)"
  shows "stmt.keepsM (visit_for_stmt C blk m)"
  by (rule stmt.keepsI) (rule closed_stmt_frame [OF for_stmt_closed [OF assms]])

section \<open>Blocks\<close>

lemma stmt_when_has [keeps]: "stmt.keepsM k \<Longrightarrow> stmt.keepsM (when_has C m f k)"
  unfolding when_has_def by (intro keeps stmt_exprI [OF keeps_reads(3)])

lemma stmt_when_has_option [keeps]: "stmt.keepsM k \<Longrightarrow> stmt.keepsM (when_has_option C m f k)"
  unfolding when_has_option_def by (intro keeps stmt_exprI [OF keeps_reads(3)])

lemma stmt_or_else [keeps]: "stmt.keepsM m \<Longrightarrow> stmt.keepsM k \<Longrightarrow> stmt.keepsM (or_else m k)"
  unfolding or_else_def by (intro keeps)

lemma stmt_first_of [keeps]:
  "stmt.keepsM (first_of [])"
  "stmt.keepsM m \<Longrightarrow> stmt.keepsM (first_of ms) \<Longrightarrow> stmt.keepsM (first_of (m # ms))"
  by (auto intro!: keeps)

lemma keeps_call_allowed [keeps]: "expr.keepsM (call_allowed C m)"
  unfolding call_allowed_def callee_of_def by (intro keeps)

locale stmt_visitor = expr_visitor visitor for visitor :: visitor +
  fixes blk :: block_visitor
  assumes block_keeps [keeps]: "stmt.keepsM (blk m)"
begin

lemma stmt_cases [keeps]: "stmt.keepsM (visit_cases C visitor blk b ms acc)"
proof (induction ms arbitrary: b acc)
  case (Cons m ms)
  show ?case unfolding visit_cases.simps
    by (intro keeps Cons.IH | rule stmtI | rule declI)+
qed (simp add: stmt.keeps_return)

lemma stmt_if [keeps]: "stmt.keepsM (visit_if_stmt C visitor blk m)"
  unfolding visit_if_stmt_def visit_if_cases_def visit_else_case_def
  by (intro keeps | rule stmtI | rule declI)+

lemma stmt_loop_control [keeps]: "stmt.keepsM (loop_control C m)"
  unfolding loop_control_def by (intro keeps | rule stmtI | rule declI)+

lemma stmt_statement_call [keeps]: "stmt.keepsM (statement_call C visitor m)"
  unfolding statement_call_def by (intro keeps | rule stmtI | rule declI)+

lemma stmt_statement [keeps]: "stmt.keepsM (visit_statement C visitor blk m)"
  unfolding visit_statement_def by (intro keeps | rule stmtI | rule declI)+

lemma stmt_statements [keeps]: "stmt.keepsM (visit_statements C visitor blk ms acc)"
proof (induction ms arbitrary: acc)
  case (Cons m ms)
  show ?case unfolding visit_statements.simps by (intro keeps Cons.IH)
qed (simp add: stmt.keeps_return)

lemma stmt_exit [keeps]: "stmt.keepsM (visit_exit_statement C visitor m b)"
  unfolding visit_exit_statement_def visit_return_payload_def
  by (intro keeps | rule stmtI | rule declI)+

lemma stmt_block_body: "stmt.keepsM (block_body C visitor blk m)"
  unfolding block_body_def by (intro keeps | rule stmtI | rule declI)+

end

lemma keeps_visit_block: "stmt.keepsM (visit_block C depth m)"
proof (induction depth arbitrary: m)
  case (Suc depth)
  then have "stmt_visitor (visit_expr C depth) (visit_block C depth)" by unfold_locales
  then show ?case by (simp add: stmt_visitor.stmt_block_body)
qed (simp add: stmt.keeps_raise)

interpretation block: stmt_visitor "visit_expr C depth" "visit_block C depth" for C depth
  by unfold_locales (rule keeps_visit_block)

end
