(* ===== verification/Conv_Function.thy ===== *)
theory Conv_Function imports Conv_Scope begin

text \<open>
  Scopes across functions: the parameters of a function are read-only variables of level 1, its body
  declares mutable ones, and both are gone when the function has been converted. What remains after
  the whole contract are the global variables.
\<close>

section \<open>Frames of the steps between blocks\<close>

text \<open>Steps that do not touch the scope.\<close>

definition quiet_frame :: "conv_state \<Rightarrow> conv_state \<Rightarrow> bool" where
  "quiet_frame s t \<longleftrightarrow> tracker t = tracker s \<and> block_level t = block_level s"

text \<open>Steps between functions: the global scope is the same afterwards.\<close>

definition base_frame :: "conv_state \<Rightarrow> conv_state \<Rightarrow> bool" where
  "base_frame s t \<longleftrightarrow>
     (block_level s = 0 \<longrightarrow> block_level t = 0 \<and> (\<forall>D. scope_ok D s \<longrightarrow> scope_ok D t))"

text \<open>Steps that may add parameters.\<close>

definition params :: "decl list \<Rightarrow> bool" where
  "params P \<longleftrightarrow> (\<forall>d \<in> set P. d_level d = 1 \<and> d_key d = key_of False)"

definition open_frame :: "conv_state \<Rightarrow> conv_state \<Rightarrow> bool" where
  "open_frame s t \<longleftrightarrow>
     block_level t = block_level s \<and>
     (\<forall>D. scope_at 1 D (tracker s) \<longrightarrow> (\<exists>P. scope_at 1 (D @ P) (tracker t) \<and> params P))"

lemma params_simps [simp]: "params []" "params (P @ Q) \<longleftrightarrow> params P \<and> params Q"
  by (auto simp: params_def)

interpretation quiet: frame_rel quiet_frame
  by unfold_locales (simp_all add: quiet_frame_def)

interpretation base: frame_rel base_frame
  by unfold_locales (auto simp: base_frame_def)

lemma open_frame_refl: "open_frame s s"
  unfolding open_frame_def by (intro conjI allI impI exI [of _ "[]"]) simp_all

interpretation opens: frame_rel open_frame
proof
  fix s t u
  assume st: "open_frame s t" and tu: "open_frame t u"
  show "open_frame s u"
    unfolding open_frame_def
  proof (intro conjI allI impI)
    fix D
    assume "scope_at 1 D (tracker s)"
    then obtain P where P: "scope_at 1 (D @ P) (tracker t)" "params P"
      using st unfolding open_frame_def by blast
    then obtain Q where "scope_at 1 ((D @ P) @ Q) (tracker u)" "params Q"
      using tu unfolding open_frame_def by blast
    then show "\<exists>P. scope_at 1 (D @ P) (tracker u) \<and> params P"
      using P by (intro exI [of _ "P @ Q"]) simp
  qed (use st tu in \<open>simp add: open_frame_def\<close>)
qed (rule open_frame_refl)

lemma quietI: "expr.keepsM m \<Longrightarrow> quiet.keepsM m"
  using expr_frame_fields(3,4) by (auto simp: quiet.keepsM_def expr.keepsM_def quiet_frame_def)

lemma baseI: "quiet.keepsM m \<Longrightarrow> base.keepsM m"
  by (auto simp: quiet.keepsM_def base.keepsM_def quiet_frame_def base_frame_def)

lemma openI: "quiet.keepsM m \<Longrightarrow> opens.keepsM m"
  unfolding quiet.keepsM_def opens.keepsM_def quiet_frame_def
  using open_frame_refl by (fastforce simp: open_frame_def)

lemma quiet_mod: "(\<And>s. tracker (f s) = tracker s \<and> block_level (f s) = block_level s) \<Longrightarrow> quiet.keepsM (modM f)"
  by (rule quiet.keeps_mod) (simp add: quiet_frame_def)

lemma quiet_steps [keeps]:
  "quiet.keepsM (emit acc)" "quiet.keepsM (set_mut k)" "quiet.keepsM (set_constant b)"
  "quiet.keepsM (set_output outs)" "quiet.keepsM (note_inputs f ts)" "quiet.keepsM (update_function i g)"
  "quiet.keepsM (push_type t)" "quiet.keepsM (modM (\<lambda>s. s\<lparr>current_func := j\<rparr>))"
  "quiet.keepsM (modM (\<lambda>s. s\<lparr>immutable_exp := immutable_exp s @ es\<rparr>))"
  unfolding emit_def set_mut_def set_constant_def set_output_def note_inputs_def update_function_def
    push_type_def
  by (rule quiet_mod; simp)+

lemma quiet_pop [keeps]: "quiet.keepsM pop_type"
  by (rule quiet.keepsI) (auto simp: pop_type_def quiet_frame_def split: list.splits)

lemma quiet_reads [keeps]:
  "quiet.keepsM (has C m f)" "quiet.keepsM (sub C m f)" "quiet.keepsM (num C m f)"
  "quiet.keepsM (flag C m f)" "quiet.keepsM (rep C m f)" "quiet.keepsM (visit_type C m)"
  "quiet.keepsM (function_at i)"
  by (rule quietI, rule keeps)+

lemma quiet_outputs [keeps]: "quiet.keepsM (visit_output_parameters C ms)"
proof -
  have "quiet.keepsM (output_parameters C i ms outs)" for i outs
  proof (induction ms arbitrary: i outs)
    case (Cons m ms)
    show ?case unfolding output_parameters.simps by (intro keeps Cons.IH)
  qed (simp add: quiet.keeps_return)
  then show ?thesis by (simp add: visit_output_parameters_def)
qed

lemma quiet_reentrancy [keeps]: "quiet.keepsM (reentrancy_of C m)"
proof -
  have "quiet.keepsM (visit_reentrancy C ret)" for ret
    unfolding visit_reentrancy_def by (cases "conv_class C") (simp_all add: quiet.keeps_lift quiet.keeps_return)
  then show ?thesis unfolding reentrancy_of_def by (intro keeps)
qed

lemma quiet_register [keeps]: "quiet.keepsM (register_contract_functions C fs)"
  "quiet.keepsM (order_functions C fs)"
  by (rule quiet.keepsI, auto simp: register_contract_functions_def order_functions_def bindR_Inr_iff
      quiet_frame_def)+

lemma quiet_render [keeps]: "quiet.keepsM (render_functions order names fs)"
proof (induction fs)
  case (Cons f fs)
  show ?case unfolding render_functions.simps by (intro keeps Cons.IH)
next
  case Nil
  show ?case unfolding render_functions.simps by (rule quiet.keeps_return)
qed

section \<open>Parameters open a scope, a body closes it\<close>

lemma open_create_input [keeps]: "opens.keepsM (create_var t 1 IMMUTABLE)"
proof (rule opens.keepsI)
  fix s n u
  assume "create_var t 1 IMMUTABLE s = Inr (n, u)"
  then obtain tr where tr: "create_and_register_variable t 1 IMMUTABLE (tracker s) = Inr (n, tr)"
    and u: "u = s\<lparr>tracker := tr\<rparr>" by (auto simp: create_var_def bindR_Inr_iff)
  have "\<exists>P. scope_at 1 (D @ P) tr \<and> params P" if "scope_at 1 D (tracker s)" for D
    using scope_at_create [OF that _ tr]
    by (intro exI [of _ "[Decl n 1 t (key_of False)]"])
      (simp add: params_def IMMUTABLE_def REGULAR_def full_name_def)
  then show "open_frame s u" by (simp add: open_frame_def u)
qed

lemma open_inputs [keeps]: "opens.keepsM (visit_input_parameters C ms)"
proof -
  have "opens.keepsM (input_parameters C i ms acc ts names)" for i acc ts names
  proof (induction ms arbitrary: i acc ts names)
    case (Cons m ms)
    show ?case unfolding input_parameters.simps
      by (intro keeps openI [OF quiet_reads(6)] Cons.IH)
  qed (simp add: opens.keeps_return)
  then show ?thesis by (simp add: visit_input_parameters_def)
qed

text \<open>A method that ends the scope of a function that was open when it began.\<close>

definition closes :: "'a conv \<Rightarrow> bool" where
  "closes m \<longleftrightarrow> (\<forall>s x t. m s = Inr (x, t) \<longrightarrow> block_level s = 0 \<longrightarrow>
     block_level t = 0 \<and>
     (\<forall>D P. (\<forall>d \<in> set D. d_level d = 0) \<longrightarrow> params P \<longrightarrow> scope_at 1 (D @ P) (tracker s) \<longrightarrow>
       scope_at 0 D (tracker t)))"

lemma closes_open:
  assumes "opens.keepsM m" and "\<And>x. closes (k x)"
  shows "closes (bindM m k)"
  unfolding closes_def
proof (intro allI impI)
  fix s x t
  assume run: "bindM m k s = Inr (x, t)" and b: "block_level s = 0"
  obtain y u where u: "m s = Inr (y, u)" "k y u = Inr (x, t)" using run by (rule bindM_InrE)
  have su: "open_frame s u" using opens.keepsD [OF assms(1) u(1)] .
  then have bu: "block_level u = 0" using b by (simp add: open_frame_def)
  have ut: "block_level t = 0" "\<And>D P. \<forall>d \<in> set D. d_level d = 0 \<Longrightarrow> params P \<Longrightarrow>
      scope_at 1 (D @ P) (tracker u) \<Longrightarrow> scope_at 0 D (tracker t)"
    using assms(2) u(2) bu unfolding closes_def by blast+
  have "scope_at 0 D (tracker t)"
    if D: "\<forall>d \<in> set D. d_level d = 0" "params P" "scope_at 1 (D @ P) (tracker s)" for D P
  proof -
    obtain Q where "scope_at 1 ((D @ P) @ Q) (tracker u)" "params Q"
      using su D(3) unfolding open_frame_def by blast
    then show ?thesis using ut(2) [of D "P @ Q"] D(1,2) by simp
  qed
  then show "block_level t = 0 \<and> (\<forall>D P. (\<forall>d \<in> set D. d_level d = 0) \<longrightarrow> params P \<longrightarrow>
      scope_at 1 (D @ P) (tracker s) \<longrightarrow> scope_at 0 D (tracker t))"
    using ut(1) by blast
qed

lemma closes_base:
  assumes "closes m" and "\<And>x. base.keepsM (k x)"
  shows "closes (bindM m k)"
  unfolding closes_def
proof (intro allI impI)
  fix s x t
  assume run: "bindM m k s = Inr (x, t)" and b: "block_level s = 0"
  obtain y u where u: "m s = Inr (y, u)" "k y u = Inr (x, t)" using run by (rule bindM_InrE)
  have su: "block_level u = 0" "\<And>D P. \<forall>d \<in> set D. d_level d = 0 \<Longrightarrow> params P \<Longrightarrow>
      scope_at 1 (D @ P) (tracker s) \<Longrightarrow> scope_at 0 D (tracker u)"
    using assms(1) u(1) b unfolding closes_def by blast+
  have "base_frame u t" using base.keepsD [OF assms(2) u(2)] .
  then show "block_level t = 0 \<and> (\<forall>D P. (\<forall>d \<in> set D. d_level d = 0) \<longrightarrow> params P \<longrightarrow>
      scope_at 1 (D @ P) (tracker s) \<longrightarrow> scope_at 0 D (tracker t))"
    using su by (auto simp: base_frame_def)
qed

lemma base_closes:
  assumes "closes m"
  shows "base.keepsM m"
proof (rule base.keepsI)
  fix s x t
  assume run: "m s = Inr (x, t)"
  have "scope_at 0 D (tracker t)" if b: "block_level s = 0" and D: "scope_at 0 D (tracker s)" for D
  proof -
    have "scope_at 1 (D @ []) (tracker s)" using scope_at_mono [OF D, of 1] by simp
    moreover have "\<forall>d \<in> set D. d_level d = 0" using D by (simp add: scope_at_def)
    ultimately show ?thesis using assms run b params_simps(1) unfolding closes_def by blast
  qed
  moreover have "block_level s = 0 \<Longrightarrow> block_level t = 0" using assms run unfolding closes_def by blast
  ultimately show "base_frame s t" by (simp add: base_frame_def)
qed

lemma closes_prod: "(\<And>a b. closes (f a b)) \<Longrightarrow> closes (case p of (a, b) \<Rightarrow> f a b)"
  by (cases p) simp

text \<open>The body of a function drops its own variables and the parameters.\<close>

lemma filter_params:
  "params P \<Longrightarrow> filter (\<lambda>d. \<not> (d_key d = key_of True \<and> d_level d = 1)) P = P"
  "params P \<Longrightarrow> filter (\<lambda>d. \<not> (d_key d = key_of False \<and> d_level d = 1)) P = []"
  by (auto simp: params_def key_of_def filter_empty_conv intro!: filter_True)

lemma scope_at_end_function:
  assumes "scope_at 1 (D @ P @ N) tr" and "\<forall>d \<in> set D. d_level d = 0" and "params P" and "locals_at 1 N"
  shows "scope_at 0 D (remove_function_level 1 False (remove_function_level 1 True tr))"
proof -
  have D: "filter (\<lambda>d. \<not> (d_key d = k \<and> d_level d = 1)) D = D" for k
    using assms(2) by (intro filter_True) auto
  have "scope_at 1 (D @ P) (remove_function_level 1 True tr)"
    using scope_at_remove [OF assms(1), where mutable = True and l = 1] D
      filter_params(1) [OF assms(3)] filter_locals [OF assms(4)] by simp
  from scope_at_remove [OF this, where mutable = False and l = 1] show ?thesis
    using D filter_params(2) [OF assms(3)] assms(2) by (simp add: scope_at_def)
qed

lemma closes_function_body:
  assumes "stmt.keepsM body"
  shows "closes (function_body body)"
  unfolding closes_def
proof (intro allI impI)
  fix s t :: conv_state and x
  let ?s = "s\<lparr>block_level := 1\<rparr>"
  assume "function_body body s = Inr (x, t)"
  then obtain v where v: "body ?s = Inr (x, v)"
    and t: "t = v\<lparr>tracker := remove_function_level (block_level v) False
        (remove_function_level (block_level v) True (tracker v)), block_level := 0\<rparr>"
    by (auto simp: function_body_def set_level_def remove_level_def bindM_Inr_iff)
  have sv: "stmt_frame ?s v" using stmt.keepsD [OF assms v] .
  then have lv: "block_level v = 1" by (simp add: stmt_frame_def fixed_part_def)
  have "scope_at 0 D (tracker t)"
    if D: "\<forall>d \<in> set D. d_level d = 0" "params P" "scope_at 1 (D @ P) (tracker s)" for D P
  proof -
    have "scope_ok (D @ P) ?s" using D(3) by simp
    then obtain N where "scope_ok ((D @ P) @ N) v" "locals_at 1 N"
      using sv unfolding stmt_frame_def scope_grows_def by fastforce
    then show ?thesis using scope_at_end_function [OF _ D(1,2), of N "tracker v"] lv by (simp add: t)
  qed
  then show "block_level t = 0 \<and> (\<forall>D P. (\<forall>d \<in> set D. d_level d = 0) \<longrightarrow> params P \<longrightarrow>
      scope_at 1 (D @ P) (tracker s) \<longrightarrow> scope_at 0 D (tracker t))"
    by (auto simp: t)
qed

section \<open>Functions\<close>

lemma stmt_immutables: "stmt.keepsM visit_init_immutables"
  unfolding visit_init_immutables_def by (rule stmt.keeps_get)

locale function_visitor =
  fixes blk :: block_visitor
  assumes body_keeps: "stmt.keepsM (blk m)"
begin

lemma closes_block: "closes (function_body (bindM (sub C m f) blk))"
  by (rule closes_function_body, rule stmt.keeps_bind)
    (rule stmt_exprI, intro keeps, rule body_keeps)

lemma closes_func: "closes (visit_func C blk i m)"
  unfolding visit_func_def
  by (rule closes_open [OF openI [OF quiet_steps(2)]], rule closes_open [OF openI [OF quiet_steps(8)]],
      rule closes_base [OF closes_block]) (intro baseI keeps)

lemma closes_default: "closes (visit_default_func C blk m)"
  unfolding visit_default_func_def
  by (rule closes_open [OF openI [OF quiet_steps(2)]], rule closes_base [OF closes_block])
    (intro baseI keeps)

lemma closes_init: "closes (visit_init C blk m)"
proof -
  have body: "closes (function_body (bindM visit_init_immutables (\<lambda>imm.
      bindM (bindM (sub C m ''block'') blk) (\<lambda>b. returnM (imm @ b)))))"
    by (rule closes_function_body)
      (intro stmt.keeps_bind stmt_immutables stmt.keeps_return body_keeps stmt_exprI [OF keeps_reads(4)])
  have inputs: "opens.keepsM (bindM (rep C m ''input_params'') (visit_input_parameters C))"
    by (intro keeps openI [OF quiet_reads(5)])
  have note_in: "opens.keepsM (if b then note_inputs f ts else returnM ())" for b f ts
    by (intro keeps openI [OF quiet_steps(5)])
  show ?thesis
    unfolding visit_init_def
    by (rule closes_open [OF openI [OF quiet_steps(2)]], rule closes_open [OF inputs], intro closes_prod,
        rule closes_open [OF note_in], rule closes_base [OF body]) (intro baseI keeps)
qed

lemma closes_convert_function: "base.keepsM (convert_function C blk fs i)"
proof -
  have inputs: "opens.keepsM (bindM (rep C m ''input_params'') (visit_input_parameters C))" for m
    by (intro keeps openI [OF quiet_reads(5)])
  have outputs: "opens.keepsM (bindM (rep C m ''output_params'') (visit_output_parameters C))" for m
    by (intro openI keeps)
  have "closes (bindM (bindM (rep C m ''input_params'') (visit_input_parameters C)) (\<lambda>(_, types, names).
     seqM (update_function i (\<lambda>f. f\<lparr>f_inputs := types\<rparr>))
     (bindM (bindM (rep C m ''output_params'') (visit_output_parameters C)) (\<lambda>outs.
      seqM (update_function i (\<lambda>f. f\<lparr>f_outputs := outs\<rparr>))
      (seqM (set_output outs)
      (seqM (note_inputs (f_name f) types)
      (seqM (visit_func C blk i m) (returnM names))))))))" for m f
    by (rule closes_open [OF inputs], intro closes_prod, rule closes_open [OF openI [OF quiet_steps(6)]],
        rule closes_open [OF outputs], rule closes_open [OF openI [OF quiet_steps(6)]],
        rule closes_open [OF openI [OF quiet_steps(4)]], rule closes_open [OF openI [OF quiet_steps(5)]],
        rule closes_base [OF closes_func], rule base.keeps_return)
  note body = base_closes [OF this]
  show ?thesis
    unfolding convert_function_def Let_def
    by (rule base.keeps_bind [OF baseI [OF quiet_reads(7)]], rule base.keeps_if, rule base.keeps_raise,
        rule body)
qed

lemma base_convert_functions: "base.keepsM (convert_functions C blk fs is)"
proof (induction "is")
  case (Cons i "is")
  show ?case unfolding convert_functions.simps
    by (intro base.keeps_bind closes_convert_function Cons.IH base.keeps_return)
next
  case Nil
  show ?case unfolding convert_functions.simps by (rule base.keeps_return)
qed

lemmas base_steps =
  baseI [OF quiet_reads(1)] baseI [OF quiet_reads(2)] baseI [OF quiet_reads(4)] baseI [OF quiet_reads(5)]
  baseI [OF quiet_steps(1)] baseI [OF quiet_steps(4)] baseI [OF quiet_outputs]
  baseI [OF quiet_register(1)] baseI [OF quiet_register(2)] baseI [OF quiet_render]
  base.keeps_return base.keeps_get

lemma base_init_part: "base.keepsM (visit_init_part C blk m)"
  unfolding visit_init_part_def
  by (intro base_steps base_closes [OF closes_init] base.keeps_if base.keeps_bind)

lemma base_functions_part: "base.keepsM (visit_functions_part C blk m)"
  unfolding visit_functions_part_def
  by (intro base_steps base_convert_functions base.keeps_bind)

lemma base_default_part: "base.keepsM (visit_default_part C blk m)"
  unfolding visit_default_part_def
  by (intro base_steps base_closes [OF closes_default] base.keeps_if base.keeps_bind)

end

interpretation funs: function_visitor "visit_block C depth" for C depth
  by unfold_locales (rule keeps_visit_block)

section \<open>Global variables\<close>

text \<open>
  What a declaration of the contract registers: a variable of level 0 with the type of the message,
  in the dictionary of its mutability, under a numbered name with the prefix of its mutability and
  \<^verbatim>\<open>self.\<close> when it is a storage variable.
\<close>

definition global_decl :: "vy_type \<Rightarrow> int \<Rightarrow> decl \<Rightarrow> bool" where
  "global_decl t mut d \<longleftrightarrow>
     d_level d = 0 \<and> d_type d = t \<and> d_key d = key_of (mut = REGULAR) \<and>
     (\<exists>pre i. var_prefix 0 mut = Inr pre \<and> d_name d = full_name (var_name pre t i) 0 (mut = REGULAR))"

definition declared_by :: "bool \<Rightarrow> msg \<Rightarrow> decl \<Rightarrow> bool" where
  "declared_by dec m d \<longleftrightarrow>
     (\<exists>t mut. extract_vy_type TYPE_DEPTH dec False m = Inr t \<and> get_int dec m ''mut'' = Inr mut \<and> global_decl t mut d)"

definition declares :: "(decl \<Rightarrow> bool) \<Rightarrow> 'a conv \<Rightarrow> bool" where
  "declares P m \<longleftrightarrow> (\<forall>s x t. m s = Inr (x, t) \<longrightarrow>
     block_level t = block_level s \<and>
     (\<forall>D. scope_at 0 D (tracker s) \<longrightarrow> (\<exists>d. P d \<and> scope_at 0 (D @ [d]) (tracker t))))"

lemma create_var_decl:
  assumes "create_and_register_variable t 0 mut tr = Inr (n, tr')"
  shows "global_decl t mut (Decl (full_name n 0 (mut = REGULAR)) 0 t (key_of (mut = REGULAR)))"
  using assms
  by (auto simp: global_decl_def create_and_register_variable_def split_beta bindR_Inr_iff Let_def split: if_splits)

lemma declares_create: "declares (global_decl t mut) (create_var t 0 mut)"
  unfolding declares_def
proof (intro allI impI)
  fix s n u
  assume "create_var t 0 mut s = Inr (n, u)"
  then obtain tr where tr: "create_and_register_variable t 0 mut (tracker s) = Inr (n, tr)"
    and u: "u = s\<lparr>tracker := tr\<rparr>" by (auto simp: create_var_def bindR_Inr_iff)
  show "block_level u = block_level s \<and>
      (\<forall>D. scope_at 0 D (tracker s) \<longrightarrow> (\<exists>d. global_decl t mut d \<and> scope_at 0 (D @ [d]) (tracker u)))"
    using scope_at_create [OF _ _ tr] create_var_decl [OF tr] by (auto simp: u)
qed

lemma declares_after:
  assumes "quiet.keepsM m" and "\<And>s x t. m s = Inr (x, t) \<Longrightarrow> declares P (k x)"
  shows "declares P (bindM m k)"
  using assms unfolding declares_def quiet.keepsM_def quiet_frame_def bindM_Inr_iff by metis

lemma declares_before:
  assumes "declares P m" and "\<And>x. quiet.keepsM (k x)"
  shows "declares P (bindM m k)"
  using assms unfolding declares_def quiet.keepsM_def quiet_frame_def bindM_Inr_iff by metis

lemma declares_with_type: "declares P m \<Longrightarrow> declares P (with_type t m)"
  unfolding with_type_def
  by (rule declares_after [OF quiet_steps(7)], erule declares_before) (intro keeps)

lemma declares_if: "declares P m \<Longrightarrow> declares P n \<Longrightarrow> declares P (if b then m else n)"
  by simp

lemma declares_mono: "declares P m \<Longrightarrow> (\<And>d. P d \<Longrightarrow> Q d) \<Longrightarrow> declares Q m"
  unfolding declares_def by metis

context expr_visitor
begin

lemma declares_global_body:
  "declares (global_decl t mut)
     (if mut = REGULAR then
        bindM (create_var t 0 mut) (\<lambda>name. returnM (name @ '': '' @ vyper_type t))
      else
        seqM (if mut = CONSTANT then set_constant True else returnM ())
        (bindM (bindM (sub C m ''expr'') (\<lambda>e. visit_typed_expression C visitor e t)) (\<lambda>v.
         seqM (set_constant False)
         (bindM (create_var t 0 mut) (\<lambda>name.
          if mut = CONSTANT then
            returnM (name @ '': constant('' @ vyper_type t @ '') = '' @ v)
          else
            seqM (modM (\<lambda>s. s\<lparr>immutable_exp := immutable_exp s @ [(name, v)]\<rparr>))
              (returnM (name @ '': immutable('' @ vyper_type t @ '')'')))))))"
proof -
  have expr: "quiet.keepsM (bindM (sub C m ''expr'') (\<lambda>e. visit_typed_expression C visitor e t))"
    by (rule quietI) (intro keeps)
  have flag: "quiet.keepsM (if mut = CONSTANT then set_constant True else returnM ())" by (intro keeps)
  show ?thesis
    by (rule declares_if, rule declares_before [OF declares_create], rule quiet.keeps_return,
        rule declares_after [OF flag], rule declares_after [OF expr],
        rule declares_after [OF quiet_steps(3)], rule declares_before [OF declares_create])
      (intro keeps)
qed

lemma declares_global: "declares (declared_by (decimals (penv C)) m) (var_decl_global C visitor m)"
  unfolding var_decl_global_def
proof (rule declares_after [OF quiet_reads(6)], rule declares_with_type, rule declares_after [OF quiet_reads(3)])
  fix s t s' s1 mut s1'
  assume "visit_type C m s = Inr (t, s')" and "num C m ''mut'' s1 = Inr (mut, s1')"
  then have "extract_vy_type TYPE_DEPTH (decimals (penv C)) False m = Inr t" "get_int (decimals (penv C)) m ''mut'' = Inr mut"
    by (auto simp: visit_type_def num_def liftR_Inr_iff)
  then have "global_decl t mut d \<Longrightarrow> declared_by (decimals (penv C)) m d" for d
    unfolding declared_by_def by blast
  with declares_global_body [where t = t and mut = mut and m = m and C = C] show "declares (declared_by (decimals (penv C)) m)
     (if mut = REGULAR then
        bindM (create_var t 0 mut) (\<lambda>name. returnM (name @ '': '' @ vyper_type t))
      else
        seqM (if mut = CONSTANT then set_constant True else returnM ())
        (bindM (bindM (sub C m ''expr'') (\<lambda>e. visit_typed_expression C visitor e t)) (\<lambda>v.
         seqM (set_constant False)
         (bindM (create_var t 0 mut) (\<lambda>name.
          if mut = CONSTANT then
            returnM (name @ '': constant('' @ vyper_type t @ '') = '' @ v)
          else
            seqM (modM (\<lambda>s. s\<lparr>immutable_exp := immutable_exp s @ [(name, v)]\<rparr>))
              (returnM (name @ '': immutable('' @ vyper_type t @ '')'')))))))"
    by (rule declares_mono)
qed

text \<open>Every declaration of the contract, up to the limit, becomes a global variable, and nothing else does.\<close>

lemma decls_scope:
  assumes "visit_decls C visitor i ms s = Inr (x, t)" and "scope_at 0 D (tracker s)"
  shows "block_level t = block_level s \<and>
    (\<exists>N. list_all2 (declared_by (decimals (penv C))) (take (MAX_STORAGE_VARIABLES - i) ms) N \<and> scope_at 0 (D @ N) (tracker t))"
  using assms
proof (induction ms arbitrary: i s D)
  case Nil
  then show ?case by (intro conjI exI [of _ "[]"]) simp_all
next
  case (Cons m ms)
  show ?case
  proof (cases "MAX_STORAGE_VARIABLES \<le> i")
    case True
    then show ?thesis using Cons.prems by (intro conjI exI [of _ "[]"]) simp_all
  next
    case False
    then obtain v u where u: "var_decl_global C visitor m s = Inr (v, u)"
      and rest: "visit_decls C visitor (i + 1) ms (u\<lparr>c_result := c_result u @ v @ newline\<rparr>) = Inr (x, t)"
      using Cons.prems(1) by (auto simp: emit_def bindM_Inr_iff)
    obtain d where d: "block_level u = block_level s" "declared_by (decimals (penv C)) m d" "scope_at 0 (D @ [d]) (tracker u)"
      using declares_global [where m = m and C = C] u Cons.prems(2) unfolding declares_def by blast
    obtain N where N: "block_level t = block_level s"
      "list_all2 (declared_by (decimals (penv C))) (take (MAX_STORAGE_VARIABLES - (i + 1)) ms) N"
      "scope_at 0 ((D @ [d]) @ N) (tracker t)"
      using Cons.IH [OF rest, of "D @ [d]"] d by auto
    have "MAX_STORAGE_VARIABLES - i = Suc (MAX_STORAGE_VARIABLES - (i + 1))" using False by simp
    then have "list_all2 (declared_by (decimals (penv C))) (take (MAX_STORAGE_VARIABLES - i) (m # ms)) (d # N)"
      using d(2) N(2) by simp
    then show ?thesis using N(1,3) by (intro conjI exI [of _ "d # N"]) simp_all
  qed
qed

end

section \<open>The contract\<close>

lemma scope_at_new: "scope_at 0 [] new_tracker"
  by (simp add: scope_at_def tracks_new) (simp add: numbered_def new_tracker_def id_of_def)

lemma contract_scope:
  assumes "visit C depth contract (init_state r) = Inr (x, t)"
    and "get_rep (decimals (penv C)) contract ''decls'' = Inr ds"
  shows "block_level t = 0 \<and> (\<exists>D. list_all2 (declared_by (decimals (penv C))) (take MAX_STORAGE_VARIABLES ds) D \<and>
    scope_at 0 D (tracker t))"
proof -
  let ?rest = "bindM (getM c_result) (\<lambda>r.
      seqM (if r \<noteq> '''' then emit newline else returnM ())
      (seqM (visit_init_part C (visit_block C depth) contract)
      (seqM (visit_functions_part C (visit_block C depth) contract)
        (visit_default_part C (visit_block C depth) contract))))"
  obtain s where s: "visit_decls C (visit_expr C depth) 0 ds (init_state r) = Inr ((), s)"
    and rest: "?rest s = Inr (x, t)"
    using assms by (auto simp: visit_def rep_def bindM_Inr_iff)
  obtain D where D: "block_level s = 0" "list_all2 (declared_by (decimals (penv C))) (take MAX_STORAGE_VARIABLES ds) D"
    "scope_at 0 D (tracker s)"
    using visit.decls_scope [OF s] scope_at_new by (force simp: init_state_def)
  have "base.keepsM ?rest"
    by (rule base.keeps_bind [OF base.keeps_get], rule base.keeps_bind, rule base.keeps_if,
        rule baseI [OF quiet_steps(1)], rule base.keeps_return, rule base.keeps_bind [OF funs.base_init_part],
        rule base.keeps_bind [OF funs.base_functions_part], rule funs.base_default_part)
  from base.keepsD [OF this rest] show ?thesis using D by (auto simp: base_frame_def)
qed

end
