(* ===== verification/Json_Codec.thy ===== *)
theory Json_Codec imports Vy_Values begin

text \<open>
  The JSON encoding of test inputs and return values (\<^verbatim>\<open>helpers/json_encoders.py\<close>).
  \<^verbatim>\<open>json.dumps\<close> and \<^verbatim>\<open>json.loads\<close> are inverse on JSON trees, so the model
  works on trees; what the two classes add are the objects for byte strings and decimals.
\<close>

section \<open>Objects and trees\<close>

datatype pyobj =
    ONone
  | OBool bool
  | OInt int
  | OStr string
  | OBytes "8 word list"
  | ODecimal pyfloat
  | OList "pyobj list"
  | ODict "(string \<times> pyobj) list"

datatype json =
    JNull
  | JBool bool
  | JInt int
  | JStr string
  | JList "json list"
  | JObj "(string \<times> json) list"

text \<open>\<^verbatim>\<open>str\<close> of a Decimal and the constructor that reads it.\<close>

record decimal_text =
  dec_str :: "pyfloat \<Rightarrow> string"
  dec_parse :: "string \<Rightarrow> pyfloat res"

section \<open>Encoder\<close>

definition tagged :: "string \<Rightarrow> string \<Rightarrow> json" where
  "tagged ty v = JObj [(''_type'', JStr ty), (''value'', JStr v)]"

fun encode :: "decimal_text \<Rightarrow> pyobj \<Rightarrow> json" where
  "encode T ONone = JNull"
| "encode T (OBool b) = JBool b"
| "encode T (OInt i) = JInt i"
| "encode T (OStr s) = JStr s"
| "encode T (OBytes bs) = tagged ''bytes'' (bytes_hex bs)"
| "encode T (ODecimal f) = tagged ''Decimal'' (dec_str T f)"
| "encode T (OList vs) = JList (map (encode T) vs)"
| "encode T (ODict kvs) = JObj (map (\<lambda>(k, v). (k, encode T v)) kvs)"

section \<open>Decoder\<close>

text \<open>
  The hook is called on every decoded object, the innermost first. A tag that is not a known one
  leaves the object alone.
\<close>

definition dict_get :: "(string \<times> pyobj) list \<Rightarrow> string \<Rightarrow> pyobj res" where
  "dict_get d k = (case map_of d k of None \<Rightarrow> Inl (KeyError k) | Some v \<Rightarrow> Inr v)"

definition object_hook :: "decimal_text \<Rightarrow> (string \<times> pyobj) list \<Rightarrow> pyobj res" where
  "object_hook T d =
     (case map_of d ''_type'' of
        None \<Rightarrow> Inr (ODict d)
      | Some ty \<Rightarrow>
          (if ty = OStr ''Decimal'' then
             bindR (dict_get d ''value'') (\<lambda>v. case v of
               OStr s \<Rightarrow> bindR (dec_parse T s) (\<lambda>f. Inr (ODecimal f))
             | _ \<Rightarrow> Inl (TypeError ''Decimal''))
           else if ty = OStr ''bytes'' then
             bindR (dict_get d ''value'') (\<lambda>v. case v of
               OStr s \<Rightarrow> bindR (bytes_fromhex s) (\<lambda>bs. Inr (OBytes bs))
             | _ \<Rightarrow> Inl (TypeError ''fromhex() argument must be str''))
           else Inr (ODict d)))"

fun mapR :: "('a \<Rightarrow> 'b res) \<Rightarrow> 'a list \<Rightarrow> 'b list res" where
  "mapR f [] = Inr []"
| "mapR f (x # xs) = bindR (f x) (\<lambda>y. bindR (mapR f xs) (\<lambda>ys. Inr (y # ys)))"

lemma mapR_cong [fundef_cong]:
  "xs = ys \<Longrightarrow> (\<And>x. x \<in> set ys \<Longrightarrow> f x = g x) \<Longrightarrow> mapR f xs = mapR g ys"
  by (induction ys arbitrary: xs) auto

fun decode :: "decimal_text \<Rightarrow> json \<Rightarrow> pyobj res" where
  "decode T JNull = Inr ONone"
| "decode T (JBool b) = Inr (OBool b)"
| "decode T (JInt i) = Inr (OInt i)"
| "decode T (JStr s) = Inr (OStr s)"
| "decode T (JList js) = bindR (mapR (decode T) js) (\<lambda>vs. Inr (OList vs))"
| "decode T (JObj kjs) =
     bindR (mapR (\<lambda>kj. bindR (decode T (snd kj)) (\<lambda>v. Inr (fst kj, v))) kjs) (object_hook T)"

section \<open>Round trip\<close>

text \<open>A dictionary of the program never has the key that marks an encoded value.\<close>

fun untagged :: "pyobj \<Rightarrow> bool" where
  "untagged (OList vs) = (\<forall>v \<in> set vs. untagged v)"
| "untagged (ODict kvs) = (''_type'' \<notin> fst ` set kvs \<and> (\<forall>kv \<in> set kvs. untagged (snd kv)))"
| "untagged v = True"

definition exact_text :: "decimal_text \<Rightarrow> bool" where
  "exact_text T \<longleftrightarrow> (\<forall>f. dec_parse T (dec_str T f) = Inr f)"

lemma mapR_encode:
  assumes "\<And>v. v \<in> set vs \<Longrightarrow> f (g v) = Inr (h v)"
  shows "mapR f (map g vs) = Inr (map h vs)"
  using assms by (induction vs) simp_all

lemma object_hook_untagged: "''_type'' \<notin> fst ` set d \<Longrightarrow> object_hook T d = Inr (ODict d)"
proof -
  assume "''_type'' \<notin> fst ` set d"
  then have "map_of d ''_type'' = None" by (simp only: map_of_eq_None_iff not_False_eq_True)
  then show ?thesis by (simp add: object_hook_def)
qed

lemma decode_tagged_bytes: "decode T (tagged ''bytes'' (bytes_hex bs)) = Inr (OBytes bs)"
  by (simp add: tagged_def object_hook_def dict_get_def fromhex_bytes_hex)

lemma decode_tagged_decimal:
  "exact_text T \<Longrightarrow> decode T (tagged ''Decimal'' (dec_str T f)) = Inr (ODecimal f)"
  by (simp add: tagged_def object_hook_def dict_get_def exact_text_def)

lemma decode_encode: "exact_text T \<Longrightarrow> untagged v \<Longrightarrow> decode T (encode T v) = Inr v"
proof (induction v)
  case (OList vs)
  then have "mapR (decode T) (map (encode T) vs) = Inr (map id vs)"
    by (intro mapR_encode) simp
  then show ?case by simp
next
  case (ODict kvs)
  have "mapR (\<lambda>kj. bindR (decode T (snd kj)) (\<lambda>v. Inr (fst kj, v))) (map (\<lambda>(k, v). (k, encode T v)) kvs) =
      Inr (map id kvs)"
  proof (rule mapR_encode)
    fix kv
    assume kv: "kv \<in> set kvs"
    obtain k v where "kv = (k, v)" by (cases kv)
    moreover from this have "decode T (encode T v) = Inr v" using ODict kv by fastforce
    ultimately show "bindR (decode T (snd (case kv of (k, v) \<Rightarrow> (k, encode T v))))
        (\<lambda>v. Inr (fst (case kv of (k, v) \<Rightarrow> (k, encode T v)), v)) = Inr (id kv)" by simp
  qed
  then show ?case using ODict.prems(2) by (simp add: object_hook_untagged)
qed (simp_all add: decode_tagged_bytes decode_tagged_decimal)

text \<open>Generated inputs as objects.\<close>

fun obj_of :: "gen_val \<Rightarrow> pyobj" where
  "obj_of (GBytes bs) = OBytes bs"
| "obj_of (GStr s) = OStr s"
| "obj_of (GInt i) = OInt i"
| "obj_of (GBool b) = OBool b"
| "obj_of (GFloat f) = ODecimal f"
| "obj_of (GList vs) = OList (map obj_of vs)"

lemma untagged_obj_of: "untagged (obj_of v)"
  by (induction v) auto

lemma obj_of_inj: "obj_of v = obj_of w \<Longrightarrow> v = w"
proof (induction v arbitrary: w)
  case (GList vs)
  then obtain ws where w: "w = GList ws" "map obj_of vs = map obj_of ws" by (cases w) auto
  have "vs = ws" by (rule list.inj_map_strong [OF _ w(2)]) (rule GList.IH)
  then show ?case using w by simp
next
  case (GBytes bs) then show ?case by (cases w) auto
next
  case (GStr s) then show ?case by (cases w) auto
next
  case (GInt i) then show ?case by (cases w) auto
next
  case (GBool b) then show ?case by (cases w) auto
next
  case (GFloat f) then show ?case by (cases w) auto
qed

end
