(* ===== verification/Verifier.thy ===== *)
theory Verifier imports Vyzzer_Prelude begin

text \<open>
  The verifier (\<^verbatim>\<open>verifiers/verifier_api.py\<close>): the results of the compilers for one
  generated contract are transposed, so that what belongs together stands together, and compared
  pairwise.
\<close>

section \<open>Results\<close>

text \<open>
  What a runner stores: per constructor input a failed deployment or the calls by function, each
  with one result per input set. A result is a runtime error or what
  \<^verbatim>\<open>compose_result\<close> returns.
\<close>

datatype exec_result =
    RuntimeError string
  | Executed (ex_state: "string list") (ex_memory: string) (ex_gas: int) (ex_return: string)

datatype deployment =
    DeployError string
  | Deployed "(string \<times> exec_result list) list"

type_synonym run_results = "(string \<times> deployment list) list"

section \<open>Loops that raise\<close>

fun foldR :: "('s \<Rightarrow> 'a \<Rightarrow> 's res) \<Rightarrow> 's \<Rightarrow> 'a list \<Rightarrow> 's res" where
  "foldR g s [] = Inr s"
| "foldR g s (x # xs) = bindR (g s x) (\<lambda>s. foldR g s xs)"

definition field_of :: "run_results \<Rightarrow> string \<Rightarrow> deployment list res" where
  "field_of doc f = (case map_of doc f of None \<Rightarrow> Inl (KeyError f) | Some ds \<Rightarrow> Inr ds)"

text \<open>
  \<^verbatim>\<open>if j > len(xs) - 1: xs.append([])\<close>, and then the element \<^verbatim>\<open>xs[j]\<close> is changed.
\<close>

definition grow :: "nat \<Rightarrow> 'a list list \<Rightarrow> 'a list list" where
  "grow j xss = (if length xss \<le> j then xss @ [[]] else xss)"

definition upd_at :: "nat \<Rightarrow> ('a list \<Rightarrow> 'a list res) \<Rightarrow> 'a list list \<Rightarrow> 'a list list res" where
  "upd_at j g xss =
     (let xss = grow j xss in
      if j < length xss then bindR (g (xss ! j)) (\<lambda>y. Inr (xss[j := y]))
      else Inl (IndexError ''list index out of range''))"

definition put_at :: "nat \<Rightarrow> 'a \<Rightarrow> 'a list list \<Rightarrow> 'a list list res" where
  "put_at j x = upd_at j (\<lambda>l. Inr (l @ [x]))"

section \<open>Comparisons\<close>

text \<open>A verifier returns the text of the \<^verbatim>\<open>VerifierException\<close> it raises, if it does.\<close>

type_synonym verdict = "string + unit"

definition str_list_repr :: "string list \<Rightarrow> string" where
  "str_list_repr ss = ''['' @ py_join '', '' (map (\<lambda>s. [CHR 39] @ s @ [CHR 39]) ss) @ '']''"

definition storage_verifier :: "string list \<Rightarrow> string list \<Rightarrow> verdict" where
  "storage_verifier storage0 storage1 =
     (if storage0 \<noteq> storage1
      then Inl (''Storage discrepancy: '' @ str_list_repr storage0 @ '' | '' @ str_list_repr storage1) else Inr ())"

definition memory_verifier :: "string \<Rightarrow> string \<Rightarrow> verdict" where
  "memory_verifier memory0 memory1 = Inr ()"

definition gas_verifier :: "int \<Rightarrow> int \<Rightarrow> verdict" where
  "gas_verifier gas0 gas1 = Inr ()"

definition return_value_verifier :: "string \<Rightarrow> string \<Rightarrow> verdict" where
  "return_value_verifier value0 value1 =
     (if value0 \<noteq> value1 then Inl (''Return Value discrepancy: '' @ value0 @ '' | '' @ value1) else Inr ())"

definition optional_text :: "string option \<Rightarrow> string" where
  "optional_text e = (case e of None \<Rightarrow> ''None'' | Some s \<Rightarrow> s)"

definition compilation_error_handler :: "string option \<Rightarrow> string option \<Rightarrow> verdict" where
  "compilation_error_handler res0 res1 =
     (if res0 \<noteq> res1
      then Inl (''Compilation error discrepancy: '' @ optional_text res0 @ '' | '' @ optional_text res1)
      else Inr ())"

definition verify_and_catch :: "('a \<Rightarrow> 'a \<Rightarrow> verdict) \<Rightarrow> 'a \<times> 'a \<Rightarrow> string option" where
  "verify_and_catch verifier ps = (case verifier (fst ps) (snd ps) of Inl e \<Rightarrow> Some e | Inr _ \<Rightarrow> None)"

text \<open>Two results are compared when both calls returned.\<close>

definition verify_two_results :: "exec_result \<Rightarrow> exec_result \<Rightarrow> (string \<times> string option) list" where
  "verify_two_results res0 res1 =
     (case (res0, res1) of
        (Executed s0 m0 g0 v0, Executed s1 m1 g1 v1) \<Rightarrow>
          [(''Storage'', verify_and_catch storage_verifier (s0, s1)),
           (''Memory'', verify_and_catch memory_verifier (m0, m1)),
           (''Gas'', verify_and_catch gas_verifier (g0, g1)),
           (''Return_Value'', verify_and_catch return_value_verifier (v0, v1))]
      | _ \<Rightarrow> [])"

section \<open>Deployment errors\<close>

definition deploy_error_of :: "deployment \<Rightarrow> string option" where
  "deploy_error_of d = (case d of DeployError e \<Rightarrow> Some e | Deployed _ \<Rightarrow> None)"

definition collect_errors :: "string list \<Rightarrow> run_results \<Rightarrow> string option list list res" where
  "collect_errors targets doc =
     foldR (\<lambda>errs f. bindR (field_of doc f) (\<lambda>ds.
       foldR (\<lambda>errs (j, d). put_at j (deploy_error_of d) errs) errs (enumerate 0 ds))) [] targets"

text \<open>The pairs of neighbours, with their position.\<close>

definition adjacent :: "'a list \<Rightarrow> (nat \<times> 'a \<times> 'a) list" where
  "adjacent xs = enumerate 0 (zip xs (tl xs))"

record deploy_report =
  dr_compilers :: "string \<times> string"
  dr_deployment :: nat
  dr_results :: "string option"

definition deploy_reports :: "string list \<Rightarrow> string option list list \<Rightarrow> deploy_report list" where
  "deploy_reports targets deploy_errors =
     concat (map (\<lambda>(i, errors). map (\<lambda>(j, e). \<lparr>dr_compilers = (targets ! j, targets ! (j + 1)), dr_deployment = i,
       dr_results = verify_and_catch compilation_error_handler e\<rparr>) (adjacent errors)) (enumerate 0 deploy_errors))"

definition check_deploy_errors :: "string list \<Rightarrow> run_results \<Rightarrow> (bool \<times> deploy_report list) res" where
  "check_deploy_errors targets doc =
     bindR (collect_errors targets doc) (\<lambda>deploy_errors.
       Inr (list_ex (list_ex (\<lambda>e. e \<noteq> None)) deploy_errors, deploy_reports targets deploy_errors))"

section \<open>Transposition\<close>

type_synonym reshaped = "(string \<times> exec_result list list list) list"

text \<open>
  The calls of one deployment. \<open>handle_doc\<close> reshapes only results without deployment errors
  (\<open>reshaped_are_deployed\<close>), so the branch of a failed deployment is never taken; the items of
  one would be the characters of its error text, which \<^verbatim>\<open>verify_two_results\<close> cannot index.
\<close>

definition reshape_call :: "nat \<Rightarrow> reshaped \<Rightarrow> string \<times> exec_result list \<Rightarrow> reshaped res" where
  "reshape_call j result c =
     bindR (upd_at j (\<lambda>row. foldR (\<lambda>row (k, r). put_at k r row) row (enumerate 0 (snd c))) (dget result (fst c) []))
       (\<lambda>rows. Inr (AList.update (fst c) rows result))"

definition reshape_deployment :: "reshaped \<Rightarrow> nat \<times> deployment \<Rightarrow> reshaped res" where
  "reshape_deployment result d =
     (case snd d of
        Deployed calls \<Rightarrow> foldR (reshape_call (fst d)) result calls
      | DeployError e \<Rightarrow> Inl (TypeError ''string indices must be integers''))"

definition reshape_data :: "string list \<Rightarrow> run_results \<Rightarrow> reshaped res" where
  "reshape_data compilers doc =
     foldR (\<lambda>result compiler. bindR (field_of doc compiler) (\<lambda>ds.
       foldR reshape_deployment result (enumerate 0 ds))) [] compilers"

record call_report =
  cr_compilers :: "string \<times> string"
  cr_function :: string
  cr_deployment :: nat
  cr_params_set :: nat
  cr_results :: "(string \<times> string option) list"

definition verify_call :: "string list \<Rightarrow> string \<Rightarrow> nat \<Rightarrow> nat \<times> exec_result list \<Rightarrow> call_report list" where
  "verify_call compilers func i kr =
     map (\<lambda>(j, r0, r1). \<lparr>cr_compilers = (compilers ! j, compilers ! (j + 1)), cr_function = func,
       cr_deployment = i, cr_params_set = fst kr, cr_results = verify_two_results r0 r1\<rparr>) (adjacent (snd kr))"

definition verify_results :: "string list \<Rightarrow> reshaped \<Rightarrow> call_report list" where
  "verify_results compilers dat =
     concat (map (\<lambda>(func, deployments).
       concat (map (\<lambda>(i, depl). concat (map (verify_call compilers func i) (enumerate 0 depl)))
         (enumerate 0 deployments))) dat)"

section \<open>Selection of documents\<close>

definition target_fields :: "string list \<Rightarrow> string list" where
  "target_fields compilers = map (\<lambda>c. ''result_'' @ c) compilers"

definition ready_to_handle :: "string list \<Rightarrow> run_results \<Rightarrow> bool" where
  "ready_to_handle targets doc = list_all (\<lambda>f. map_of doc f \<noteq> None) targets"

definition deployment_empty :: "deployment \<Rightarrow> bool" where
  "deployment_empty d = (d = Deployed [])"

fun is_valid :: "string list \<Rightarrow> run_results \<Rightarrow> bool res" where
  "is_valid [] doc = Inr True"
| "is_valid (f # fs) doc =
     bindR (field_of doc f) (\<lambda>ds. case ds of
       [] \<Rightarrow> Inl (IndexError ''list index out of range'')
     | d # _ \<Rightarrow> if deployment_empty d then Inr False else is_valid fs doc)"

section \<open>One pass of the verifier\<close>

text \<open>
  Documents of \<^verbatim>\<open>run_results\<close>. The entry has no \<^verbatim>\<open>is_handled\<close> until a runner
  stores a result, and is not found by the query before.
\<close>

record run_doc =
  doc_id :: nat
  generation_id :: string
  doc_results :: run_results
  is_handled :: "bool option"

datatype report = DeployReports "deploy_report list" | CallReports "call_report list"

text \<open>What the loop body does with a document: a report, and whether it counts as handled.\<close>

definition handle_doc :: "string list \<Rightarrow> run_doc \<Rightarrow> (report \<times> bool) option res" where
  "handle_doc compilers doc =
     (let targets = target_fields compilers; res = doc_results doc in
      if \<not> ready_to_handle targets res then Inr None
      else bindR (is_valid targets res) (\<lambda>ok.
        if \<not> ok then Inr None
        else bindR (check_deploy_errors targets res) (\<lambda>(has_errors, reports).
          if has_errors then Inr (Some (DeployReports reports, False))
          else bindR (reshape_data targets res) (\<lambda>dat.
            Inr (Some (CallReports (verify_results targets dat), True))))))"

fun handle_docs :: "string list \<Rightarrow> run_doc list \<Rightarrow> ((string \<times> report) list \<times> nat list) res" where
  "handle_docs compilers [] = Inr ([], [])"
| "handle_docs compilers (d # ds) =
     bindR (handle_doc compilers d) (\<lambda>r.
     bindR (handle_docs compilers ds) (\<lambda>(reports, ids).
       Inr (case r of
         None \<Rightarrow> (reports, ids)
       | Some (rep, handled) \<Rightarrow>
           ((generation_id d, rep) # reports, if handled then doc_id d # ids else ids))))"

definition mark_handled :: "nat list \<Rightarrow> run_doc \<Rightarrow> run_doc" where
  "mark_handled ids d = (if doc_id d \<in> set ids then d\<lparr>is_handled := Some True\<rparr> else d)"

text \<open>
  The pass over the collections: the run results and the verification results. The documents are read
  and compared, then the reports are inserted, then the documents are marked; nothing is written
  when there is no report. Here nothing happens in between; the steps of the services (Pipeline) have
  the three apart.
\<close>

definition verifier_scan :: "string list \<Rightarrow> run_doc list \<Rightarrow> ((string \<times> report) list \<times> nat list) res" where
  "verifier_scan compilers docs = handle_docs compilers (filter (\<lambda>d. is_handled d = Some False) docs)"

definition verifier_pass ::
  "string list \<Rightarrow> run_doc list \<times> (string \<times> report) list \<Rightarrow> (run_doc list \<times> (string \<times> report) list) res" where
  "verifier_pass compilers db =
     (let (docs, stored) = db in
      bindR (verifier_scan compilers docs) (\<lambda>(reports, ids).
        if reports \<noteq> [] then Inr (map (mark_handled ids) docs, stored @ reports) else Inr (docs, stored)))"

section \<open>The transposition\<close>

text \<open>Updating each position once, in order.\<close>

definition nth_or_empty :: "'a list list \<Rightarrow> nat \<Rightarrow> 'a list" where
  "nth_or_empty xss j = (if j < length xss then xss ! j else [])"

lemma foldR_append: "foldR g s (xs @ ys) = bindR (foldR g s xs) (\<lambda>s. foldR g s ys)"
  by (induction xs arbitrary: s) (auto simp: bindR_def split: sum.splits)

lemma upd_at_next:
  assumes "g (nth_or_empty xss n) = Inr y" and "length ys = n"
  shows "upd_at n g (ys @ drop n xss) = Inr ((ys @ [y]) @ drop (Suc n) xss)"
proof (cases "n < length xss")
  case True
  then have "(ys @ drop n xss) ! n = xss ! n" "grow n (ys @ drop n xss) = ys @ drop n xss"
    using assms(2) by (simp_all add: nth_append grow_def)
  moreover have "(ys @ drop n xss)[n := y] = (ys @ [y]) @ drop (Suc n) xss"
    using True assms(2) by (simp add: list_update_append Cons_nth_drop_Suc [symmetric])
  ultimately show ?thesis using assms True by (simp add: upd_at_def nth_or_empty_def Let_def)
next
  case False
  then have "grow n (ys @ drop n xss) = ys @ [[]]" using assms(2) by (simp add: grow_def)
  then show ?thesis
    using assms False by (simp add: upd_at_def nth_or_empty_def Let_def nth_append list_update_append)
qed

lemma foldR_upd_at:
  assumes "\<And>j. j < length xs \<Longrightarrow> g (xs ! j) (nth_or_empty xss j) = Inr (y j)"
  shows "foldR (\<lambda>xss (j, x). upd_at j (g x) xss) xss (enumerate 0 xs) =
    Inr (map y [0..<length xs] @ drop (length xs) xss)"
  using assms
proof (induction xs rule: rev_induct)
  case (snoc x xs)
  have IH: "foldR (\<lambda>xss (j, x). upd_at j (g x) xss) xss (enumerate 0 xs) =
      Inr (map y [0..<length xs] @ drop (length xs) xss)"
  proof (rule snoc.IH)
    fix j
    assume "j < length xs"
    then show "g (xs ! j) (nth_or_empty xss j) = Inr (y j)" using snoc.prems [of j] by (simp add: nth_append)
  qed
  have "g x (nth_or_empty xss (length xs)) = Inr (y (length xs))"
    using snoc.prems [of "length xs"] by simp
  from upd_at_next [where g = "g x" and ys = "map y [0..<length xs]", OF this] show ?case
    by (simp add: enumerate_append_eq foldR_append IH)
qed simp

lemma foldR_put_at:
  "foldR (\<lambda>xss (j, x). put_at j (h x) xss) xss (enumerate 0 xs) =
     Inr (map (\<lambda>j. nth_or_empty xss j @ [h (xs ! j)]) [0..<length xs] @ drop (length xs) xss)"
  using foldR_upd_at [of xs "\<lambda>x l. Inr (l @ [h x])" xss "\<lambda>j. nth_or_empty xss j @ [h (xs ! j)]"]
  by (simp add: put_at_def)

lemma nth_or_empty_Nil [simp]: "nth_or_empty [] j = []"
  by (simp add: nth_or_empty_def)

lemma nth_or_empty_map [simp]: "j < n \<Longrightarrow> nth_or_empty (map f [0..<n]) j = f j"
  by (simp add: nth_or_empty_def)

section \<open>Deployment errors, by deployment\<close>

definition error_at :: "run_results \<Rightarrow> nat \<Rightarrow> string \<Rightarrow> string option" where
  "error_at doc j f = deploy_error_of (the (map_of doc f) ! j)"

definition same_deployments :: "string list \<Rightarrow> nat \<Rightarrow> run_results \<Rightarrow> bool" where
  "same_deployments fs n doc \<longleftrightarrow> (\<forall>f \<in> set fs. \<exists>ds. map_of doc f = Some ds \<and> length ds = n)"

lemma collect_errors_table:
  assumes "same_deployments fs n doc"
  shows "collect_errors fs doc = Inr (if fs = [] then [] else map (\<lambda>j. map (error_at doc j) fs) [0..<n])"
  using assms
proof (induction fs rule: rev_induct)
  case (snoc f fs)
  let ?step = "\<lambda>errs f. bindR (field_of doc f) (\<lambda>ds.
       foldR (\<lambda>errs (j, d). put_at j (deploy_error_of d) errs) errs (enumerate 0 ds))"
  obtain ds where ds: "map_of doc f = Some ds" "length ds = n"
    using snoc.prems by (auto simp: same_deployments_def)
  have IH: "foldR ?step [] fs = Inr (if fs = [] then [] else map (\<lambda>j. map (error_at doc j) fs) [0..<n])"
    using snoc by (simp add: same_deployments_def collect_errors_def)
  have step: "?step errs f = Inr (map (\<lambda>j. nth_or_empty errs j @ [deploy_error_of (ds ! j)]) [0..<n] @ drop n errs)" for errs
    using ds by (simp add: field_of_def foldR_put_at)
  show ?case
    using ds by (cases "fs = []") (simp_all add: collect_errors_def foldR_append IH step error_at_def)
qed (simp add: collect_errors_def)

text \<open>Neighbours that are equal throughout make the whole list equal.\<close>

lemma adjacent_iff:
  "(j, x, y) \<in> set (adjacent xs) \<longleftrightarrow> Suc j < length xs \<and> x = xs ! j \<and> y = xs ! Suc j"
  by (auto simp: adjacent_def in_set_enumerate_eq nth_tl)

lemma all_adjacent:
  "(\<forall>(j, x, y) \<in> set (adjacent xs). P x y) \<longleftrightarrow> (\<forall>j. Suc j < length xs \<longrightarrow> P (xs ! j) (xs ! Suc j))"
  unfolding Ball_def split_paired_All by (auto simp: adjacent_iff)

lemma all_enumerate: "(\<forall>(i, x) \<in> set (enumerate k xs). P x) \<longleftrightarrow> (\<forall>x \<in> set xs. P x)"
  by (induction xs arbitrary: k) simp_all

lemma all_equal_adjacent:
  "(\<forall>j. Suc j < length xs \<longrightarrow> f (xs ! j) = f (xs ! Suc j)) \<longleftrightarrow> (\<forall>x \<in> set xs. \<forall>y \<in> set xs. f x = f y)"
proof
  assume step: "\<forall>j. Suc j < length xs \<longrightarrow> f (xs ! j) = f (xs ! Suc j)"
  have "i < length xs \<Longrightarrow> f (xs ! i) = f (xs ! 0)" for i
    using step by (induction i) auto
  then show "\<forall>x \<in> set xs. \<forall>y \<in> set xs. f x = f y" by (metis in_set_conv_nth)
qed simp

lemma verify_and_catch_errors: "verify_and_catch compilation_error_handler (a, b) = None \<longleftrightarrow> a = b"
  by (simp add: verify_and_catch_def compilation_error_handler_def)

lemma deploy_reports_clean:
  "(\<forall>r \<in> set (deploy_reports fs errs). dr_results r = None) \<longleftrightarrow>
     (\<forall>row \<in> set errs. \<forall>a \<in> set row. \<forall>b \<in> set row. a = b)"
proof -
  have "(\<forall>r \<in> set (deploy_reports fs errs). dr_results r = None) \<longleftrightarrow>
      (\<forall>(i, row) \<in> set (enumerate 0 errs). \<forall>(j, a, b) \<in> set (adjacent row). a = b)"
    by (fastforce simp: deploy_reports_def verify_and_catch_errors)
  also have "\<dots> \<longleftrightarrow> (\<forall>row \<in> set errs. \<forall>a \<in> set row. \<forall>b \<in> set row. a = b)"
    unfolding all_adjacent all_equal_adjacent [where f = "\<lambda>x. x"] all_enumerate by simp
  finally show ?thesis .
qed

lemma list_ex_table:
  "list_ex (list_ex P) (map (\<lambda>j. map (e j) fs) [0..<n]) \<longleftrightarrow> (\<exists>f \<in> set fs. \<exists>j < n. P (e j f))"
proof (induction n)
  case (Suc n)
  have "list_ex P (map (e n) fs) \<longleftrightarrow> (\<exists>f \<in> set fs. P (e n f))" by (simp add: list_ex_iff)
  then show ?case using Suc by (auto simp: less_Suc_eq)
qed simp

lemma check_deploy_errors_spec:
  assumes "same_deployments fs n doc" and "fs \<noteq> []"
  shows "\<exists>reports. check_deploy_errors fs doc = Inr ((\<exists>f \<in> set fs. \<exists>j < n. error_at doc j f \<noteq> None), reports) \<and>
    ((\<forall>r \<in> set reports. dr_results r = None) \<longleftrightarrow>
      (\<forall>j < n. \<forall>f \<in> set fs. \<forall>g \<in> set fs. error_at doc j f = error_at doc j g))"
proof -
  let ?errs = "map (\<lambda>j. map (error_at doc j) fs) [0..<n]"
  have run: "check_deploy_errors fs doc = Inr (list_ex (list_ex (\<lambda>e. e \<noteq> None)) ?errs, deploy_reports fs ?errs)"
    using collect_errors_table [OF assms(1)] assms(2) by (simp add: check_deploy_errors_def)
  have flag: "list_ex (list_ex (\<lambda>e. e \<noteq> None)) ?errs \<longleftrightarrow> (\<exists>f \<in> set fs. \<exists>j < n. error_at doc j f \<noteq> None)"
    by (rule list_ex_table)
  have clean: "(\<forall>r \<in> set (deploy_reports fs ?errs). dr_results r = None) \<longleftrightarrow>
      (\<forall>j < n. \<forall>f \<in> set fs. \<forall>g \<in> set fs. error_at doc j f = error_at doc j g)"
  proof -
    have rows: "(\<forall>row \<in> set ?errs. Q row) \<longleftrightarrow> (\<forall>j < n. Q (map (error_at doc j) fs))" for Q by auto
    show ?thesis unfolding deploy_reports_clean rows by simp
  qed
  show ?thesis
    by (rule exI [of _ "deploy_reports fs ?errs"]) (simp only: run flag clean simp_thms)
qed

section \<open>Results of one shape\<close>

text \<open>
  What runners store when all of them deployed the contract: for every compiler the same functions,
  the same number of deployments and of input sets; \<open>R c i f k\<close> is the result of input set
  \<open>k\<close> of function \<open>f\<close> in deployment \<open>i\<close> with compiler \<open>c\<close>.
\<close>

type_synonym result_table = "string \<Rightarrow> nat \<Rightarrow> string \<Rightarrow> nat \<Rightarrow> exec_result"

definition uniform :: "string list \<Rightarrow> nat \<Rightarrow> nat \<Rightarrow> result_table \<Rightarrow> string \<Rightarrow> deployment list" where
  "uniform fs n p R c = map (\<lambda>i. Deployed (map (\<lambda>f. (f, map (R c i f) [0..<p])) fs)) [0..<n]"

text \<open>The calls of a function in a deployment, by input set, with one result per compiler.\<close>

definition row :: "string list \<Rightarrow> nat \<Rightarrow> result_table \<Rightarrow> nat \<Rightarrow> string \<Rightarrow> exec_result list list" where
  "row cs p R i f = (if cs = [] then [] else map (\<lambda>k. map (\<lambda>c. R c i f k) cs) [0..<p])"

definition holds_rows :: "string list \<Rightarrow> (string \<Rightarrow> exec_result list list list) \<Rightarrow> reshaped \<Rightarrow> bool" where
  "holds_rows fs rows D \<longleftrightarrow>
     distinct (map fst D) \<and> set (map fst D) \<subseteq> set fs \<and> (\<forall>f \<in> set fs. dget D f [] = rows f)"

lemma row_step:
  "foldR (\<lambda>row (k, r). put_at k r row) (row cs p R i f) (enumerate 0 (map (R c i f) [0..<p])) =
     Inr (row (cs @ [c]) p R i f)"
  using foldR_put_at [of "\<lambda>x. x" "row cs p R i f" "map (R c i f) [0..<p]"]
  by (cases "cs = []") (simp_all add: row_def)

text \<open>The calls of one deployment touch the entries of their functions only.\<close>

lemma reshape_calls:
  assumes "distinct gs" and "set gs \<subseteq> set fs" and "holds_rows fs E D"
    and "\<And>f. f \<in> set gs \<Longrightarrow>
      upd_at j (\<lambda>row. foldR (\<lambda>row (k, r). put_at k r row) row (enumerate 0 (rs f))) (E f) = Inr (y f)"
  shows "\<exists>D'. foldR (reshape_call j) D (map (\<lambda>f. (f, rs f)) gs) = Inr D' \<and>
    holds_rows fs (\<lambda>f. if f \<in> set gs then y f else E f) D'"
  using assms
proof (induction gs arbitrary: D E)
  case (Cons g gs)
  let ?D = "AList.update g (y g) D" and ?E = "E(g := y g)"
  have step: "reshape_call j D (g, rs g) = Inr ?D"
    using Cons.prems(2-4) by (simp add: reshape_call_def holds_rows_def)
  have h: "holds_rows fs ?E ?D"
    using Cons.prems(2,3) by (auto simp: holds_rows_def dget_update distinct_update dom_update)
  have "\<exists>D'. foldR (reshape_call j) ?D (map (\<lambda>f. (f, rs f)) gs) = Inr D' \<and>
      holds_rows fs (\<lambda>f. if f \<in> set gs then y f else ?E f) D'"
  proof (rule Cons.IH)
    fix f
    assume f: "f \<in> set gs"
    then have "f \<noteq> g" using Cons.prems(1) by auto
    then show "upd_at j (\<lambda>row. foldR (\<lambda>row (k, r). put_at k r row) row (enumerate 0 (rs f))) (?E f) = Inr (y f)"
      using Cons.prems(4) [of f] f by simp
  qed (use Cons.prems(1,2) h in \<open>auto simp: fun_upd_def\<close>)
  then obtain D' where "foldR (reshape_call j) ?D (map (\<lambda>f. (f, rs f)) gs) = Inr D'"
    and "holds_rows fs (\<lambda>f. if f \<in> set gs then y f else ?E f) D'" by blast
  moreover have "(\<lambda>f. if f \<in> set gs then y f else ?E f) = (\<lambda>f. if f \<in> set (g # gs) then y f else E f)"
    by auto
  ultimately show ?case using step by simp
qed (simp add: holds_rows_def)

text \<open>One compiler adds its result at the end of every cell.\<close>

lemma reshape_compiler:
  assumes "distinct fs" and "holds_rows fs (\<lambda>f. map (\<lambda>i. row cs p R i f) [0..<(if cs = [] then 0 else n)]) D"
    and "m \<le> n"
  shows "\<exists>D'. foldR reshape_deployment D (enumerate 0 (take m (uniform fs n p R c))) = Inr D' \<and>
    holds_rows fs (\<lambda>f. map (\<lambda>i. row (cs @ [c]) p R i f) [0..<m] @
      drop m (map (\<lambda>i. row cs p R i f) [0..<(if cs = [] then 0 else n)])) D'"
  using assms(3)
proof (induction m)
  case 0
  then show ?case using assms(2) by simp
next
  case (Suc m)
  let ?old = "\<lambda>f. map (\<lambda>i. row cs p R i f) [0..<(if cs = [] then 0 else n)]"
  let ?E = "\<lambda>f. map (\<lambda>i. row (cs @ [c]) p R i f) [0..<m] @ drop m (?old f)"
  let ?y = "\<lambda>f. (map (\<lambda>i. row (cs @ [c]) p R i f) [0..<m] @ [row (cs @ [c]) p R m f]) @ drop (Suc m) (?old f)"
  obtain D' where D': "foldR reshape_deployment D (enumerate 0 (take m (uniform fs n p R c))) = Inr D'"
    "holds_rows fs ?E D'" using Suc by auto
  have len: "length (uniform fs n p R c) = n" by (simp add: uniform_def)
  have take: "take (Suc m) (uniform fs n p R c) = take m (uniform fs n p R c) @
      [Deployed (map (\<lambda>f. (f, map (R c m f) [0..<p])) fs)]"
    using Suc.prems len by (simp add: take_Suc_conv_app_nth) (simp add: uniform_def)
  have old: "nth_or_empty (?old f) m = row cs p R m f" for f
    using Suc.prems by (simp add: row_def)
  have "upd_at m (\<lambda>row. foldR (\<lambda>row (k, r). put_at k r row) row (enumerate 0 (map (R c m f) [0..<p]))) (?E f) =
      Inr (?y f)" for f
    by (rule upd_at_next) (simp_all add: old row_step)
  from reshape_calls [OF assms(1) subset_refl D'(2), of m "\<lambda>f. map (R c m f) [0..<p]" ?y, OF this]
  obtain D'' where D'': "foldR (reshape_call m) D' (map (\<lambda>f. (f, map (R c m f) [0..<p])) fs) = Inr D''"
    "holds_rows fs (\<lambda>f. if f \<in> set fs then ?y f else ?E f) D''" by blast
  have "holds_rows fs ?y D''" using D''(2) by (simp add: holds_rows_def)
  moreover have "foldR reshape_deployment D (enumerate 0 (take (Suc m) (uniform fs n p R c))) = Inr D''"
    using Suc.prems len by (simp add: take enumerate_append_eq foldR_append D'(1) reshape_deployment_def D''(1))
  ultimately show ?case by simp
qed

lemma reshape_uniform:
  assumes "distinct fs" and "\<forall>c \<in> set cs. map_of doc c = Some (uniform fs n p R c)"
  shows "\<exists>D. reshape_data cs doc = Inr D \<and>
    holds_rows fs (\<lambda>f. map (\<lambda>i. row cs p R i f) [0..<(if cs = [] then 0 else n)]) D"
  using assms(2)
proof (induction cs rule: rev_induct)
  case Nil
  then show ?case by (simp add: reshape_data_def holds_rows_def)
next
  case (snoc c cs)
  then obtain D where D: "reshape_data cs doc = Inr D"
    "holds_rows fs (\<lambda>f. map (\<lambda>i. row cs p R i f) [0..<(if cs = [] then 0 else n)]) D" by auto
  have len: "length (uniform fs n p R c) = n" by (simp add: uniform_def)
  obtain D' where D': "foldR reshape_deployment D (enumerate 0 (uniform fs n p R c)) = Inr D'"
    "holds_rows fs (\<lambda>f. map (\<lambda>i. row (cs @ [c]) p R i f) [0..<n] @
      drop n (map (\<lambda>i. row cs p R i f) [0..<(if cs = [] then 0 else n)])) D'"
    using reshape_compiler [OF assms(1) D(2) order_refl, of c] len by auto
  have "drop n (map (\<lambda>i. row cs p R i f) [0..<(if cs = [] then 0 else n)]) = []" for f by simp
  then have "holds_rows fs (\<lambda>f. map (\<lambda>i. row (cs @ [c]) p R i f) [0..<n]) D'" using D'(2) by simp
  moreover have "reshape_data (cs @ [c]) doc = Inr D'"
    using D(1) D'(1) snoc.prems by (simp add: reshape_data_def foldR_append field_of_def)
  ultimately show ?case by auto
qed

section \<open>What a clean verification means\<close>

definition clean :: "call_report \<Rightarrow> bool" where
  "clean r \<longleftrightarrow> (\<forall>v \<in> set (cr_results r). snd v = None)"

text \<open>Two results agree unless both calls returned and differ in storage or return value.\<close>

definition agree :: "exec_result \<Rightarrow> exec_result \<Rightarrow> bool" where
  "agree r0 r1 \<longleftrightarrow>
     (\<forall>s0 m0 g0 v0 s1 m1 g1 v1. r0 = Executed s0 m0 g0 v0 \<longrightarrow> r1 = Executed s1 m1 g1 v1 \<longrightarrow> s0 = s1 \<and> v0 = v1)"

lemma verify_two_results_clean: "(\<forall>v \<in> set (verify_two_results r0 r1). snd v = None) \<longleftrightarrow> agree r0 r1"
  by (cases r0; cases r1) (simp_all add: verify_two_results_def agree_def verify_and_catch_def
      storage_verifier_def memory_verifier_def gas_verifier_def return_value_verifier_def)

lemma verify_call_clean:
  "(\<forall>r \<in> set (verify_call cs f i kr). clean r) \<longleftrightarrow>
     (\<forall>j. Suc j < length (snd kr) \<longrightarrow> agree (snd kr ! j) (snd kr ! Suc j))"
proof -
  have "(\<forall>r \<in> set (verify_call cs f i kr). clean r) \<longleftrightarrow>
      (\<forall>(j, r0, r1) \<in> set (adjacent (snd kr)). \<forall>v \<in> set (verify_two_results r0 r1). snd v = None)"
    by (simp add: verify_call_def clean_def split_beta)
  then show ?thesis by (simp only: verify_two_results_clean all_adjacent)
qed

lemma verify_results_clean:
  "(\<forall>r \<in> set (verify_results cs D). clean r) \<longleftrightarrow>
     (\<forall>(f, deployments) \<in> set D. \<forall>depl \<in> set deployments. \<forall>rs \<in> set depl.
        \<forall>j. Suc j < length rs \<longrightarrow> agree (rs ! j) (rs ! Suc j))"
proof -
  have "(\<forall>r \<in> set (concat (map (verify_call cs f i) (enumerate 0 depl))). clean r) \<longleftrightarrow>
      (\<forall>(k, rs) \<in> set (enumerate 0 depl). \<forall>j. Suc j < length rs \<longrightarrow> agree (rs ! j) (rs ! Suc j))" for f i depl
    by (simp add: verify_call_clean split_beta)
  note inner = this [unfolded all_enumerate]
  have "(\<forall>r \<in> set (concat (map (\<lambda>(i, depl). concat (map (verify_call cs f i) (enumerate 0 depl)))
        (enumerate 0 deployments))). clean r) \<longleftrightarrow>
      (\<forall>(i, depl) \<in> set (enumerate 0 deployments). \<forall>rs \<in> set depl. \<forall>j. Suc j < length rs \<longrightarrow> agree (rs ! j) (rs ! Suc j))"
    for f deployments
    using inner by (simp add: split_beta)
  note outer = this [unfolded all_enumerate]
  show ?thesis unfolding verify_results_def using outer by (simp add: split_beta)
qed

lemma holds_rows_entry:
  assumes "holds_rows fs E D"
  shows "(f, rows) \<in> set D \<Longrightarrow> f \<in> set fs \<and> rows = E f"
    and "f \<in> set fs \<Longrightarrow> E f \<noteq> [] \<Longrightarrow> (f, E f) \<in> set D"
proof -
  show "(f, rows) \<in> set D \<Longrightarrow> f \<in> set fs \<and> rows = E f"
    using assms by (force simp: holds_rows_def dget_def)
  show "f \<in> set fs \<Longrightarrow> E f \<noteq> [] \<Longrightarrow> (f, E f) \<in> set D"
    using assms by (auto simp: holds_rows_def dget_def dest: map_of_SomeD split: option.splits)
qed

lemma verify_reshaped:
  assumes "distinct fs" and "cs \<noteq> []" and "\<forall>c \<in> set cs. map_of doc c = Some (uniform fs n p R c)"
  shows "\<exists>D. reshape_data cs doc = Inr D \<and>
    ((\<forall>r \<in> set (verify_results cs D). clean r) \<longleftrightarrow>
      (\<forall>f \<in> set fs. \<forall>i < n. \<forall>k < p. \<forall>j. Suc j < length cs \<longrightarrow> agree (R (cs ! j) i f k) (R (cs ! Suc j) i f k)))"
proof -
  let ?E = "\<lambda>f. map (\<lambda>i. row cs p R i f) [0..<n]"
  obtain D where D: "reshape_data cs doc = Inr D" "holds_rows fs ?E D"
    using reshape_uniform [OF assms(1,3)] assms(2) by auto
  have cell: "(\<forall>depl \<in> set (?E f). \<forall>rs \<in> set depl. Q rs) \<longleftrightarrow>
      (\<forall>i < n. \<forall>k < p. Q (map (\<lambda>c. R c i f k) cs))" for f Q
    using assms(2) by (auto simp: row_def)
  let ?Q = "\<lambda>rs. \<forall>j. Suc j < length rs \<longrightarrow> agree (rs ! j) (rs ! Suc j)"
  have "(\<forall>(f, deployments) \<in> set D. \<forall>depl \<in> set deployments. \<forall>rs \<in> set depl. ?Q rs) \<longleftrightarrow>
      (\<forall>f \<in> set fs. \<forall>depl \<in> set (?E f). \<forall>rs \<in> set depl. ?Q rs)" (is "?lhs \<longleftrightarrow> ?rhs")
  proof
    assume lhs: ?lhs
    show ?rhs
    proof
      fix f
      assume f: "f \<in> set fs"
      show "\<forall>depl \<in> set (?E f). \<forall>rs \<in> set depl. ?Q rs"
      proof (cases "?E f = []")
        case False
        from holds_rows_entry(2) [OF D(2) f False] lhs show ?thesis by blast
      qed simp
    qed
  next
    assume rhs: ?rhs
    show ?lhs using holds_rows_entry(1) [OF D(2)] rhs by blast
  qed
  then have "(\<forall>r \<in> set (verify_results cs D). clean r) \<longleftrightarrow> (\<forall>f \<in> set fs. \<forall>i < n. \<forall>k < p. ?Q (map (\<lambda>c. R c i f k) cs))"
    unfolding verify_results_clean cell .
  then show ?thesis using D(1) by auto
qed

section \<open>Passes\<close>

lemma handle_docs_member:
  assumes "handle_docs cs ds = Inr (reports, ids)" and "d \<in> set ds"
  shows "\<exists>r. handle_doc cs d = Inr r \<and>
    (\<forall>rep b. r = Some (rep, b) \<longrightarrow> (generation_id d, rep) \<in> set reports \<and> (b \<longrightarrow> doc_id d \<in> set ids))"
  using assms
proof (induction ds arbitrary: reports ids)
  case (Cons x xs)
  then obtain r reports' ids' where r: "handle_doc cs x = Inr r" "handle_docs cs xs = Inr (reports', ids')"
    and out: "(reports, ids) = (case r of None \<Rightarrow> (reports', ids')
       | Some (rep, handled) \<Rightarrow> ((generation_id x, rep) # reports', if handled then doc_id x # ids' else ids'))"
    by (auto simp: bindR_Inr_iff)
  have mono: "set reports' \<subseteq> set reports" "set ids' \<subseteq> set ids"
    using out by (auto split: option.splits if_splits)
  show ?case
  proof (cases "d = x")
    case True
    then show ?thesis using r(1) out by (auto split: if_splits)
  next
    case False
    then obtain q where "handle_doc cs d = Inr q"
      "\<forall>rep b. q = Some (rep, b) \<longrightarrow> (generation_id d, rep) \<in> set reports' \<and> (b \<longrightarrow> doc_id d \<in> set ids')"
      using Cons.IH [OF r(2)] Cons.prems(2) by auto
    then show ?thesis using mono by blast
  qed
qed simp

lemma handle_docs_ids:
  assumes "handle_docs cs ds = Inr (reports, ids)" and "i \<in> set ids"
  shows "\<exists>d \<in> set ds. doc_id d = i \<and> (\<exists>rep. handle_doc cs d = Inr (Some (rep, True)))"
  using assms
proof (induction ds arbitrary: reports ids)
  case (Cons x xs)
  then obtain r reports' ids' where r: "handle_doc cs x = Inr r" "handle_docs cs xs = Inr (reports', ids')"
    and out: "(reports, ids) = (case r of None \<Rightarrow> (reports', ids')
       | Some (rep, handled) \<Rightarrow> ((generation_id x, rep) # reports', if handled then doc_id x # ids' else ids'))"
    by (auto simp: bindR_Inr_iff)
  have "i \<in> set ids' \<or> i = doc_id x \<and> (\<exists>rep. r = Some (rep, True))"
    using out Cons.prems(2) by (auto split: option.splits if_splits)
  then show ?case
  proof
    assume "i \<in> set ids'"
    then show ?thesis using Cons.IH [OF r(2)] by auto
  next
    assume "i = doc_id x \<and> (\<exists>rep. r = Some (rep, True))"
    then show ?thesis using r(1) by auto
  qed
qed simp

lemma handled_is_ready:
  "handle_doc cs d = Inr (Some (rep, b)) \<Longrightarrow> ready_to_handle (target_fields cs) (doc_results d)"
  by (auto simp: handle_doc_def Let_def split: if_splits)

text \<open>
  A pass handles every document that is complete, valid and deployed everywhere. A document with a
  deployment error gets a report in every pass and stays unhandled.
\<close>

lemma pass_handles:
  assumes "verifier_pass cs (docs, stored) = Inr (docs', stored')"
    and "d \<in> set docs" and "is_handled d = Some False"
    and "handle_doc cs d = Inr (Some (rep, True))"
  shows "d\<lparr>is_handled := Some True\<rparr> \<in> set docs' \<and> (generation_id d, rep) \<in> set stored'"
proof -
  let ?un = "filter (\<lambda>d. is_handled d = Some False) docs"
  obtain reports ids where h: "handle_docs cs ?un = Inr (reports, ids)"
    and out: "(docs', stored') = (if reports \<noteq> [] then (map (mark_handled ids) docs, stored @ reports) else (docs, stored))"
    using assms(1) by (auto simp: verifier_pass_def verifier_scan_def bindR_Inr_iff Let_def split: if_splits)
  have d: "d \<in> set ?un" using assms(2,3) by simp
  have "(generation_id d, rep) \<in> set reports" "doc_id d \<in> set ids"
    using handle_docs_member [OF h d] assms(4) by auto
  then show ?thesis using out assms(2) by (force simp: mark_handled_def split: if_splits)
qed

lemma pass_reverifies:
  assumes "verifier_pass cs (docs, stored) = Inr (docs', stored')"
    and "d \<in> set docs" and "is_handled d = Some False" and "distinct (map doc_id docs)"
    and "handle_doc cs d = Inr (Some (rep, False))"
  shows "d \<in> set docs' \<and> (\<exists>new. stored' = stored @ new \<and> (generation_id d, rep) \<in> set new)"
proof -
  let ?un = "filter (\<lambda>d. is_handled d = Some False) docs"
  obtain reports ids where h: "handle_docs cs ?un = Inr (reports, ids)"
    and out: "(docs', stored') = (if reports \<noteq> [] then (map (mark_handled ids) docs, stored @ reports) else (docs, stored))"
    using assms(1) by (auto simp: verifier_pass_def verifier_scan_def bindR_Inr_iff Let_def split: if_splits)
  have d: "d \<in> set ?un" using assms(2,3) by simp
  have rep: "(generation_id d, rep) \<in> set reports"
    using handle_docs_member [OF h d] assms(5) by auto
  have "doc_id d \<notin> set ids"
  proof
    assume "doc_id d \<in> set ids"
    then obtain e rep' where e: "e \<in> set docs" "doc_id e = doc_id d" "handle_doc cs e = Inr (Some (rep', True))"
      using handle_docs_ids [OF h, of "doc_id d"] by auto
    then have "e = d" using assms(2,4) by (auto simp: distinct_map dest: inj_onD)
    then show False using e(3) assms(5) by simp
  qed
  then have "d \<in> set (map (mark_handled ids) docs)" using assms(2) by (force simp: mark_handled_def)
  then show ?thesis using out rep by (auto split: if_splits)
qed

text \<open>What the comparison cannot see: two results that do not agree around one that failed.\<close>

lemma agree_runtime_error [simp]: "agree (RuntimeError e) r" "agree r (RuntimeError e)"
  by (simp_all add: agree_def)

section \<open>The reports of a verification\<close>

text \<open>The report on two neighbouring compilers for one call.\<close>

definition call_report_of ::
  "string list \<Rightarrow> result_table \<Rightarrow> string \<Rightarrow> nat \<Rightarrow> nat \<Rightarrow> nat \<Rightarrow> call_report" where
  "call_report_of cs R f i k j =
     \<lparr>cr_compilers = (cs ! j, cs ! Suc j), cr_function = f, cr_deployment = i, cr_params_set = k,
      cr_results = verify_two_results (R (cs ! j) i f k) (R (cs ! Suc j) i f k)\<rparr>"

lemma verify_call_set:
  "set (verify_call cs f i (k, rs)) =
     {\<lparr>cr_compilers = (cs ! j, cs ! Suc j), cr_function = f, cr_deployment = i, cr_params_set = k,
       cr_results = verify_two_results (rs ! j) (rs ! Suc j)\<rparr> | j. Suc j < length rs}"
proof -
  have "set (adjacent rs) = (\<lambda>j. (j, rs ! j, rs ! Suc j)) ` {j. Suc j < length rs}"
    by (auto simp: adjacent_iff)
  then show ?thesis by (simp add: verify_call_def image_image setcompr_eq_image)
qed

lemma verify_results_set:
  "r \<in> set (verify_results cs D) \<longleftrightarrow>
     (\<exists>f rows i k. (f, rows) \<in> set D \<and> i < length rows \<and> k < length (rows ! i) \<and>
        r \<in> set (verify_call cs f i (k, rows ! i ! k)))"
  by (force simp: verify_results_def in_set_enumerate_eq)

lemma reports_of_rows:
  assumes "holds_rows fs (\<lambda>f. map (\<lambda>i. row cs p R i f) [0..<n]) D" and "cs \<noteq> []"
  shows "set (verify_results cs D) =
    {call_report_of cs R f i k j | f i k j. f \<in> set fs \<and> i < n \<and> k < p \<and> Suc j < length cs}"
proof -
  let ?E = "\<lambda>f. map (\<lambda>i. row cs p R i f) [0..<n]"
  have cell: "set (verify_call cs f i (k, ?E f ! i ! k)) = {call_report_of cs R f i k j | j. Suc j < length cs}"
    if "i < n" "k < p" for f i k
    using that assms(2) by (auto simp: verify_call_set row_def call_report_of_def)
  have len: "length (?E f) = n" "i < n \<Longrightarrow> length (?E f ! i) = p" for f i
    using assms(2) by (simp_all add: row_def)
  show ?thesis
  proof (intro set_eqI iffI)
    fix r
    assume "r \<in> set (verify_results cs D)"
    then obtain f rows i k where r: "(f, rows) \<in> set D" "i < length rows" "k < length (rows ! i)"
      "r \<in> set (verify_call cs f i (k, rows ! i ! k))" unfolding verify_results_set by blast
    from holds_rows_entry(1) [OF assms(1) r(1)] have f: "f \<in> set fs" "rows = ?E f" by simp_all
    then have "i < n" "k < p" using r(2,3) len by simp_all
    then show "r \<in> {call_report_of cs R f i k j | f i k j. f \<in> set fs \<and> i < n \<and> k < p \<and> Suc j < length cs}"
      using r(4) f cell by blast
  next
    fix r
    assume "r \<in> {call_report_of cs R f i k j | f i k j. f \<in> set fs \<and> i < n \<and> k < p \<and> Suc j < length cs}"
    then obtain f i k j where r: "f \<in> set fs" "i < n" "k < p" "Suc j < length cs" "r = call_report_of cs R f i k j"
      by blast
    then have "?E f \<noteq> []" by simp
    from holds_rows_entry(2) [OF assms(1) r(1) this] have "(f, ?E f) \<in> set D" .
    moreover have "r \<in> set (verify_call cs f i (k, ?E f ! i ! k))" using cell r by blast
    ultimately show "r \<in> set (verify_results cs D)"
      unfolding verify_results_set using r(2,3) len by metis
  qed
qed

lemma reports_of_uniform:
  assumes "distinct fs" and "cs \<noteq> []" and "\<forall>c \<in> set cs. map_of doc c = Some (uniform fs n p R c)"
  shows "\<exists>D. reshape_data cs doc = Inr D \<and> set (verify_results cs D) =
    {call_report_of cs R f i k j | f i k j. f \<in> set fs \<and> i < n \<and> k < p \<and> Suc j < length cs}"
  using reshape_uniform [OF assms(1,3)] reports_of_rows [of fs cs p R n] assms(2) by auto

lemma call_report_clean:
  "clean (call_report_of cs R f i k j) \<longleftrightarrow> agree (R (cs ! j) i f k) (R (cs ! Suc j) i f k)"
  using verify_two_results_clean by (simp add: clean_def call_report_of_def)

text \<open>Two results of which one is a runtime error are not compared.\<close>

definition one_failed :: "exec_result \<Rightarrow> exec_result \<Rightarrow> bool" where
  "one_failed r0 r1 \<longleftrightarrow> (\<exists>e. r0 = RuntimeError e) \<or> (\<exists>e. r1 = RuntimeError e)"

lemma one_failed_reports: "one_failed r0 r1 \<Longrightarrow> verify_two_results r0 r1 = []"
  by (auto simp: one_failed_def verify_two_results_def split: exec_result.splits)

section \<open>What becomes of a document\<close>

lemma is_valid_deployed:
  "\<forall>f \<in> set fs. \<exists>d ds. map_of doc f = Some (d # ds) \<and> d \<noteq> Deployed [] \<Longrightarrow> is_valid fs doc = Inr True"
  by (induction fs) (auto simp: field_of_def deployment_empty_def)

lemma target_fields_simps [simp]: "target_fields cs = [] \<longleftrightarrow> cs = []" "length (target_fields cs) = length cs"
  by (simp_all add: target_fields_def)

text \<open>A complete document whose compilers all deployed a contract with functions.\<close>

lemma handle_doc_deployed:
  assumes "distinct fs" and "fs \<noteq> []" and "cs \<noteq> []" and "0 < n"
    and "\<forall>c \<in> set (target_fields cs). map_of (doc_results d) c = Some (uniform fs n p R c)"
  shows "\<exists>D. reshape_data (target_fields cs) (doc_results d) = Inr D \<and>
    handle_doc cs d = Inr (Some (CallReports (verify_results (target_fields cs) D), True)) \<and>
    set (verify_results (target_fields cs) D) =
      {call_report_of (target_fields cs) R f i k j | f i k j. f \<in> set fs \<and> i < n \<and> k < p \<and> Suc j < length cs}"
proof -
  let ?fields = "target_fields cs" and ?doc = "doc_results d"
  have ready: "ready_to_handle ?fields ?doc" using assms(5) by (auto simp: ready_to_handle_def list_all_iff)
  have "\<exists>x xs. uniform fs n p R c = x # xs \<and> x \<noteq> Deployed []" for c
    using assms(2,4) by (simp add: uniform_def upt_conv_Cons)
  then have valid: "is_valid ?fields ?doc = Inr True" using assms(5) by (intro is_valid_deployed) simp
  have same: "same_deployments ?fields n ?doc" using assms(5) by (simp add: same_deployments_def uniform_def)
  have no_error: "\<not> (\<exists>f \<in> set ?fields. \<exists>j < n. error_at ?doc j f \<noteq> None)"
    using assms(5) by (auto simp: error_at_def uniform_def deploy_error_of_def)
  have ne: "?fields \<noteq> []" using assms(3) by simp
  obtain reports where errs: "check_deploy_errors ?fields ?doc = Inr (False, reports)"
    using check_deploy_errors_spec [OF same ne] no_error by auto
  obtain D where D: "reshape_data ?fields ?doc = Inr D" "set (verify_results ?fields D) =
      {call_report_of ?fields R f i k j | f i k j. f \<in> set fs \<and> i < n \<and> k < p \<and> Suc j < length ?fields}"
    using reports_of_uniform [OF assms(1) ne assms(5)] by blast
  then show ?thesis using ready valid errs by (intro exI [of _ D]) (simp add: handle_doc_def Let_def)
qed

text \<open>A complete document with a deployment error.\<close>

lemma handle_doc_failed:
  assumes "cs \<noteq> []" and "same_deployments (target_fields cs) n (doc_results d)" and "0 < n"
    and "\<forall>f \<in> set (target_fields cs). the (map_of (doc_results d) f) ! 0 \<noteq> Deployed []"
    and "\<exists>f \<in> set (target_fields cs). \<exists>j < n. error_at (doc_results d) j f \<noteq> None"
  shows "\<exists>reports. handle_doc cs d = Inr (Some (DeployReports reports, False)) \<and>
    ((\<forall>r \<in> set reports. dr_results r = None) \<longleftrightarrow>
      (\<forall>j < n. \<forall>f \<in> set (target_fields cs). \<forall>g \<in> set (target_fields cs).
        error_at (doc_results d) j f = error_at (doc_results d) j g))"
proof -
  let ?fields = "target_fields cs" and ?doc = "doc_results d"
  have found: "\<exists>x xs. map_of ?doc f = Some (x # xs) \<and> x \<noteq> Deployed []" if f: "f \<in> set ?fields" for f
  proof -
    obtain ds where ds: "map_of ?doc f = Some ds" "length ds = n"
      using assms(2) f unfolding same_deployments_def by blast
    obtain x xs where x: "ds = x # xs" using ds(2) assms(3) by (cases ds) simp_all
    have "the (map_of ?doc f) ! 0 \<noteq> Deployed []" by (rule bspec [OF assms(4) f])
    then show ?thesis using ds(1) x by simp
  qed
  have "map_of ?doc f \<noteq> None" if "f \<in> set ?fields" for f using found [OF that] by auto
  then have ready: "ready_to_handle ?fields ?doc" by (simp add: ready_to_handle_def list_all_iff)
  have valid: "is_valid ?fields ?doc = Inr True" using found by (intro is_valid_deployed) simp
  have ne: "?fields \<noteq> []" using assms(1) by simp
  obtain reports where "check_deploy_errors ?fields ?doc = Inr (True, reports)"
    and "(\<forall>r \<in> set reports. dr_results r = None) \<longleftrightarrow>
      (\<forall>j < n. \<forall>f \<in> set ?fields. \<forall>g \<in> set ?fields. error_at ?doc j f = error_at ?doc j g)"
    using check_deploy_errors_spec [OF assms(2) ne] unfolding eqTrueI [OF assms(5)] by blast
  then show ?thesis using ready valid by (intro exI [of _ reports]) (simp add: handle_doc_def Let_def)
qed

text \<open>A contract without functions is skipped: no pass reports it or marks it.\<close>

lemma handle_doc_empty:
  assumes "ready_to_handle (target_fields (c # cs)) (doc_results d)"
    and "map_of (doc_results d) (''result_'' @ c) = Some (Deployed [] # ds)"
  shows "handle_doc (c # cs) d = Inr None"
  using assms by (simp add: handle_doc_def target_fields_def field_of_def deployment_empty_def)

text \<open>What is reshaped has no failed deployment in it.\<close>

lemma put_at_items: "put_at j x xss = Inr yss \<Longrightarrow> set (concat yss) = insert x (set (concat xss))"
proof -
  assume put: "put_at j x xss = Inr yss"
  then have j: "j < length (grow j xss)" and yss: "yss = (grow j xss)[j := grow j xss ! j @ [x]]"
    by (auto simp: put_at_def upd_at_def Let_def split: if_splits)
  let ?g = "grow j xss"
  have g: "set (concat ?g) = set (concat xss)" by (simp add: grow_def)
  have split: "?g = take j ?g @ ?g ! j # drop (Suc j) ?g" using j by (simp add: id_take_nth_drop)
  have "yss = take j ?g @ (?g ! j @ [x]) # drop (Suc j) ?g" using yss j by (simp add: upd_conv_take_nth_drop)
  then have "set (concat yss) = insert x (set (concat (take j ?g @ ?g ! j # drop (Suc j) ?g)))" by auto
  then show ?thesis using split g by simp
qed

lemma put_all_items:
  "foldR (\<lambda>xss (j, y). put_at j (h y) xss) xss js = Inr yss \<Longrightarrow>
     set (concat yss) = set (concat xss) \<union> h ` snd ` set js"
proof (induction js arbitrary: xss)
  case (Cons p js)
  then obtain zss where z: "put_at (fst p) (h (snd p)) xss = Inr zss"
    "foldR (\<lambda>xss (j, y). put_at j (h y) xss) zss js = Inr yss" by (cases p) (auto simp: bindR_Inr_iff)
  have "set (concat yss) = set (concat zss) \<union> h ` snd ` set js" by (rule Cons.IH [OF z(2)])
  also have "set (concat zss) = insert (h (snd p)) (set (concat xss))" by (rule put_at_items [OF z(1)])
  finally show ?case by simp
qed simp

lemma collected_errors:
  assumes "collect_errors fs doc = Inr errs" and "f \<in> set fs" and "map_of doc f = Some ds" and "d \<in> set ds"
  shows "deploy_error_of d \<in> set (concat errs)"
proof -
  let ?step = "\<lambda>errs f. bindR (field_of doc f) (\<lambda>ds.
       foldR (\<lambda>errs (j, d). put_at j (deploy_error_of d) errs) errs (enumerate 0 ds))"
  have "set (concat a) \<subseteq> set (concat b) \<and> (f \<in> set gs \<longrightarrow> deploy_error_of d \<in> set (concat b))"
    if "foldR ?step a gs = Inr b" for gs a b
    using that
  proof (induction gs arbitrary: a)
    case (Cons g gs)
    then obtain es a' where es: "map_of doc g = Some es"
      and a': "foldR (\<lambda>errs (j, d). put_at j (deploy_error_of d) errs) a (enumerate 0 es) = Inr a'"
      and rest: "foldR ?step a' gs = Inr b"
      by (auto simp: bindR_Inr_iff field_of_def split: option.splits)
    have "snd ` set (enumerate 0 es) = set es" by (metis map_snd_enumerate set_map)
    then have "set (concat a') = set (concat a) \<union> deploy_error_of ` set es" using put_all_items [OF a'] by simp
    moreover have "g = f \<Longrightarrow> es = ds" using es assms(3) by simp
    ultimately show ?case using Cons.IH [OF rest] assms(4) by auto
  qed simp
  then show ?thesis using assms(1,2) unfolding collect_errors_def by blast
qed

lemma reshaped_are_deployed:
  assumes "check_deploy_errors fs doc = Inr (False, reports)"
    and "f \<in> set fs" and "map_of doc f = Some ds" and "d \<in> set ds"
  shows "\<exists>calls. d = Deployed calls"
proof -
  obtain errs where "collect_errors fs doc = Inr errs" "\<not> list_ex (list_ex (\<lambda>e. e \<noteq> None)) errs"
    using assms(1) by (auto simp: check_deploy_errors_def bindR_Inr_iff)
  then have "deploy_error_of d = None" using collected_errors [OF _ assms(2-4)] by (fastforce simp: list_ex_iff)
  then show ?thesis by (cases d) (simp_all add: deploy_error_of_def)
qed

end
