(* ===== verification/Services.thy ===== *)
theory Services imports Json_Codec Verifier begin

text \<open>
  The services around the converter: the queue connection and the configuration
  (\<^verbatim>\<open>helpers/queue_managers.py\<close>, \<^verbatim>\<open>helpers/config.py\<close>), the
  inputs a generator draws (\<^verbatim>\<open>generators/run_api.py\<close>) and the execution of a contract
  by a runner (\<^verbatim>\<open>runners/runner_api.py\<close>).
\<close>

section \<open>Connecting to the queue\<close>

text \<open>
  \<^verbatim>\<open>__connect\<close>: the outcome of the k-th attempt is \<open>ok k\<close>; the counter is
  increased after a failure, and from 20 on the failure is passed on. Returns the counter.
\<close>

datatype connection = Connected nat | AMQPConnectionError nat

function connect :: "(nat \<Rightarrow> bool) \<Rightarrow> nat \<Rightarrow> connection" where
  "connect ok attempts =
     (if ok attempts then Connected attempts
      else let attempt = attempts + 1 in
        if attempt < 20 then connect ok attempt else AMQPConnectionError attempt)"
  by auto
termination by (relation "measure (\<lambda>(ok, attempts). 20 - attempts)") auto

declare connect.simps [simp del]

definition new_connection :: "(nat \<Rightarrow> bool) \<Rightarrow> connection" where
  "new_connection ok = connect ok 0"

lemma connect_spec:
  "k < 20 \<Longrightarrow> connect ok k =
     (if \<exists>j. k \<le> j \<and> j < 20 \<and> ok j then Connected (LEAST j. k \<le> j \<and> ok j) else AMQPConnectionError 20)"
proof (induction ok k rule: connect.induct)
  case (1 ok k)
  show ?case
  proof (cases "ok k")
    case True
    then have "(LEAST j. k \<le> j \<and> ok j) = k" by (intro Least_equality) auto
    then show ?thesis using True "1.prems" by (subst connect.simps) auto
  next
    case False
    have shift: "k \<le> j \<and> ok j \<longleftrightarrow> Suc k \<le> j \<and> ok j" for j
      using False by (metis Suc_leD Suc_leI le_neq_implies_less)
    show ?thesis
    proof (cases "k + 1 < 20")
      case True
      have c: "connect ok k = connect ok (k + 1)" using False True by (subst connect.simps) (simp add: Let_def)
      have e: "(\<exists>j. k \<le> j \<and> j < 20 \<and> ok j) \<longleftrightarrow> (\<exists>j. k + 1 \<le> j \<and> j < 20 \<and> ok j)"
        using shift by auto
      have l: "(LEAST j. k \<le> j \<and> ok j) = (LEAST j. k + 1 \<le> j \<and> ok j)"
        using shift by simp
      show ?thesis unfolding c e l by (rule "1.IH" [OF False refl True True])
    next
      case k: False
      then have "k = 19" using "1.prems" by simp
      then have "k \<le> j \<Longrightarrow> j < 20 \<Longrightarrow> j = k" for j by simp
      then have "\<not> (\<exists>j. k \<le> j \<and> j < 20 \<and> ok j)" using False by blast
      then show ?thesis using False k \<open>k = 19\<close> by (subst connect.simps) (simp add: Let_def)
    qed
  qed
qed

section \<open>Configuration\<close>

text \<open>Values of the configuration file, and whether Python takes one for true.\<close>

datatype yaml = YNull | YBool bool | YInt int | YStr string

fun truthy :: "yaml \<Rightarrow> bool" where
  "truthy YNull = False"
| "truthy (YBool b) = b"
| "truthy (YInt i) = (i \<noteq> 0)"
| "truthy (YStr s) = (s \<noteq> '''')"

record compiler_conf =
  cc_name :: string
  cc_queue :: string
  exec_params :: "(string \<times> yaml) list"

record queue_conf =
  qc_host :: string
  qc_port :: nat

record active_queue = queue_conf +
  queue_name :: string

record config =
  cf_queues :: "(string \<times> queue_conf) list"
  cf_compilers :: "compiler_conf list"
  input_strategies :: "strategy list"
  extra_flags :: "string list"

text \<open>
  \<^verbatim>\<open>Config.compiler_queues\<close>: each queue that a compiler uses once, in the order of the
  compilers. A name without a queue raises.
\<close>

definition activate :: "queue_conf \<Rightarrow> active_queue" where
  "activate q = \<lparr>qc_host = qc_host q, qc_port = qc_port q, queue_name = ''queue3.10''\<rparr>"

fun compiler_queues ::
  "(string \<times> queue_conf) list \<Rightarrow> compiler_conf list \<Rightarrow> (string \<times> active_queue) list \<Rightarrow> (string \<times> active_queue) list res"
where
  "compiler_queues queues [] active = Inr active"
| "compiler_queues queues (c # cs) active =
     (if dhas active (cc_queue c) then compiler_queues queues cs active
      else case map_of queues (cc_queue c) of
        None \<Rightarrow> Inl (KeyError (cc_queue c))
      | Some q \<Rightarrow> compiler_queues queues cs (AList.update (cc_queue c) (activate q) active))"

definition get_compiler_params_by_name :: "string \<Rightarrow> compiler_conf list \<Rightarrow> compiler_conf option" where
  "get_compiler_params_by_name name cs = find (\<lambda>c. cc_name c = name) cs"

lemma compiler_queues_keys:
  assumes "compiler_queues queues cs active = Inr out" and "distinct (map fst active)"
  shows "distinct (map fst out) \<and> fst ` set out = fst ` set active \<union> cc_queue ` set cs"
  using assms
proof (induction cs arbitrary: active)
  case (Cons c cs)
  show ?case
  proof (cases "dhas active (cc_queue c)")
    case True
    then have "compiler_queues queues cs active = Inr out" using Cons.prems(1) by simp
    from Cons.IH [OF this Cons.prems(2)] True show ?thesis by (auto simp: dhas_iff_key)
  next
    case False
    then obtain q where q: "map_of queues (cc_queue c) = Some q"
      using Cons.prems(1) by (auto split: option.splits)
    let ?a = "AList.update (cc_queue c) (activate q) active"
    have "compiler_queues queues cs ?a = Inr out" using Cons.prems(1) False q by simp
    from Cons.IH [OF this distinct_update [OF Cons.prems(2)]] show ?thesis
      by (auto simp: dom_update)
  qed
qed simp

section \<open>The generator's inputs\<close>

type_synonym inputs = "(string \<times> gen_val list list) list"

text \<open>
  \<^verbatim>\<open>GeneratorBase.generate_inputs\<close>: one list of arguments per function and strategy.
\<close>

fun strategy_inputs ::
  "pyenv \<Rightarrow> string \<Rightarrow> vy_type list \<Rightarrow> strategy list \<Rightarrow> inputs \<Rightarrow> draws \<Rightarrow> (inputs \<times> draws) res" where
  "strategy_inputs E name types [] input_values r = Inr (input_values, r)"
| "strategy_inputs E name types (st # sts) input_values r =
     bindR (generate_inputs st E types r) (\<lambda>(args, r).
       strategy_inputs E name types sts
         (AList.update name (dget input_values name [] @ [args]) input_values) r)"

fun function_input_values ::
  "pyenv \<Rightarrow> strategy list \<Rightarrow> (string \<times> vy_type list) list \<Rightarrow> inputs \<Rightarrow> draws \<Rightarrow> (inputs \<times> draws) res" where
  "function_input_values E sts [] input_values r = Inr (input_values, r)"
| "function_input_values E sts ((name, types) # fs) input_values r =
     bindR (strategy_inputs E name types sts input_values r) (\<lambda>(input_values, r).
       function_input_values E sts fs input_values r)"

definition inputs_obj :: "inputs \<Rightarrow> pyobj" where
  "inputs_obj ins = ODict (map (\<lambda>(n, xss). (n, OList (map (\<lambda>xs. OList (map obj_of xs)) xss))) ins)"

text \<open>The message carries them as JSON text.\<close>

definition encoded_inputs :: "decimal_text \<Rightarrow> inputs \<Rightarrow> json" where
  "encoded_inputs T ins = encode T (inputs_obj ins)"

section \<open>Messages\<close>

text \<open>
  What a generator publishes. \<open>m_results\<close> are the fields with the generated sources, one
  with the plain generators, one per converter with the differential one.
\<close>

record message =
  m_id :: string
  m_results :: "(string \<times> string) list"
  m_inputs :: json
  m_json_msg :: string
  m_version :: string

section \<open>The runner\<close>

text \<open>
  The settings a runner compiles with. \<^verbatim>\<open>OptimizationLevel.from_string\<close> is a parameter:
  it belongs to the compiler.
\<close>

datatype comp_settings = Flags (experimental_codegen: bool) (enable_decimals: bool) | Optimize nat

datatype runner_class = RunnerBase | RunnerDiff | RunnerAdder

definition base_settings :: "string \<Rightarrow> compiler_conf \<Rightarrow> string list \<Rightarrow> comp_settings" where
  "base_settings name params flags =
     Flags (truthy (dget (exec_params params) name (YBool False))) (''enable_decimals'' \<in> set flags)"

definition optimize_settings :: "(yaml \<Rightarrow> nat res) \<Rightarrow> compiler_conf \<Rightarrow> comp_settings res" where
  "optimize_settings from_string params =
     (case map_of (exec_params params) ''optimization'' of
        None \<Rightarrow> Inl (KeyError ''optimization'')
      | Some v \<Rightarrow> bindR (from_string v) (\<lambda>l. Inr (Optimize l)))"

fun init_compiler_settings ::
  "(yaml \<Rightarrow> nat res) \<Rightarrow> runner_class \<Rightarrow> string \<Rightarrow> compiler_conf \<Rightarrow> string list \<Rightarrow> comp_settings res" where
  "init_compiler_settings from_string RunnerBase name params flags = Inr (base_settings name params flags)"
| "init_compiler_settings from_string RunnerDiff name params flags =
     (if name = ''nagini'' then Inr (base_settings name params flags) else optimize_settings from_string params)"
| "init_compiler_settings from_string RunnerAdder name params flags = optimize_settings from_string params"

text \<open>\<^verbatim>\<open>generation_result\<close>: the field of the message with the source to compile.\<close>

fun result_field :: "runner_class \<Rightarrow> string \<Rightarrow> string" where
  "result_field RunnerDiff name = ''generation_result_'' @ name"
| "result_field _ name = ''generation_result''"

record runner =
  source_field :: string
  comp_settings :: comp_settings
  inputs_per_function :: nat

text \<open>
  \<^verbatim>\<open>RunnerBase.__init__\<close>: the parameters of the compiler the service is named after, the
  queue it reads and the settings.
\<close>

definition init_runner ::
  "(yaml \<Rightarrow> nat res) \<Rightarrow> runner_class \<Rightarrow> string \<Rightarrow> config \<Rightarrow> (runner \<times> active_queue) res" where
  "init_runner from_string cls name conf =
     (case get_compiler_params_by_name name (cf_compilers conf) of
        None \<Rightarrow> Inl (TypeError ''NoneType object is not subscriptable'')
      | Some params \<Rightarrow>
          bindR (compiler_queues (cf_queues conf) (cf_compilers conf) []) (\<lambda>active.
            case map_of active (cc_queue params) of
              None \<Rightarrow> Inl (KeyError (cc_queue params))
            | Some queue \<Rightarrow>
                bindR (init_compiler_settings from_string cls name params (extra_flags conf)) (\<lambda>settings.
                  Inr (\<lparr>source_field = result_field cls name, comp_settings = settings,
                        inputs_per_function = length (input_strategies conf)\<rparr>, queue))))"

text \<open>
  What a runner relies on of the compiler and the interpreter it is built for: loading a source with
  constructor arguments under its settings, the names a contract offers, and calling one. A call
  returns the contract in its new state.
\<close>

record outcome =
  out_storage :: "nat \<Rightarrow> int"
  out_memory :: "8 word list"
  out_gas :: int
  out_value :: pyobj

record 'c interpreter =
  boa_loads :: "comp_settings \<Rightarrow> string \<Rightarrow> pyobj list \<Rightarrow> string + 'c"
  contract_dir :: "'c \<Rightarrow> string list"
  contract_call :: "'c \<Rightarrow> string \<Rightarrow> pyobj list \<Rightarrow> (string + outcome) \<times> 'c"
  json_text :: "json \<Rightarrow> string"
  decimals_text :: decimal_text

text \<open>
  \<^verbatim>\<open>compose_result\<close>: the first ten storage slots, the memory, the gas and the value.
\<close>

definition compose_result :: "'c interpreter \<Rightarrow> outcome \<Rightarrow> exec_result" where
  "compose_result I out =
     Executed (map (\<lambda>i. py_str (out_storage out i)) [0..<10]) (bytes_hex (out_memory out)) (out_gas out)
       (json_text I (encode (decimals_text I) (out_value out)))"

definition execution_result :: "'c interpreter \<Rightarrow> 'c \<Rightarrow> string \<Rightarrow> pyobj list \<Rightarrow> exec_result \<times> 'c" where
  "execution_result I c fn args =
     (let (r, c) = contract_call I c fn args
      in (case r of Inl e \<Rightarrow> RuntimeError e | Inr out \<Rightarrow> compose_result I out, c))"

type_synonym arguments = "(string \<times> pyobj list list) list"

text \<open>\<^verbatim>\<open>input_values[fn][i]\<close> for each input set.\<close>

fun call_inputs :: "'c interpreter \<Rightarrow> string \<Rightarrow> pyobj list list \<Rightarrow> nat list \<Rightarrow> 'c \<Rightarrow> (exec_result list \<times> 'c) res" where
  "call_inputs I fn argss [] c = Inr ([], c)"
| "call_inputs I fn argss (i # is) c =
     (if length argss \<le> i then Inl (IndexError ''list index out of range'')
      else let (r, c) = execution_result I c fn (argss ! i) in
        bindR (call_inputs I fn argss is c) (\<lambda>(rs, c). Inr (r # rs, c)))"

fun call_functions ::
  "'c interpreter \<Rightarrow> nat \<Rightarrow> arguments \<Rightarrow> string list \<Rightarrow> 'c \<Rightarrow> ((string \<times> exec_result list) list \<times> 'c) res" where
  "call_functions I n input_values [] c = Inr ([], c)"
| "call_functions I n input_values (fn # fns) c =
     (case map_of input_values fn of
        None \<Rightarrow> Inl (KeyError fn)
      | Some argss \<Rightarrow>
          bindR (call_inputs I fn argss [0..<n] c) (\<lambda>(rs, c).
          bindR (call_functions I n input_values fns c) (\<lambda>(rest, c). Inr ((fn, rs) # rest, c))))"

definition starts_with :: "string \<Rightarrow> string \<Rightarrow> bool" where
  "starts_with pre s = (take (length pre) s = pre)"

definition externals :: "'c interpreter \<Rightarrow> 'c \<Rightarrow> string list" where
  "externals I c = filter (starts_with ''func'') (contract_dir I c)"

text \<open>
  Loading the contract: the source is looked up inside the \<^verbatim>\<open>try\<close>, so a message without
  the field is a deployment that fails.
\<close>

definition load_contract :: "'c interpreter \<Rightarrow> runner \<Rightarrow> message \<Rightarrow> pyobj list \<Rightarrow> string + 'c" where
  "load_contract I R m iv =
     (case map_of (m_results m) (source_field R) of
        None \<Rightarrow> Inl ([CHR 39] @ source_field R @ [CHR 39])
      | Some source \<Rightarrow> boa_loads I (comp_settings R) source iv)"

fun handle_deployments ::
  "'c interpreter \<Rightarrow> runner \<Rightarrow> message \<Rightarrow> arguments \<Rightarrow> pyobj list list \<Rightarrow> deployment list res" where
  "handle_deployments I R m input_values [] = Inr []"
| "handle_deployments I R m input_values (iv # ivs) =
     bindR (case load_contract I R m iv of
         Inl e \<Rightarrow> Inr (DeployError e)
       | Inr c \<Rightarrow> bindR (call_functions I (inputs_per_function R) input_values (externals I c) c) (\<lambda>(calls, _).
           Inr (Deployed calls)))
       (\<lambda>d. bindR (handle_deployments I R m input_values ivs) (\<lambda>ds. Inr (d # ds)))"

text \<open>
  \<^verbatim>\<open>json.loads(..., cls=ExtendedDecoder)\<close>: a dictionary of lists of argument lists. Nothing
  else is ever published.
\<close>

fun list_of :: "pyobj \<Rightarrow> pyobj list res" where
  "list_of (OList vs) = Inr vs"
| "list_of _ = Inl (TypeError ''list expected'')"

definition entry_of :: "string \<times> pyobj \<Rightarrow> (string \<times> pyobj list list) res" where
  "entry_of kv = bindR (list_of (snd kv)) (\<lambda>vs. bindR (mapR list_of vs) (\<lambda>argss. Inr (fst kv, argss)))"

fun arguments_from :: "pyobj \<Rightarrow> arguments res" where
  "arguments_from (ODict kvs) = mapR entry_of kvs"
| "arguments_from _ = Inl (AttributeError ''get'')"

definition decoded_arguments :: "'c interpreter \<Rightarrow> message \<Rightarrow> arguments res" where
  "decoded_arguments I m = bindR (decode (decimals_text I) (m_inputs m)) arguments_from"

definition run_deployments :: "'c interpreter \<Rightarrow> runner \<Rightarrow> message \<Rightarrow> arguments \<Rightarrow> deployment list res" where
  "run_deployments I R m input_values =
     handle_deployments I R m input_values (dget input_values ''__init__'' [[]])"

definition handle_compilation :: "'c interpreter \<Rightarrow> runner \<Rightarrow> message \<Rightarrow> deployment list res" where
  "handle_compilation I R m = bindR (decoded_arguments I m) (run_deployments I R m)"

text \<open>The drawn arguments as a runner gets them.\<close>

definition arguments_of :: "inputs \<Rightarrow> arguments" where
  "arguments_of ins = map (\<lambda>(n, xss). (n, map (map obj_of) xss)) ins"

lemma mapR_list_of [simp]: "mapR list_of (map OList vss) = Inr vss"
  by (induction vss) simp_all

lemma arguments_from_inputs: "arguments_from (inputs_obj ins) = Inr (arguments_of ins)"
proof -
  have "mapR entry_of (map (\<lambda>(n, xss). (n, OList (map (\<lambda>xs. OList (map obj_of xs)) xss))) ins) =
      Inr (map (\<lambda>(n, xss). (n, map (map obj_of) xss)) ins)"
  proof (induction ins)
    case (Cons p ins)
    obtain n xss where p: "p = (n, xss)" by (cases p)
    have "mapR list_of (map (\<lambda>xs. OList (map obj_of xs)) xss) = Inr (map (map obj_of) xss)"
      using mapR_list_of [of "map (map obj_of) xss"] by (simp add: comp_def)
    then show ?case using Cons.IH p by (simp add: entry_of_def)
  qed simp
  then show ?thesis by (simp add: inputs_obj_def arguments_of_def)
qed

section \<open>A runner never runs out of arguments\<close>

lemma call_inputs_total:
  "\<forall>i \<in> set is. i < length argss \<Longrightarrow>
   \<exists>rs c'. call_inputs I fn argss is c = Inr (rs, c') \<and> length rs = length is"
proof (induction "is" arbitrary: c)
  case (Cons i "is")
  obtain r c1 where "execution_result I c fn (argss ! i) = (r, c1)" by force
  moreover obtain rs c' where "call_inputs I fn argss is c1 = Inr (rs, c')" "length rs = length is"
    using Cons by force
  ultimately show ?case using Cons.prems by simp
qed simp

lemma call_functions_total:
  assumes "\<forall>fn \<in> set fns. \<exists>argss. map_of input_values fn = Some argss \<and> n \<le> length argss"
  shows "\<exists>calls c'. call_functions I n input_values fns c = Inr (calls, c') \<and>
    map fst calls = fns \<and> (\<forall>call \<in> set calls. length (snd call) = n)"
  using assms
proof (induction fns arbitrary: c)
  case (Cons fn fns)
  then obtain argss where argss: "map_of input_values fn = Some argss" "n \<le> length argss" by auto
  then obtain rs c1 where rs: "call_inputs I fn argss [0..<n] c = Inr (rs, c1)" "length rs = n"
    using call_inputs_total [of "[0..<n]" argss] by force
  obtain calls c' where "call_functions I n input_values fns c1 = Inr (calls, c')" "map fst calls = fns"
    "\<forall>call \<in> set calls. length (snd call) = n" using Cons by force
  then show ?case using argss rs by simp
qed simp

text \<open>Every deployment is a failure or has exactly the external functions, each with all its results.\<close>

definition well_shaped :: "string list \<Rightarrow> nat \<Rightarrow> deployment \<Rightarrow> bool" where
  "well_shaped names n d \<longleftrightarrow>
     (case d of
        DeployError e \<Rightarrow> True
      | Deployed calls \<Rightarrow> set (map fst calls) \<subseteq> set names \<and> (\<forall>call \<in> set calls. length (snd call) = n))"

lemma well_shaped_simps [simp]:
  "well_shaped names n (DeployError e)"
  "well_shaped names n (Deployed calls) \<longleftrightarrow>
     set (map fst calls) \<subseteq> set names \<and> (\<forall>call \<in> set calls. length (snd call) = n)"
  by (simp_all add: well_shaped_def)

lemma handle_deployments_total:
  assumes "\<And>iv c. load_contract I R m iv = Inr c \<Longrightarrow> set (externals I c) \<subseteq> set names"
    and "\<forall>fn \<in> set names. \<exists>argss. map_of input_values fn = Some argss \<and> inputs_per_function R \<le> length argss"
  shows "\<exists>ds. handle_deployments I R m input_values ivs = Inr ds \<and> length ds = length ivs \<and>
    list_all (well_shaped names (inputs_per_function R)) ds"
proof (induction ivs)
  case (Cons iv ivs)
  then obtain ds where ds: "handle_deployments I R m input_values ivs = Inr ds" "length ds = length ivs"
    "list_all (well_shaped names (inputs_per_function R)) ds" by auto
  show ?case
  proof (cases "load_contract I R m iv")
    case (Inl e)
    then show ?thesis using ds by simp
  next
    case (Inr c)
    have "\<forall>fn \<in> set (externals I c). \<exists>argss. map_of input_values fn = Some argss \<and> inputs_per_function R \<le> length argss"
      using assms(1) [OF Inr] assms(2) by blast
    from call_functions_total [OF this, of I c]
    obtain calls c' where "call_functions I (inputs_per_function R) input_values (externals I c) c = Inr (calls, c')"
      "map fst calls = externals I c" "\<forall>call \<in> set calls. length (snd call) = inputs_per_function R" by blast
    then show ?thesis using Inr ds assms(1) [OF Inr] by (simp del: set_map)
  qed
qed simp

text \<open>The generator provides one input set per strategy, for every function it knows.\<close>

lemma strategy_inputs_length:
  assumes "strategy_inputs E name types sts ins r = Inr (out, r')"
  shows "(sts \<noteq> [] \<longrightarrow> (\<exists>xss. map_of out name = Some xss \<and> length xss = length (dget ins name []) + length sts)) \<and>
    (\<forall>f. f \<noteq> name \<longrightarrow> map_of out f = map_of ins f) \<and> (sts = [] \<longrightarrow> out = ins)"
  using assms
proof (induction sts arbitrary: ins r)
  case (Cons st sts)
  then obtain args r1 where "generate_inputs st E types r = Inr (args, r1)"
    and rest: "strategy_inputs E name types sts
      (AList.update name (dget ins name [] @ [args]) ins) r1 = Inr (out, r')"
    by (auto simp: bindR_Inr_iff)
  from Cons.IH [OF rest] show ?case
    by (cases "sts = []") (auto simp: dget_update update_conv')
qed simp

lemma function_input_values_length:
  assumes "function_input_values E sts fs ins r = Inr (out, r')" and "sts \<noteq> []"
    and "distinct (map fst fs)" and "\<forall>f \<in> set fs. map_of ins (fst f) = None"
  shows "(\<forall>f \<in> set fs. \<exists>xss. map_of out (fst f) = Some xss \<and> length xss = length sts) \<and>
    (\<forall>n. n \<notin> fst ` set fs \<longrightarrow> map_of out n = map_of ins n)"
  using assms
proof (induction fs arbitrary: ins r)
  case (Cons f fs)
  obtain name types where f: "f = (name, types)" by (cases f)
  then obtain ins1 r1 where one: "strategy_inputs E name types sts ins r = Inr (ins1, r1)"
    and rest: "function_input_values E sts fs ins1 r1 = Inr (out, r')"
    using Cons.prems(1) by (auto simp: bindR_Inr_iff)
  have none: "dget ins name [] = []" using Cons.prems(4) f by (simp add: dget_def)
  note s = strategy_inputs_length [OF one]
  have "map_of ins1 (fst g) = None" if g: "g \<in> set fs" for g
  proof -
    have "fst g \<noteq> name" using Cons.prems(3) f g by auto
    then have "map_of ins1 (fst g) = map_of ins (fst g)" using s by blast
    then show ?thesis using Cons.prems(4) g by simp
  qed
  then have IH: "(\<forall>f \<in> set fs. \<exists>xss. map_of out (fst f) = Some xss \<and> length xss = length sts) \<and>
      (\<forall>n. n \<notin> fst ` set fs \<longrightarrow> map_of out n = map_of ins1 n)"
    using Cons.IH [OF rest Cons.prems(2)] Cons.prems(3) by simp
  have "name \<notin> fst ` set fs" using Cons.prems(3) f by auto
  then have "map_of out name = map_of ins1 name" using IH by blast
  then have "\<exists>xss. map_of out name = Some xss \<and> length xss = length sts"
    using s none Cons.prems(2) by auto
  then show ?case using IH s f by auto
qed simp

section \<open>Runners and queues\<close>

text \<open>A compiler with a configured queue has an active one, of that host and port.\<close>

lemma compiler_queues_value:
  assumes "compiler_queues queues cs active = Inr out"
  shows "map_of out k =
    (if dhas active k then map_of active k
     else if k \<in> cc_queue ` set cs then map_option activate (map_of queues k) else None)"
  using assms
proof (induction cs arbitrary: active)
  case (Cons c cs)
  show ?case
  proof (cases "dhas active (cc_queue c)")
    case True
    then show ?thesis using Cons.prems Cons.IH [of active] by auto
  next
    case False
    then obtain q where q: "map_of queues (cc_queue c) = Some q"
      and rest: "compiler_queues queues cs (AList.update (cc_queue c) (activate q) active) = Inr out"
      using Cons.prems by (auto split: option.splits)
    show ?thesis using Cons.IH [OF rest] False q
      by (cases "k = cc_queue c") (auto simp: dhas_update update_conv' dhas_def)
  qed
qed (simp add: dhas_def)

lemma runner_queue:
  assumes "init_runner from_string cls name conf = Inr (R, queue)"
  shows "\<exists>params active. get_compiler_params_by_name name (cf_compilers conf) = Some params \<and>
    compiler_queues (cf_queues conf) (cf_compilers conf) [] = Inr active \<and>
    map_of active (cc_queue params) = Some queue \<and>
    inputs_per_function R = length (input_strategies conf) \<and> source_field R = result_field cls name"
  using assms by (auto simp: init_runner_def bindR_Inr_iff split: option.splits)

end
