(* ===== verification/Pipeline.thy ===== *)
theory Pipeline imports Services begin

text \<open>
  The services together: a generator publishes a contract and creates the result entry
  (\<^verbatim>\<open>GeneratorBase.TestOneProtoInput\<close>), one runner per compiler takes the message from
  its queue and stores its result (\<^verbatim>\<open>RunnerBase.callback\<close>), the verifier makes its
  passes. Their steps interleave on the shared queues and collections.
\<close>

section \<open>Queues and compilers\<close>

text \<open>
  Which queues a generator publishes to and which one the runner of a compiler reads. A queue of the
  broker is given by its host, port and name, so two entries of the configuration may be one queue.
\<close>

record topology =
  compilers :: "string list"
  published :: "active_queue list"
  reads :: "string \<Rightarrow> active_queue option"

definition topology_of :: "config \<Rightarrow> topology res" where
  "topology_of conf =
     bindR (compiler_queues (cf_queues conf) (cf_compilers conf) []) (\<lambda>active.
       Inr \<lparr>compilers = map cc_name (cf_compilers conf), published = map snd active,
            reads = (\<lambda>c. case get_compiler_params_by_name c (cf_compilers conf) of
                       None \<Rightarrow> None | Some params \<Rightarrow> map_of active (cc_queue params))\<rparr>)"

section \<open>The shared state\<close>

text \<open>
  \<open>queued\<close> are the messages that wait, by queue and generation id; \<open>pending\<close> is
  the generation that is published and has no entry yet; \<open>next_gen\<close> numbers the ids;
  \<open>compiled\<close> are the flags the runners set in the compilation log. \<open>found\<close> are the
  reports and the ids of a pass of the verifier that are not stored yet, \<open>to_mark\<close> the ids
  of one whose reports are stored.
\<close>

record world =
  queued :: "(active_queue \<times> string) list"
  pending :: "nat option"
  next_gen :: nat
  compiled :: "(string \<times> string) list"
  run_docs :: "run_doc list"
  reports :: "(string \<times> report) list"
  found :: "((string \<times> report) list \<times> nat list) option"
  to_mark :: "nat list option"

definition initial_world :: world where
  "initial_world = \<lparr>queued = [], pending = None, next_gen = 0, compiled = [], run_docs = [], reports = [],
     found = None, to_mark = None\<rparr>"

definition gen_id :: "nat \<Rightarrow> string" where
  "gen_id n = nat_str n"

text \<open>
  \<^verbatim>\<open>self.compilation_log.insert_one\<close> gives the id, \<^verbatim>\<open>self.qm.publish\<close>
  sends the message to every active queue.
\<close>

definition publish_all :: "topology \<Rightarrow> world \<Rightarrow> world" where
  "publish_all T w =
     w\<lparr>queued := queued w @ map (\<lambda>q. (q, gen_id (next_gen w))) (published T),
       pending := Some (next_gen w), next_gen := next_gen w + 1\<rparr>"

text \<open>\<^verbatim>\<open>self.run_results.insert_one({'generation_id': ...})\<close>.\<close>

definition insert_entry :: "nat \<Rightarrow> world \<Rightarrow> world" where
  "insert_entry n w =
     w\<lparr>run_docs := run_docs w @ [\<lparr>doc_id = n, generation_id = gen_id n, doc_results = [], is_handled = None\<rparr>],
       pending := None\<rparr>"

text \<open>
  \<^verbatim>\<open>update_one\<close> changes the first entry of the generation, and nothing when there is
  none.
\<close>

definition set_result :: "string \<Rightarrow> deployment list \<Rightarrow> run_doc \<Rightarrow> run_doc" where
  "set_result c result d =
     d\<lparr>doc_results := AList.update (''result_'' @ c) result (doc_results d), is_handled := Some False\<rparr>"

fun update_one :: "string \<Rightarrow> (run_doc \<Rightarrow> run_doc) \<Rightarrow> run_doc list \<Rightarrow> run_doc list" where
  "update_one gid g [] = []"
| "update_one gid g (d # ds) = (if generation_id d = gid then g d # ds else d # update_one gid g ds)"

definition store_result :: "active_queue \<Rightarrow> string \<Rightarrow> string \<Rightarrow> deployment list \<Rightarrow> world \<Rightarrow> world" where
  "store_result q c gid result w =
     w\<lparr>queued := remove1 (q, gid) (queued w),
       compiled := compiled w @ [(gid, ''compiled_'' @ c)],
       run_docs := update_one gid (set_result c result) (run_docs w)\<rparr>"

text \<open>
  The verifier writes after it has read and compared: \<^verbatim>\<open>insert_many\<close>, then
  \<^verbatim>\<open>update_many\<close> on the entries as they are then.
\<close>

definition add_reports :: "(string \<times> report) list \<Rightarrow> nat list \<Rightarrow> world \<Rightarrow> world" where
  "add_reports rs ids w = w\<lparr>reports := reports w @ rs, found := None, to_mark := Some ids\<rparr>"

definition mark_entries :: "nat list \<Rightarrow> world \<Rightarrow> world" where
  "mark_entries ids w = w\<lparr>run_docs := map (mark_handled ids) (run_docs w), to_mark := None\<rparr>"

section \<open>Steps\<close>

text \<open>
  A pass of the verifier reads the entries, inserts its reports and marks the entries; runners and
  generators may write in between.
\<close>

inductive verifier_step :: "topology \<Rightarrow> world \<Rightarrow> world \<Rightarrow> bool" for T where
  scan: "found w = None \<Longrightarrow> to_mark w = None \<Longrightarrow>
    verifier_scan (compilers T) (run_docs w) = Inr (rs, ids) \<Longrightarrow> rs \<noteq> [] \<Longrightarrow>
    verifier_step T w (w\<lparr>found := Some (rs, ids)\<rparr>)"
| insert: "found w = Some (rs, ids) \<Longrightarrow> verifier_step T w (add_reports rs ids w)"
| mark: "to_mark w = Some ids \<Longrightarrow> verifier_step T w (mark_entries ids w)"

text \<open>A runner may take any message of the queue it reads.\<close>

inductive step :: "topology \<Rightarrow> world \<Rightarrow> world \<Rightarrow> bool" for T where
  publish: "pending w = None \<Longrightarrow> step T w (publish_all T w)"
| entry: "pending w = Some n \<Longrightarrow> step T w (insert_entry n w)"
| run: "reads T c = Some q \<Longrightarrow> (q, gid) \<in> set (queued w) \<Longrightarrow> step T w (store_result q c gid result w)"
| verify: "verifier_step T w w' \<Longrightarrow> step T w w'"

inductive_cases step_cases: "step T w w'"

definition reachable :: "topology \<Rightarrow> world \<Rightarrow> bool" where
  "reachable T w \<longleftrightarrow> (step T)\<^sup>*\<^sup>* initial_world w"

lemma reachable_induct [consumes 1, case_names init step]:
  assumes "reachable T w" and "P initial_world"
    and "\<And>w w'. reachable T w \<Longrightarrow> P w \<Longrightarrow> step T w w' \<Longrightarrow> P w'"
  shows "P w"
  using assms(1) unfolding reachable_def
proof (induction rule: rtranclp_induct)
  case base
  show ?case by (rule assms(2))
next
  case (step y z)
  from step.hyps(1) have "reachable T y" by (simp add: reachable_def)
  from assms(3) [OF this step.IH step.hyps(2)] show ?case .
qed

lemma reachable_step: "reachable T w \<Longrightarrow> step T w w' \<Longrightarrow> reachable T w'"
  unfolding reachable_def by (rule rtranclp.rtrancl_into_rtrancl)

section \<open>Entries\<close>

text \<open>What a step does to the entries, up to the flag.\<close>

lemma mark_handled_fields [simp]:
  "doc_id (mark_handled ids d) = doc_id d" "generation_id (mark_handled ids d) = generation_id d"
  "doc_results (mark_handled ids d) = doc_results d"
  by (simp_all add: mark_handled_def)

text \<open>A step of the verifier keeps everything but the flags and the reports.\<close>

lemma verifier_step_parts:
  assumes "verifier_step T w w'"
  obtains ids where "run_docs w' = map (mark_handled ids) (run_docs w)"
    and "queued w' = queued w" and "pending w' = pending w" and "next_gen w' = next_gen w"
proof -
  have none: "map (mark_handled []) ds = ds" for ds by (rule map_idI) (simp add: mark_handled_def)
  show thesis
    using assms
  proof (cases rule: verifier_step.cases)
    case (scan rs ids)
    then show thesis using that [of "[]"] none by simp
  next
    case (insert rs ids)
    then show thesis using that [of "[]"] none by (simp add: add_reports_def)
  next
    case (mark ids)
    then show thesis using that [of ids] by (simp add: mark_entries_def)
  qed
qed

text \<open>A pass during which nothing else happens is \<open>verifier_pass\<close>.\<close>

lemma pass_steps:
  assumes "verifier_pass (compilers T) (run_docs w, reports w) = Inr (docs, reps)"
    and "found w = None" and "to_mark w = None"
  shows "(step T)\<^sup>*\<^sup>* w (w\<lparr>run_docs := docs, reports := reps\<rparr>)"
proof -
  obtain rs ids where scan: "verifier_scan (compilers T) (run_docs w) = Inr (rs, ids)"
    and out: "(docs, reps) = (if rs \<noteq> [] then (map (mark_handled ids) (run_docs w), reports w @ rs) else (run_docs w, reports w))"
    using assms(1) by (auto simp: verifier_pass_def bindR_Inr_iff split: if_splits)
  show ?thesis
  proof (cases "rs = []")
    case True
    then show ?thesis using out by simp
  next
    case False
    let ?w1 = "w\<lparr>found := Some (rs, ids)\<rparr>"
    have "step T w ?w1" by (intro step.verify verifier_step.scan assms scan False)
    moreover have "step T ?w1 (add_reports rs ids ?w1)" by (intro step.verify verifier_step.insert) simp
    moreover have "step T (add_reports rs ids ?w1) (mark_entries ids (add_reports rs ids ?w1))"
      by (intro step.verify verifier_step.mark) (simp add: add_reports_def)
    moreover have "mark_entries ids (add_reports rs ids ?w1) = w\<lparr>run_docs := docs, reports := reps\<rparr>"
      using out False assms(2,3) by (simp add: mark_entries_def add_reports_def)
    ultimately show ?thesis by (metis (no_types, lifting) converse_rtranclp_into_rtranclp rtranclp.rtrancl_refl)
  qed
qed

lemma update_one_ids:
  "(\<And>d. doc_id (g d) = doc_id d \<and> generation_id (g d) = generation_id d) \<Longrightarrow>
   map doc_id (update_one gid g ds) = map doc_id ds \<and>
   map generation_id (update_one gid g ds) = map generation_id ds"
  by (induction ds) auto

lemma set_result_ids [simp]:
  "doc_id (set_result c r d) = doc_id d" "generation_id (set_result c r d) = generation_id d"
  "is_handled (set_result c r d) = Some False"
  by (simp_all add: set_result_def)

lemma update_one_member:
  "d \<in> set (update_one gid g ds) \<Longrightarrow> d \<in> set ds \<or> (\<exists>e \<in> set ds. generation_id e = gid \<and> d = g e)"
  by (induction ds) (auto split: if_splits)

lemma update_one_hits:
  assumes "d \<in> set ds" and "distinct (map generation_id ds)"
  shows "g d \<in> set (update_one (generation_id d) g ds)"
  using assms by (induction ds) auto

lemma update_one_keeps:
  "d \<in> set ds \<Longrightarrow> d \<in> set (update_one gid g ds) \<or> g d \<in> set (update_one gid g ds)"
  by (induction ds) auto

text \<open>The ids are the numbers given out so far; each has one entry at most.\<close>

definition entries_ok :: "world \<Rightarrow> bool" where
  "entries_ok w \<longleftrightarrow>
     distinct (map doc_id (run_docs w)) \<and>
     (\<forall>d \<in> set (run_docs w). generation_id d = gen_id (doc_id d) \<and> doc_id d < next_gen w) \<and>
     (\<forall>n. pending w = Some n \<longrightarrow> n < next_gen w \<and> n \<notin> doc_id ` set (run_docs w))"

text \<open>
  A handled entry has the result of every compiler and a report, and so does one that the verifier is
  going to mark.
\<close>

definition settled :: "topology \<Rightarrow> (string \<times> report) list \<Rightarrow> run_doc \<Rightarrow> bool" where
  "settled T rs d \<longleftrightarrow> ready_to_handle (target_fields (compilers T)) (doc_results d) \<and> generation_id d \<in> fst ` set rs"

definition checked :: "topology \<Rightarrow> world \<Rightarrow> (string \<times> report) list \<Rightarrow> nat list \<Rightarrow> bool" where
  "checked T w rs ids \<longleftrightarrow> (\<forall>i \<in> set ids. \<exists>d \<in> set (run_docs w). doc_id d = i \<and> settled T rs d)"

definition handled_ready :: "topology \<Rightarrow> world \<Rightarrow> bool" where
  "handled_ready T w \<longleftrightarrow>
     (\<forall>d \<in> set (run_docs w). is_handled d = Some True \<longrightarrow> settled T (reports w) d) \<and>
     (\<forall>ids. to_mark w = Some ids \<longrightarrow> checked T w (reports w) ids) \<and>
     (\<forall>rs ids. found w = Some (rs, ids) \<longrightarrow> checked T w rs ids)"

lemma settled_simps [simp]:
  "settled T rs (mark_handled ids d) = settled T rs d"
  "settled T rs d \<Longrightarrow> settled T (rs @ rs') d" "settled T rs' d \<Longrightarrow> settled T (rs @ rs') d"
  by (auto simp: settled_def)

lemma settled_set_result: "settled T rs d \<Longrightarrow> settled T rs (set_result c r d)"
  by (auto simp: settled_def ready_to_handle_def list_all_iff set_result_def update_conv')

lemma step_entries_ok:
  assumes "step T w w'" and ok: "entries_ok w"
  shows "entries_ok w'"
  using assms(1)
proof (cases rule: step.cases)
  case publish
  then show ?thesis using ok by (auto simp: entries_ok_def publish_all_def)
next
  case (entry n)
  then show ?thesis using ok by (auto simp: entries_ok_def insert_entry_def)
next
  case (run c q gid result)
  have ids: "map doc_id (update_one gid (set_result c result) (run_docs w)) = map doc_id (run_docs w)"
    using update_one_ids [of "set_result c result"] by simp
  then have set_ids: "doc_id ` set (update_one gid (set_result c result) (run_docs w)) = doc_id ` set (run_docs w)"
    by (metis set_map)
  have "generation_id d = gen_id (doc_id d) \<and> doc_id d < next_gen w"
    if "d \<in> set (update_one gid (set_result c result) (run_docs w))" for d
    using update_one_member [OF that] ok by (auto simp: entries_ok_def)
  then show ?thesis using ok ids set_ids run by (simp add: entries_ok_def store_result_def)
next
  case verify
  obtain ids where parts: "run_docs w' = map (mark_handled ids) (run_docs w)" "queued w' = queued w"
    "pending w' = pending w" "next_gen w' = next_gen w" by (rule verifier_step_parts [OF verify])
  then show ?thesis using ok by (simp add: entries_ok_def comp_def image_image)
qed

lemma checked_mono:
  assumes "checked T w rs ids" and "\<And>d. d \<in> set (run_docs w) \<Longrightarrow> settled T rs d \<Longrightarrow>
    \<exists>e \<in> set (run_docs w'). doc_id e = doc_id d \<and> settled T rs' e"
  shows "checked T w' rs' ids"
  using assms unfolding checked_def by metis

lemma scan_checked:
  assumes "verifier_scan (compilers T) (run_docs w) = Inr (rs, ids)"
  shows "checked T w rs ids"
  unfolding checked_def
proof
  fix i
  assume "i \<in> set ids"
  note h = assms [unfolded verifier_scan_def]
  from handle_docs_ids [OF h \<open>i \<in> set ids\<close>] obtain d rep where
    d: "d \<in> set (filter (\<lambda>d. is_handled d = Some False) (run_docs w))" "doc_id d = i"
      "handle_doc (compilers T) d = Inr (Some (rep, True))" by blast
  have "(generation_id d, rep) \<in> set rs" using handle_docs_member [OF h d(1)] d(3) by auto
  then have "settled T rs d" using handled_is_ready [OF d(3)] by (force simp: settled_def)
  then show "\<exists>d \<in> set (run_docs w). doc_id d = i \<and> settled T rs d" using d by auto
qed

lemma verifier_step_handled_ready:
  assumes "verifier_step T w w'" and ok: "entries_ok w" and ready: "handled_ready T w"
  shows "handled_ready T w'"
  using assms(1)
proof (cases rule: verifier_step.cases)
  case (scan rs ids)
  from scan_checked [OF scan(4)] show ?thesis using ready scan(1,3) by (auto simp: handled_ready_def checked_def)
next
  case (insert rs ids)
  have "checked T w rs ids" using ready insert(2) by (simp add: handled_ready_def)
  then have "checked T w' (reports w @ rs) ids"
    by (rule checked_mono) (use insert(1) in \<open>auto simp: add_reports_def\<close>)
  then show ?thesis using ready insert(1) by (auto simp: handled_ready_def add_reports_def)
next
  case (mark ids)
  have "settled T (reports w) d" if d: "d \<in> set (run_docs w)" "doc_id d \<in> set ids" for d
  proof -
    obtain e where "e \<in> set (run_docs w)" "doc_id e = doc_id d" "settled T (reports w) e"
      using ready mark(2) d(2) by (auto simp: handled_ready_def checked_def)
    moreover from this have "e = d" using d(1) ok by (auto simp: entries_ok_def distinct_map dest: inj_onD)
    ultimately show ?thesis by simp
  qed
  then have "\<forall>d \<in> set (run_docs w'). is_handled d = Some True \<longrightarrow> settled T (reports w') d"
    using ready mark(1) by (auto simp: handled_ready_def mark_entries_def mark_handled_def settled_def)
  moreover have "checked T w' rs js" if "checked T w rs js" for rs js
    using that by (rule checked_mono) (use mark(1) in \<open>auto simp: mark_entries_def\<close>)
  ultimately show ?thesis using ready mark(1) by (auto simp: handled_ready_def mark_entries_def)
qed

lemma step_handled_ready:
  assumes "step T w w'" and ok: "entries_ok w" and ready: "handled_ready T w"
  shows "handled_ready T w'"
  using assms(1)
proof (cases rule: step.cases)
  case publish
  then show ?thesis using ready by (auto simp: handled_ready_def publish_all_def checked_def)
next
  case (entry n)
  then show ?thesis using ready by (auto simp: handled_ready_def insert_entry_def checked_def)
next
  case (run c q gid result)
  have "checked T w' rs ids" if "checked T w rs ids" for rs ids
    using that
  proof (rule checked_mono)
    fix d
    assume d: "d \<in> set (run_docs w)" "settled T rs d"
    have "run_docs w' = update_one gid (set_result c result) (run_docs w)" using run(1) by (simp add: store_result_def)
    then show "\<exists>e \<in> set (run_docs w'). doc_id e = doc_id d \<and> settled T rs e"
      using update_one_keeps [OF d(1), of gid "set_result c result"] d(2) settled_set_result [OF d(2), of c result]
      by (metis set_result_ids(1))
  qed
  moreover have "\<forall>d \<in> set (run_docs w'). is_handled d = Some True \<longrightarrow> settled T (reports w) d"
    using ready run(1) by (auto simp: handled_ready_def store_result_def dest!: update_one_member)
  ultimately show ?thesis using ready run(1) by (simp add: handled_ready_def store_result_def)
next
  case verify
  then show ?thesis using verifier_step_handled_ready ok ready by blast
qed

lemma reachable_ok: "reachable T w \<Longrightarrow> entries_ok w \<and> handled_ready T w"
proof (induction rule: reachable_induct)
  case init
  show ?case by (simp add: entries_ok_def handled_ready_def initial_world_def)
next
  case (step w w')
  then show ?case using step_entries_ok step_handled_ready by blast
qed

section \<open>A result that comes before its entry\<close>

definition result_missing :: "topology \<Rightarrow> string \<Rightarrow> nat \<Rightarrow> world \<Rightarrow> bool" where
  "result_missing T c n w \<longleftrightarrow>
     n < next_gen w \<and> (\<forall>q. reads T c = Some q \<longrightarrow> (q, gen_id n) \<notin> set (queued w)) \<and>
     (\<forall>d \<in> set (run_docs w). doc_id d = n \<longrightarrow> map_of (doc_results d) (''result_'' @ c) = None)"

definition has_entry :: "nat \<Rightarrow> world \<Rightarrow> bool" where
  "has_entry n w \<longleftrightarrow> n \<in> doc_id ` set (run_docs w)"

lemma gen_id_inj: "gen_id m = gen_id n \<longleftrightarrow> m = n"
  by (simp add: gen_id_def nat_str_inj)

lemma step_has_entry:
  assumes "step T w w'" and "has_entry n w"
  shows "has_entry n w'"
  using assms(1)
proof (cases rule: step.cases)
  case (run c q gid result)
  have "map doc_id (update_one gid (set_result c result) (run_docs w)) = map doc_id (run_docs w)"
    using update_one_ids [of "set_result c result"] by simp
  then have "doc_id ` set (update_one gid (set_result c result) (run_docs w)) = doc_id ` set (run_docs w)"
    by (metis set_map)
  then show ?thesis using assms(2) run by (simp add: has_entry_def store_result_def)
next
  case verify
  obtain ids where parts: "run_docs w' = map (mark_handled ids) (run_docs w)" "queued w' = queued w"
    "pending w' = pending w" "next_gen w' = next_gen w" by (rule verifier_step_parts [OF verify])
  then show ?thesis using assms(2) by (simp add: has_entry_def image_image)
qed (use assms(2) in \<open>auto simp: has_entry_def publish_all_def insert_entry_def\<close>)

text \<open>Once it is gone it stays away: no message is left that would bring it.\<close>

lemma step_result_missing:
  assumes "step T w w'" and ok: "entries_ok w" and miss: "result_missing T c n w"
  shows "result_missing T c n w'"
  using assms(1)
proof (cases rule: step.cases)
  case publish
  then show ?thesis using miss by (auto simp: result_missing_def publish_all_def gen_id_inj)
next
  case (entry m)
  then show ?thesis using miss by (auto simp: result_missing_def insert_entry_def)
next
  case (run c' q gid result)
  have "map_of (doc_results d) (''result_'' @ c) = None"
    if d: "d \<in> set (update_one gid (set_result c' result) (run_docs w))" "doc_id d = n" for d
    using update_one_member [OF d(1)]
  proof
    assume "d \<in> set (run_docs w)"
    then show ?thesis using miss d(2) by (simp add: result_missing_def)
  next
    assume "\<exists>e \<in> set (run_docs w). generation_id e = gid \<and> d = set_result c' result e"
    then obtain e where e: "e \<in> set (run_docs w)" "generation_id e = gid" "d = set_result c' result e" by blast
    then have "gid = gen_id n" using ok d(2) by (auto simp: entries_ok_def)
    then have "c' \<noteq> c" using run(2,3) miss by (auto simp: result_missing_def)
    then show ?thesis using e(1,3) miss d(2) by (simp add: result_missing_def set_result_def update_conv')
  qed
  then show ?thesis using miss run(1) by (auto simp: result_missing_def store_result_def dest: notin_set_remove1)
next
  case verify
  obtain ids where parts: "run_docs w' = map (mark_handled ids) (run_docs w)" "queued w' = queued w"
    "pending w' = pending w" "next_gen w' = next_gen w" by (rule verifier_step_parts [OF verify])
  then show ?thesis using miss by (simp add: result_missing_def)
qed

lemma result_missing_forever:
  assumes "(step T)\<^sup>*\<^sup>* w w'" and "reachable T w" and "result_missing T c n w" and "has_entry n w"
  shows "reachable T w' \<and> result_missing T c n w' \<and> has_entry n w'"
  using assms(1)
proof (induction rule: rtranclp_induct)
  case base
  show ?case using assms(2-4) by blast
next
  case (step y z)
  then show ?case
    using reachable_step reachable_ok step_result_missing step_has_entry by blast
qed

lemma missing_not_ready:
  assumes "result_missing T c n w" and "has_entry n w" and "c \<in> set (compilers T)"
  shows "\<exists>d \<in> set (run_docs w). doc_id d = n \<and> \<not> ready_to_handle (target_fields (compilers T)) (doc_results d)"
proof -
  obtain d where "d \<in> set (run_docs w)" "doc_id d = n" using assms(2) by (auto simp: has_entry_def)
  then show ?thesis using assms(1,3)
    by (force simp: result_missing_def ready_to_handle_def target_fields_def list_all_iff)
qed

text \<open>The world in which the runner of a compiler is faster than the insertion of the entry.\<close>

definition fast_runner :: "topology \<Rightarrow> active_queue \<Rightarrow> string \<Rightarrow> world" where
  "fast_runner T q c =
     insert_entry 0 (store_result q c (gen_id 0) [] (publish_all T initial_world))"

lemma reachable_initial: "reachable T initial_world"
  by (simp add: reachable_def)

lemma reachable_published: "reachable T (publish_all T initial_world)"
  by (rule reachable_step [OF reachable_initial], rule step.publish) (simp add: initial_world_def)

lemma fast_runner_world:
  assumes "reads T c = Some q" and "q \<in> set (published T)" and "distinct (published T)"
  shows "reachable T (fast_runner T q c)" and "result_missing T c 0 (fast_runner T q c)"
    and "has_entry 0 (fast_runner T q c)"
proof -
  let ?s = "store_result q c (gen_id 0) [] (publish_all T initial_world)"
  have "step T (publish_all T initial_world) ?s"
    by (rule step.run [OF assms(1)]) (simp add: publish_all_def initial_world_def assms(2))
  moreover have "step T ?s (insert_entry 0 ?s)"
    by (rule step.entry) (simp add: store_result_def publish_all_def initial_world_def)
  ultimately show "reachable T (fast_runner T q c)"
    unfolding fast_runner_def using reachable_step reachable_published by blast
  have "distinct (map (\<lambda>q. (q, gen_id 0)) (published T))"
    using assms(3) by (simp add: distinct_map inj_on_def)
  then have "(q, gen_id 0) \<notin> set (remove1 (q, gen_id 0) (map (\<lambda>q. (q, gen_id 0)) (published T)))"
    by (simp only: set_remove1_eq) simp
  then show "result_missing T c 0 (fast_runner T q c)"
    using assms(1) by (simp add: result_missing_def fast_runner_def insert_entry_def store_result_def
        publish_all_def initial_world_def)
  show "has_entry 0 (fast_runner T q c)"
    by (simp add: has_entry_def fast_runner_def insert_entry_def)
qed

section \<open>Two compilers on one queue\<close>

text \<open>One of two runners of a queue can take every copy of a message.\<close>

lemma drain:
  assumes "reachable T w" and "has_entry n w" and "reads T c = Some q" and "reads T d = Some q" and "c \<noteq> d"
    and "n < next_gen w" and "\<forall>e \<in> set (run_docs w). doc_id e = n \<longrightarrow> map_of (doc_results e) (''result_'' @ c) = None"
  shows "\<exists>w'. reachable T w' \<and> has_entry n w' \<and> result_missing T c n w'"
  using assms
proof (induction "count_list (queued w) (q, gen_id n)" arbitrary: w)
  case 0
  then have "(q, gen_id n) \<notin> set (queued w)" by (metis count_list_0_iff)
  then show ?case using 0 by (auto simp: result_missing_def)
next
  case (Suc k)
  let ?w = "store_result q d (gen_id n) [] w"
  have mem: "(q, gen_id n) \<in> set (queued w)" using Suc.hyps(2) by (metis count_list_0_iff nat.distinct(1))
  have st: "step T w ?w" by (rule step.run [OF Suc.prems(4) mem])
  have "count_list (remove1 x xs) x = count_list xs x - 1" for x :: "active_queue \<times> string" and xs
    by (induction xs) auto
  then have "k = count_list (queued ?w) (q, gen_id n)" using Suc.hyps(2) by (simp add: store_result_def)
  moreover have "\<forall>e \<in> set (run_docs ?w). doc_id e = n \<longrightarrow> map_of (doc_results e) (''result_'' @ c) = None"
  proof (intro ballI impI)
    fix e
    assume e: "e \<in> set (run_docs ?w)" "doc_id e = n"
    then consider "e \<in> set (run_docs w)" | e0 where "e0 \<in> set (run_docs w)" "e = set_result d [] e0"
      using update_one_member [of e "gen_id n" "set_result d []" "run_docs w"] by (auto simp: store_result_def)
    then show "map_of (doc_results e) (''result_'' @ c) = None"
      using Suc.prems(5,7) e(2) by cases (auto simp: set_result_def update_conv')
  qed
  ultimately show ?case
    using Suc.hyps(1) [of ?w] reachable_step [OF Suc.prems(1) st] step_has_entry [OF st Suc.prems(2)] Suc.prems(3-6)
    by (simp add: store_result_def)
qed

lemma shared_queue_missing:
  assumes "reads T c = Some q" and "reads T d = Some q" and "c \<noteq> d"
  shows "\<exists>w. reachable T w \<and> has_entry 0 w \<and> result_missing T c 0 w"
proof (rule drain [OF _ _ assms])
  let ?w = "insert_entry 0 (publish_all T initial_world)"
  show "reachable T ?w"
    by (rule reachable_step [OF reachable_published], rule step.entry) (simp add: publish_all_def initial_world_def)
  show "has_entry 0 ?w" by (simp add: has_entry_def insert_entry_def)
  show "0 < next_gen ?w" by (simp add: insert_entry_def publish_all_def)
  show "\<forall>e \<in> set (run_docs ?w). doc_id e = 0 \<longrightarrow> map_of (doc_results e) (''result_'' @ c) = None"
    by (simp add: insert_entry_def publish_all_def initial_world_def)
qed

section \<open>No result is lost when every compiler has its queue and no runner is too fast\<close>

text \<open>A runner starts with a message after the entry of its generation was created.\<close>

inductive slow_step :: "topology \<Rightarrow> world \<Rightarrow> world \<Rightarrow> bool" for T where
  publish: "pending w = None \<Longrightarrow> slow_step T w (publish_all T w)"
| entry: "pending w = Some n \<Longrightarrow> slow_step T w (insert_entry n w)"
| run: "reads T c = Some q \<Longrightarrow> (q, gid) \<in> set (queued w) \<Longrightarrow> \<forall>n. pending w = Some n \<longrightarrow> gid \<noteq> gen_id n \<Longrightarrow>
    slow_step T w (store_result q c gid result w)"
| verify: "verifier_step T w w' \<Longrightarrow> slow_step T w w'"

lemma slow_step_step: "slow_step T w w' \<Longrightarrow> step T w w'"
  by (cases rule: slow_step.cases) (auto intro: step.intros)

definition separate :: "topology \<Rightarrow> bool" where
  "separate T \<longleftrightarrow>
     (\<forall>c d q. reads T c = Some q \<longrightarrow> reads T d = Some q \<longrightarrow> c = d) \<and>
     (\<forall>c q. reads T c = Some q \<longrightarrow> q \<in> set (published T)) \<and>
     (\<forall>c \<in> set (compilers T). reads T c \<noteq> None)"

text \<open>
  A configuration in which no two compilers have the same name or the same queue of the broker.
\<close>

definition queue_of :: "config \<Rightarrow> compiler_conf \<Rightarrow> active_queue option" where
  "queue_of conf params = map_option activate (map_of (cf_queues conf) (cc_queue params))"

lemma reads_queue:
  assumes "topology_of conf = Inr T" and "reads T c = Some q"
  shows "\<exists>params \<in> set (cf_compilers conf). cc_name params = c \<and> queue_of conf params = Some q \<and> q \<in> set (published T)"
proof -
  obtain active params where a: "compiler_queues (cf_queues conf) (cf_compilers conf) [] = Inr active"
    and p: "get_compiler_params_by_name c (cf_compilers conf) = Some params" and q: "map_of active (cc_queue params) = Some q"
    and pub: "published T = map snd active"
    using assms by (auto simp: topology_of_def bindR_Inr_iff split: option.splits)
  have "params \<in> set (cf_compilers conf)" "cc_name params = c"
    using p by (auto simp: get_compiler_params_by_name_def find_Some_iff)
  moreover have "queue_of conf params = Some q"
    using compiler_queues_value [OF a, of "cc_queue params"] q calculation(1)
    by (auto simp: queue_of_def split: if_splits)
  moreover have "q \<in> set (published T)" using map_of_SomeD [OF q] pub by force
  ultimately show ?thesis by blast
qed

lemma reads_defined:
  assumes "topology_of conf = Inr T" and "c \<in> set (compilers T)"
  shows "reads T c \<noteq> None"
proof -
  obtain active where a: "compiler_queues (cf_queues conf) (cf_compilers conf) [] = Inr active"
    and T: "compilers T = map cc_name (cf_compilers conf)"
      "reads T c = (case get_compiler_params_by_name c (cf_compilers conf) of
         None \<Rightarrow> None | Some params \<Rightarrow> map_of active (cc_queue params))"
    using assms(1) by (auto simp: topology_of_def bindR_Inr_iff)
  obtain p0 where "p0 \<in> set (cf_compilers conf)" "cc_name p0 = c" using assms(2) T(1) by auto
  then have "get_compiler_params_by_name c (cf_compilers conf) \<noteq> None"
    unfolding get_compiler_params_by_name_def find_None_iff by blast
  then obtain params where p: "get_compiler_params_by_name c (cf_compilers conf) = Some params" by blast
  have "params \<in> set (cf_compilers conf)"
    using p unfolding get_compiler_params_by_name_def find_Some_iff by (metis nth_mem)
  then have "cc_queue params \<in> cc_queue ` set (cf_compilers conf)" by (rule imageI)
  then have "cc_queue params \<in> fst ` set active" using compiler_queues_keys [OF a] by simp
  then have "map_of active (cc_queue params) \<noteq> None" by (simp add: map_of_eq_None_iff)
  then show ?thesis using p T(2) by simp
qed

lemma separate_topology:
  assumes "topology_of conf = Inr T" and "inj_on (queue_of conf) (set (cf_compilers conf))"
  shows "separate T"
  unfolding separate_def
proof (intro conjI allI impI ballI)
  show "c = d" if "reads T c = Some q" "reads T d = Some q" for c d q
    using reads_queue [OF assms(1) that(1)] reads_queue [OF assms(1) that(2)] assms(2)
    by (metis inj_onD)
  show "q \<in> set (published T)" if "reads T c = Some q" for c q
    using reads_queue [OF assms(1) that] by blast
  show "reads T c \<noteq> None" if "c \<in> set (compilers T)" for c
    by (rule reads_defined [OF assms(1) that])
qed

definition has_result :: "string \<Rightarrow> nat \<Rightarrow> world \<Rightarrow> bool" where
  "has_result c n w \<longleftrightarrow> (\<exists>d \<in> set (run_docs w). doc_id d = n \<and> map_of (doc_results d) (''result_'' @ c) \<noteq> None)"

definition nothing_lost :: "topology \<Rightarrow> world \<Rightarrow> bool" where
  "nothing_lost T w \<longleftrightarrow>
     (\<forall>q gid. (q, gid) \<in> set (queued w) \<longrightarrow> (\<exists>n < next_gen w. gid = gen_id n)) \<and>
     (\<forall>n < next_gen w. (pending w = Some n \<or> has_entry n w) \<and>
        (\<forall>c q. reads T c = Some q \<longrightarrow> (q, gen_id n) \<in> set (queued w) \<or> has_result c n w))"

text \<open>What the steps do to a stored result.\<close>

lemma has_result_stored:
  assumes "has_result c n w \<or> c = c' \<and> gid = gen_id n \<and> has_entry n w" and "entries_ok w"
  shows "has_result c n (store_result q c' gid result w)"
proof (cases "has_result c n w")
  case True
  then obtain d where "d \<in> set (run_docs w)" and d: "doc_id d = n" "map_of (doc_results d) (''result_'' @ c) \<noteq> None"
    by (auto simp: has_result_def)
  moreover have "doc_id (set_result c' result d) = n" "map_of (doc_results (set_result c' result d)) (''result_'' @ c) \<noteq> None"
    using d by (auto simp: set_result_def update_conv')
  ultimately show ?thesis
    using update_one_keeps [of d "run_docs w" gid "set_result c' result"]
    unfolding has_result_def store_result_def by fastforce
next
  case False
  then have c: "c = c'" "gid = gen_id n" "has_entry n w" using assms(1) by blast+
  then obtain d where d: "d \<in> set (run_docs w)" "doc_id d = n" by (auto simp: has_entry_def)
  have gid: "generation_id d = gid" using d assms(2) c(2) by (auto simp: entries_ok_def)
  have "distinct (map generation_id (run_docs w))"
    using assms(2) by (auto simp: entries_ok_def distinct_map inj_on_def gen_id_inj)
  from update_one_hits [OF d(1) this, of "set_result c' result"]
  have "set_result c' result d \<in> set (run_docs (store_result q c' gid result w))"
    by (simp add: gid store_result_def)
  moreover have "doc_id (set_result c' result d) = n" "map_of (doc_results (set_result c' result d)) (''result_'' @ c) \<noteq> None"
    using d(2) c(1) by (auto simp: set_result_def update_conv')
  ultimately show ?thesis unfolding has_result_def by blast
qed

lemma slow_step_nothing_lost:
  assumes st: "slow_step T w w'" and ok: "entries_ok w" and sep: "separate T" and inv: "nothing_lost T w"
  shows "nothing_lost T w'"
  using st
proof (cases rule: slow_step.cases)
  case publish
  have "has_result c n w' = has_result c n w" "has_entry n w' = has_entry n w" for c n
    using publish by (simp_all add: has_result_def has_entry_def publish_all_def)
  note same = this
  have "queued w' = queued w @ map (\<lambda>q. (q, gen_id (next_gen w))) (published T)" "next_gen w' = Suc (next_gen w)"
    "pending w' = Some (next_gen w)"
    using publish by (simp_all add: publish_all_def)
  then show ?thesis
    using inv sep publish(2) unfolding nothing_lost_def separate_def same
    by (fastforce simp: less_Suc_eq)
next
  case (entry m)
  have "has_result c n w \<Longrightarrow> has_result c n w'" "has_entry n w' = (n = m \<or> has_entry n w)" for c n
    using entry by (auto simp: has_result_def has_entry_def insert_entry_def)
  moreover have "queued w' = queued w" "next_gen w' = next_gen w" "pending w = Some m"
    using entry by (simp_all add: insert_entry_def)
  ultimately show ?thesis using inv unfolding nothing_lost_def by fastforce
next
  case (run c' q gid result)
  obtain m where m: "m < next_gen w" "gid = gen_id m" using inv run(3) unfolding nothing_lost_def by blast
  then have entry: "has_entry m w" using inv run(4) unfolding nothing_lost_def by blast
  have same: "queued w' = remove1 (q, gid) (queued w)" "next_gen w' = next_gen w" "pending w' = pending w"
    using run(1) by (simp_all add: store_result_def)
  have keep: "has_entry n w \<Longrightarrow> has_entry n w'" for n
    using step_has_entry [OF slow_step_step [OF st]] by blast
  have "(q', gen_id n) \<in> set (queued w') \<or> has_result c n w'" if c: "reads T c = Some q'" and n: "n < next_gen w" for c q' n
  proof (cases "has_result c n w \<or> c = c' \<and> gid = gen_id n \<and> has_entry n w")
    case True
    then show ?thesis using has_result_stored [OF True ok] run(1) by blast
  next
    case False
    then have "(q', gen_id n) \<in> set (queued w)" using inv c n unfolding nothing_lost_def by blast
    moreover have "(q', gen_id n) \<noteq> (q, gid)"
    proof
      assume "(q', gen_id n) = (q, gid)"
      then have "c = c'" "n = m" using sep c run(2) m by (auto simp: separate_def gen_id_inj)
      then show False using False entry m(2) by blast
    qed
    ultimately show ?thesis using same(1) by simp
  qed
  moreover have "set (queued w') \<subseteq> set (queued w)" using same(1) by (simp add: set_remove1_subset)
  ultimately show ?thesis using inv same(2,3) keep unfolding nothing_lost_def by auto
next
  case verify
  obtain ids where parts: "run_docs w' = map (mark_handled ids) (run_docs w)" "queued w' = queued w"
    "pending w' = pending w" "next_gen w' = next_gen w" by (rule verifier_step_parts [OF verify])
  then have "has_result c n w' = has_result c n w" "has_entry n w' = has_entry n w" for c n
    by (simp_all add: has_result_def has_entry_def image_image)
  then show ?thesis using parts inv unfolding nothing_lost_def by simp
qed

lemma slow_run_nothing_lost:
  assumes "(slow_step T)\<^sup>*\<^sup>* initial_world w" and "separate T"
  shows "reachable T w \<and> nothing_lost T w"
  using assms(1)
proof (induction rule: rtranclp_induct)
  case base
  show ?case using reachable_initial by (simp add: nothing_lost_def initial_world_def)
next
  case (step y z)
  then show ?case
    using slow_step_nothing_lost [OF step.hyps(2) _ assms(2)] reachable_ok reachable_step slow_step_step by blast
qed

text \<open>Once the queues are empty every generation has an entry with all results.\<close>

lemma drained_ready:
  assumes "(slow_step T)\<^sup>*\<^sup>* initial_world w" and "separate T" and "queued w = []" and "pending w = None"
    and "n < next_gen w"
  shows "\<exists>d \<in> set (run_docs w). doc_id d = n \<and> ready_to_handle (target_fields (compilers T)) (doc_results d)"
proof -
  have inv: "nothing_lost T w" and ok: "entries_ok w"
    using slow_run_nothing_lost [OF assms(1,2)] reachable_ok by blast+
  obtain d where d: "d \<in> set (run_docs w)" "doc_id d = n"
    using inv assms(4,5) unfolding nothing_lost_def has_entry_def by auto
  have "map_of (doc_results d) (''result_'' @ c) \<noteq> None" if "c \<in> set (compilers T)" for c
  proof -
    have "reads T c \<noteq> None" using assms(2) that unfolding separate_def by blast
    then obtain q where "reads T c = Some q" by blast
    then have "has_result c n w" using inv assms(3,5) unfolding nothing_lost_def by auto
    then obtain e where "e \<in> set (run_docs w)" "doc_id e = n" "map_of (doc_results e) (''result_'' @ c) \<noteq> None"
      by (auto simp: has_result_def)
    moreover from this have "e = d" using d ok by (auto simp: entries_ok_def distinct_map dest: inj_onD)
    ultimately show ?thesis by simp
  qed
  then show ?thesis using d by (auto simp: ready_to_handle_def target_fields_def list_all_iff)
qed

section \<open>From the runners to the verdict\<close>

lemma calls_table:
  assumes "distinct fs" and "map fst calls = fs" and "\<forall>call \<in> set calls. length (snd call) = p"
  shows "calls = map (\<lambda>f. (f, map (\<lambda>k. the (map_of calls f) ! k) [0..<p])) fs"
proof (rule nth_equalityI)
  show len: "length calls = length (map (\<lambda>f. (f, map (\<lambda>k. the (map_of calls f) ! k) [0..<p])) fs)"
    using assms(2) by auto
  fix i
  assume i: "i < length calls"
  have fst: "fs ! i = fst (calls ! i)" using assms(2) i by auto
  have "map_of calls (fst (calls ! i)) = Some (snd (calls ! i))"
    using assms(1,2) i by (intro map_of_is_SomeI) auto
  moreover have "length (snd (calls ! i)) = p" using assms(3) i by simp
  ultimately show "calls ! i = map (\<lambda>f. (f, map (\<lambda>k. the (map_of calls f) ! k) [0..<p])) fs ! i"
    using i len fst by (simp add: list_eq_iff_nth_eq prod_eq_iff)
qed

text \<open>A runner whose deployments all succeed stores a table of the shape the verifier expects.\<close>

lemma handle_deployments_table:
  assumes "distinct fs" and "\<forall>fn \<in> set fs. \<exists>argss. map_of input_values fn = Some argss \<and> inputs_per_function R \<le> length argss"
    and "\<forall>iv \<in> set ivs. \<exists>c. load_contract I R m iv = Inr c \<and> externals I c = fs"
  shows "\<exists>T. handle_deployments I R m input_values ivs =
    Inr (map (\<lambda>i. Deployed (map (\<lambda>f. (f, map (T i f) [0..<inputs_per_function R])) fs)) [0..<length ivs])"
  using assms(3)
proof (induction ivs)
  case (Cons iv ivs)
  then obtain T where T: "handle_deployments I R m input_values ivs =
      Inr (map (\<lambda>i. Deployed (map (\<lambda>f. (f, map (T i f) [0..<inputs_per_function R])) fs)) [0..<length ivs])" by auto
  obtain c where c: "load_contract I R m iv = Inr c" "externals I c = fs" using Cons.prems by auto
  obtain calls c' where calls: "call_functions I (inputs_per_function R) input_values fs c = Inr (calls, c')"
    "map fst calls = fs" "\<forall>call \<in> set calls. length (snd call) = inputs_per_function R"
    using call_functions_total [OF assms(2), of I c] by blast
  let ?t = "\<lambda>f k. the (map_of calls f) ! k"
  let ?T = "\<lambda>i. case i of 0 \<Rightarrow> ?t | Suc j \<Rightarrow> T j"
  have "map (\<lambda>i. Deployed (map (\<lambda>f. (f, map (?T i f) [0..<inputs_per_function R])) fs)) [0..<length (iv # ivs)] =
      Deployed (map (\<lambda>f. (f, map (?t f) [0..<inputs_per_function R])) fs) #
      map (\<lambda>i. Deployed (map (\<lambda>f. (f, map (T i f) [0..<inputs_per_function R])) fs)) [0..<length ivs]"
    by (simp add: upt_conv_Cons map_Suc_upt [symmetric] comp_def del: upt_Suc map_Suc_upt)
  also have "Deployed (map (\<lambda>f. (f, map (?t f) [0..<inputs_per_function R])) fs) = Deployed calls"
    using calls_table [OF assms(1) calls(2,3)] by simp
  finally show ?case using T c calls(1) by (intro exI [of _ ?T]) simp
qed simp

text \<open>The result of one call in what a runner stores.\<close>

definition result_at :: "deployment list \<Rightarrow> nat \<Rightarrow> string \<Rightarrow> nat \<Rightarrow> exec_result" where
  "result_at ds i f k = (case ds ! i of DeployError e \<Rightarrow> RuntimeError e | Deployed calls \<Rightarrow> dget calls f [] ! k)"

lemma table_result_at:
  assumes "i < n" and "f \<in> set fs" and "k < p"
  shows "result_at (map (\<lambda>i. Deployed (map (\<lambda>f. (f, map (T i f) [0..<p])) fs)) [0..<n]) i f k = T i f k"
  using assms by (simp add: result_at_def dget_def map_of_map_restrict)

lemma table_of_results:
  assumes "ds = map (\<lambda>i. Deployed (map (\<lambda>f. (f, map (T i f) [0..<p])) fs)) [0..<n]"
  shows "ds = map (\<lambda>i. Deployed (map (\<lambda>f. (f, map (result_at ds i f) [0..<p])) fs)) [0..<n]"
proof -
  have "map (T i f) [0..<p] = map (result_at ds i f) [0..<p]" if "i < n" "f \<in> set fs" for i f
    using table_result_at [OF that, of _ p T] unfolding assms by (intro map_cong) auto
  then show ?thesis by (subst assms) (auto intro!: map_cong)
qed

text \<open>
  The stored results of all compilers and the verdict: every compiler runs the source and the
  arguments of the message with its own interpreter and settings.
\<close>

definition all_deploy :: "'c interpreter \<Rightarrow> runner \<Rightarrow> message \<Rightarrow> arguments \<Rightarrow> string list \<Rightarrow> bool" where
  "all_deploy I R m args fs \<longleftrightarrow>
     (\<forall>iv \<in> set (dget args ''__init__'' [[]]). \<exists>c. load_contract I R m iv = Inr c \<and> externals I c = fs)"

definition enough_inputs :: "nat \<Rightarrow> arguments \<Rightarrow> string list \<Rightarrow> bool" where
  "enough_inputs p args fs \<longleftrightarrow> (\<forall>fn \<in> set fs. \<exists>argss. map_of args fn = Some argss \<and> p \<le> length argss)"

lemma run_deployments_table:
  assumes "distinct fs" and "enough_inputs (inputs_per_function R) args fs" and "all_deploy I R m args fs"
  shows "\<exists>ds. run_deployments I R m args = Inr ds \<and>
    ds = map (\<lambda>i. Deployed (map (\<lambda>f. (f, map (result_at ds i f) [0..<inputs_per_function R])) fs))
      [0..<length (dget args ''__init__'' [[]])]"
proof -
  obtain T where "run_deployments I R m args =
      Inr (map (\<lambda>i. Deployed (map (\<lambda>f. (f, map (T i f) [0..<inputs_per_function R])) fs))
        [0..<length (dget args ''__init__'' [[]])])"
    using handle_deployments_table [OF assms(1) assms(2) [unfolded enough_inputs_def] assms(3) [unfolded all_deploy_def]]
    by (auto simp: run_deployments_def)
  then show ?thesis using table_of_results [OF refl] by (intro exI conjI)
qed

lemma stored_uniform:
  assumes "distinct fs" and "\<forall>c \<in> set cs. inputs_per_function (run c) = p \<and> enough_inputs p args fs \<and>
      all_deploy (interp c) (run c) m args fs \<and> run_deployments (interp c) (run c) m args = Inr (ds c) \<and>
      map_of doc (''result_'' @ c) = Some (ds c)"
  shows "\<forall>f \<in> set (target_fields cs). map_of doc f =
    Some (uniform fs (length (dget args ''__init__'' [[]])) p (\<lambda>f. result_at (ds (drop 7 f))) f)"
proof
  fix f
  assume "f \<in> set (target_fields cs)"
  then obtain c where c: "c \<in> set cs" "f = ''result_'' @ c" by (auto simp: target_fields_def)
  then have "ds c = map (\<lambda>i. Deployed (map (\<lambda>f. (f, map (result_at (ds c) i f) [0..<p])) fs))
      [0..<length (dget args ''__init__'' [[]])]"
    using run_deployments_table [OF assms(1), of "run c" args "interp c" m] assms(2) by auto
  then show "map_of doc f = Some (uniform fs (length (dget args ''__init__'' [[]])) p (\<lambda>f. result_at (ds (drop 7 f))) f)"
    using assms(2) c by (simp add: uniform_def)
qed

text \<open>The verdict on what the runners stored.\<close>

definition pair_report ::
  "string list \<Rightarrow> (string \<Rightarrow> deployment list) \<Rightarrow> string \<Rightarrow> nat \<Rightarrow> nat \<Rightarrow> nat \<Rightarrow> call_report" where
  "pair_report cs ds f i k j =
     \<lparr>cr_compilers = (''result_'' @ cs ! j, ''result_'' @ cs ! Suc j), cr_function = f, cr_deployment = i,
      cr_params_set = k, cr_results = verify_two_results (result_at (ds (cs ! j)) i f k) (result_at (ds (cs ! Suc j)) i f k)\<rparr>"

lemma pair_report_of:
  "Suc j < length cs \<Longrightarrow>
   call_report_of (target_fields cs) (\<lambda>f. result_at (ds (drop 7 f))) f i k j = pair_report cs ds f i k j"
  by (simp add: call_report_of_def pair_report_def target_fields_def)

lemma pair_report_clean:
  "clean (pair_report cs ds f i k j) \<longleftrightarrow> agree (result_at (ds (cs ! j)) i f k) (result_at (ds (cs ! Suc j)) i f k)"
  using verify_two_results_clean by (simp add: clean_def pair_report_def)

lemma verdict_on_results:
  assumes "distinct fs" and "cs \<noteq> []"
    and "\<forall>c \<in> set cs. inputs_per_function (run c) = p \<and> enough_inputs p args fs \<and>
      all_deploy (interp c) (run c) m args fs \<and> run_deployments (interp c) (run c) m args = Inr (ds c) \<and>
      map_of doc (''result_'' @ c) = Some (ds c)"
  shows "\<exists>D. reshape_data (target_fields cs) doc = Inr D \<and>
    set (verify_results (target_fields cs) D) =
      {pair_report cs ds f i k j | f i k j.
        f \<in> set fs \<and> i < length (dget args ''__init__'' [[]]) \<and> k < p \<and> Suc j < length cs}"
proof -
  let ?R = "\<lambda>f. result_at (ds (drop 7 f))" and ?n = "length (dget args ''__init__'' [[]])"
  have "target_fields cs \<noteq> []" using assms(2) by simp
  from reports_of_uniform [OF assms(1) this stored_uniform [OF assms(1,3)]]
  obtain D where D: "reshape_data (target_fields cs) doc = Inr D" "set (verify_results (target_fields cs) D) =
      {call_report_of (target_fields cs) ?R f i k j | f i k j. f \<in> set fs \<and> i < ?n \<and> k < p \<and> Suc j < length cs}"
    by auto
  have "{call_report_of (target_fields cs) ?R f i k j | f i k j. f \<in> set fs \<and> i < ?n \<and> k < p \<and> Suc j < length cs} =
      {pair_report cs ds f i k j | f i k j. f \<in> set fs \<and> i < ?n \<and> k < p \<and> Suc j < length cs}"
    using pair_report_of by (intro Collect_cong) metis
  then show ?thesis using D by auto
qed

end
