(* ===== verification/Conv_Inputs.thy ===== *)
theory Conv_Inputs imports Conv_Function Pipeline begin

text \<open>
  The types the converter reports for the inputs of each function, and the values the generator draws
  for them (\<^verbatim>\<open>GeneratorBase.generate_inputs\<close>). What is reported is a function of the
  message alone: neither the random draws nor the class of the converter have a part in it.
\<close>

section \<open>Parts of the state a step leaves alone\<close>

text \<open>
  A view is a part of the state that statements and the steps between them do not change. The rules
  below hold for every view; the views are the reported inputs and the functions.
\<close>

definition view_frame :: "(conv_state \<Rightarrow> 'v) \<Rightarrow> conv_state \<Rightarrow> conv_state \<Rightarrow> bool" where
  "view_frame V s t \<longleftrightarrow> V t = V s"

locale view =
  fixes V :: "conv_state \<Rightarrow> 'v"
  assumes fixed: "fixed_part s t \<Longrightarrow> V t = V s"
    and updates: "V (s\<lparr>tracker := tr\<rparr>) = V s" "V (s\<lparr>type_stack := ts\<rparr>) = V s"
      "V (s\<lparr>block_level := l\<rparr>) = V s" "V (s\<lparr>mut_level := k\<rparr>) = V s" "V (s\<lparr>is_constant := b\<rparr>) = V s"
      "V (s\<lparr>c_result := r\<rparr>) = V s" "V (s\<lparr>function_output := outs\<rparr>) = V s"
      "V (s\<lparr>current_func := j\<rparr>) = V s" "V (s\<lparr>immutable_exp := es\<rparr>) = V s"
begin

sublocale frame_rel "view_frame V"
  by unfold_locales (simp_all add: view_frame_def)

lemma keeps_stmt: "stmt.keepsM m \<Longrightarrow> keepsM m"
  by (auto simp: keepsM_def stmt.keepsM_def stmt_frame_def view_frame_def intro: fixed)

lemma keeps_expr: "expr.keepsM m \<Longrightarrow> keepsM m"
  by (rule keeps_stmt [OF stmt_exprI])

lemma keeps_steps [keeps]:
  "keepsM (emit acc)" "keepsM (set_mut k)" "keepsM (set_constant b)" "keepsM (set_level l)"
  "keepsM (set_output outs)" "keepsM (remove_level b)"
  "keepsM (push_type t)" "keepsM (modM (\<lambda>s. s\<lparr>current_func := j\<rparr>))"
  "keepsM (modM (\<lambda>s. s\<lparr>immutable_exp := immutable_exp s @ es\<rparr>))"
  unfolding emit_def set_mut_def set_constant_def set_level_def set_output_def
    remove_level_def push_type_def
  by (rule keeps_mod, simp add: view_frame_def updates)+

lemma keeps_pop [keeps]: "keepsM pop_type"
  by (rule keepsI) (auto simp: pop_type_def view_frame_def updates split: list.splits)

lemma keeps_create [keeps]: "keepsM (create_var t l mut)"
  by (rule keepsI) (auto simp: create_var_def bindR_Inr_iff view_frame_def updates)

lemma keeps_fields [keeps]:
  "keepsM (has C m f)" "keepsM (sub C m f)" "keepsM (num C m f)"
  "keepsM (flag C m f)" "keepsM (rep C m f)" "keepsM (visit_type C m)"
  "keepsM (function_at i)"
  by (rule keeps_expr, rule keeps)+

lemma keeps_typed_body [keeps]: "keepsM m \<Longrightarrow> keepsM (with_type t m)"
  unfolding with_type_def by (intro keeps)

lemma keeps_outputs [keeps]: "keepsM (visit_output_parameters C ms)"
proof -
  have "keepsM (output_parameters C i ms outs)" for i outs
  proof (induction ms arbitrary: i outs)
    case (Cons m ms)
    show ?case unfolding output_parameters.simps by (intro keeps Cons.IH)
  qed (simp add: keeps_return)
  then show ?thesis by (simp add: visit_output_parameters_def)
qed

lemma keeps_inputs [keeps]: "keepsM (visit_input_parameters C ms)"
proof -
  have "keepsM (input_parameters C i ms acc ts names)" for i acc ts names
  proof (induction ms arbitrary: i acc ts names)
    case (Cons m ms)
    show ?case unfolding input_parameters.simps by (intro keeps Cons.IH)
  qed (simp add: keeps_return)
  then show ?thesis by (simp add: visit_input_parameters_def)
qed

lemma keeps_reentrancy [keeps]: "keepsM (reentrancy_of C m)"
proof -
  have "keepsM (visit_reentrancy C ret)" for ret
    unfolding visit_reentrancy_def by (cases "conv_class C") (simp_all add: keeps_lift keeps_return)
  then show ?thesis unfolding reentrancy_of_def by (intro keeps)
qed

lemma keeps_render [keeps]: "keepsM (render_functions order names fs)"
proof (induction fs)
  case (Cons f fs)
  show ?case unfolding render_functions.simps by (intro keeps Cons.IH)
next
  case Nil
  show ?case unfolding render_functions.simps by (rule keeps_return)
qed

lemma keeps_immutables [keeps]: "keepsM visit_init_immutables"
  unfolding visit_init_immutables_def by (rule keeps_get)

lemma keeps_block [keeps]: "keepsM (visit_block C depth m)"
  by (rule keeps_stmt [OF keeps_visit_block])

lemma keeps_function_body [keeps]: "keepsM m \<Longrightarrow> keepsM (function_body m)"
  unfolding function_body_def by (intro keeps)

lemma keeps_default_part [keeps]: "keepsM (visit_default_part C (visit_block C depth) m)"
  unfolding visit_default_part_def visit_default_func_def by (intro keeps)

lemma keeps_typed [keeps]: "keepsM (visit_typed_expression C (visit_expr C depth) e t)"
  by (rule keeps_expr) (intro keeps)

lemma keeps_decls [keeps]: "keepsM (visit_decls C (visit_expr C depth) i ms)"
proof (induction ms arbitrary: i)
  case (Cons m ms)
  show ?case unfolding visit_decls.simps var_decl_global_def by (intro keeps Cons.IH)
next
  case Nil
  show ?case unfolding visit_decls.simps by (rule keeps_return)
qed

end

interpretation si: view function_inputs
  by unfold_locales (simp_all add: fixed_part_def)

interpretation sf: view funcs
  by unfold_locales (simp_all add: fixed_part_def)

text \<open>Steps that change functions but not the names of functions, nor the reported inputs.\<close>

lemma si_functions [keeps]:
  "si.keepsM (update_function i g)" "si.keepsM (register_contract_functions C fs)"
  "si.keepsM (order_functions C fs)"
  by (rule si.keepsI, auto simp: update_function_def register_contract_functions_def order_functions_def
      bindR_Inr_iff view_frame_def)+

lemma si_func [keeps]: "si.keepsM (visit_func C (visit_block C depth) i m)"
  unfolding visit_func_def by (intro keeps)

section \<open>Reported types\<close>

definition inputs_ok :: "(string \<times> vy_type list) list \<Rightarrow> bool" where
  "inputs_ok fis \<longleftrightarrow> (\<forall>f \<in> set fis. \<forall>t \<in> set (snd f). declarable t)"

definition inputs_frame :: "conv_state \<Rightarrow> conv_state \<Rightarrow> bool" where
  "inputs_frame s t \<longleftrightarrow> (inputs_ok (function_inputs s) \<longrightarrow> inputs_ok (function_inputs t))"

interpretation io: frame_rel inputs_frame
  by unfold_locales (simp_all add: inputs_frame_def)

lemma ioI: "si.keepsM m \<Longrightarrow> io.keepsM m"
  by (auto simp: si.keepsM_def io.keepsM_def view_frame_def inputs_frame_def)

section \<open>Values of a step\<close>

text \<open>A step that returns only values with a property.\<close>

definition yields :: "'a conv \<Rightarrow> ('a \<Rightarrow> bool) \<Rightarrow> bool" where
  "yields m P \<longleftrightarrow> (\<forall>s x t. m s = Inr (x, t) \<longrightarrow> P x)"

lemma io_bind_yields:
  assumes "yields m P" and "io.keepsM m" and "\<And>x. P x \<Longrightarrow> io.keepsM (k x)"
  shows "io.keepsM (bindM m k)"
  unfolding io.keepsM_def
proof (intro allI impI)
  fix s x u
  assume "bindM m k s = Inr (x, u)"
  then obtain y t where run: "m s = Inr (y, t)" "k y t = Inr (x, u)" by (rule bindM_InrE)
  have "P y" using assms(1) run(1) unfolding yields_def by blast
  then show "inputs_frame s u"
    using io.trans [OF io.keepsD [OF assms(2) run(1)] io.keepsD [OF assms(3) run(2)]] by simp
qed

lemma yieldsD: "yields m P \<Longrightarrow> m s = Inr (x, t) \<Longrightarrow> P x"
  unfolding yields_def by blast

lemma yields_bind: "(\<And>x. yields (k x) P) \<Longrightarrow> yields (bindM m k) P"
  unfolding yields_def bindM_Inr_iff by blast

text \<open>Parameters of conforming messages have declarable types.\<close>

definition param_msgs :: "bool \<Rightarrow> msg list \<Rightarrow> bool" where
  "param_msgs d ms \<longleftrightarrow> (\<forall>m \<in> set ms. mtype m = ''FuncParam'' \<and> conforms d m)"

definition typed_inputs :: "string \<times> vy_type list \<times> string list \<Rightarrow> bool" where
  "typed_inputs r \<longleftrightarrow> (\<forall>t \<in> set (fst (snd r)). declarable t)"

lemma visit_type_declarable:
  assumes "mtype m = ''FuncParam''" and "conforms (decimals (penv C)) m" and "visit_type C m s = Inr (t, s')"
  shows "declarable t"
proof -
  obtain u where "extract_vy_type TYPE_DEPTH (decimals (penv C)) False m = Inr u" "declarable u"
    using extract_top [of "decimals (penv C)" m] assms(1,2) by auto
  then show ?thesis using assms(3) by (simp add: visit_type_def)
qed

lemma input_parameters_typed:
  assumes "param_msgs (decimals (penv C)) ms" and "\<forall>t \<in> set ts. declarable t"
  shows "yields (input_parameters C i ms acc ts names) typed_inputs"
  using assms
proof (induction ms arbitrary: i acc ts names)
  case Nil
  then show ?case by (simp add: yields_def typed_inputs_def)
next
  case (Cons m ms)
  have "yields (input_parameters C i ms acc' ts' names') typed_inputs"
    if "\<forall>t \<in> set ts'. declarable t" for i acc' ts' names'
    using Cons.IH Cons.prems(1) that by (simp add: param_msgs_def)
  note IH = this
  show ?case
    unfolding yields_def
  proof (intro allI impI)
    fix s r u
    assume run: "input_parameters C i (m # ms) acc ts names s = Inr (r, u)"
    then obtain t s1 n s2 where t: "visit_type C m s = Inr (t, s1)" "create_var t 1 IMMUTABLE s1 = Inr (n, s2)"
      by (auto simp: bindM_Inr_iff)
    have decl: "\<forall>t \<in> set (ts @ [t]). declarable t"
      using visit_type_declarable [OF _ _ t(1)] Cons.prems by (simp add: param_msgs_def)
    show "typed_inputs r"
    proof (cases "i + 1 = MAX_FUNCTION_INPUT")
      case True
      then have "fst (snd r) = ts @ [t]" using run t by (auto simp: bindM_Inr_iff Let_def)
      then show ?thesis using decl by (simp add: typed_inputs_def)
    next
      case False
      then obtain acc' where
        "input_parameters C (i + 1) ms acc' (ts @ [t]) (names @ [n]) s2 = Inr (r, u)"
        using run t by (auto simp: bindM_Inr_iff Let_def)
      with IH [OF decl] show ?thesis by (rule yieldsD)
    qed
  qed
qed

lemma input_kinds:
  "field_kind d ''Func'' ''input_params'' = Some (KRep ''FuncParam'')"
  "field_kind d ''ContractInit'' ''input_params'' = Some (KRep ''FuncParam'')"
  "field_kind d ''Contract'' ''functions'' = Some (KRep ''Func'')"
  "field_kind d ''Contract'' ''init'' = Some (KMsg ''ContractInit'')"
  by (cases d; simp add: schema_eval proto_message_def)+

lemma visit_inputs_typed:
  assumes "conforms (decimals (penv C)) m" and "mtype m \<in> {''Func'', ''ContractInit''}"
  shows "yields (bindM (rep C m ''input_params'') (visit_input_parameters C)) typed_inputs"
  unfolding yields_def
proof (intro allI impI)
  fix s r u
  assume "bindM (rep C m ''input_params'') (visit_input_parameters C) s = Inr (r, u)"
  then obtain ms where ms: "get_rep (decimals (penv C)) m ''input_params'' = Inr ms"
    and run: "visit_input_parameters C ms s = Inr (r, u)"
    by (auto simp: bindM_Inr_iff rep_def liftR_Inr_iff)
  have kind: "field_kind (decimals (penv C)) (mtype m) ''input_params'' = Some (KRep ''FuncParam'')"
    using assms(2) input_kinds(1,2) by auto
  obtain xs where "get_rep (decimals (penv C)) m ''input_params'' = Inr xs"
    "\<forall>x \<in> set xs. mtype x = ''FuncParam'' \<and> conforms (decimals (penv C)) x"
    by (rule get_rep_conforms [OF assms(1) kind])
  then have "param_msgs (decimals (penv C)) ms" using ms by (simp add: param_msgs_def)
  then have "yields (visit_input_parameters C ms) typed_inputs"
    unfolding visit_input_parameters_def by (rule input_parameters_typed) simp
  then show "typed_inputs r" using run by (rule yieldsD)
qed

lemma set_update_subset: "set (AList.update k v al) \<subseteq> insert (k, v) (set al)"
  by (induction al) auto

lemma io_note:
  assumes "\<forall>t \<in> set ts. declarable t"
  shows "io.keepsM (note_inputs f ts)"
proof -
  have "inputs_ok (AList.update f ts fis)" if "inputs_ok fis" for fis
    using that assms set_update_subset [of f ts fis] by (auto simp: inputs_ok_def)
  then show ?thesis unfolding note_inputs_def by (intro io.keeps_mod) (simp add: inputs_frame_def)
qed

section \<open>The functions of a contract\<close>

lemma io_inputs:
  assumes "conforms (decimals (penv C)) m" and "mtype m \<in> {''Func'', ''ContractInit''}"
    and "\<And>ptext ts names. \<forall>t \<in> set ts. declarable t \<Longrightarrow> io.keepsM (k ptext ts names)"
  shows "io.keepsM (bindM (bindM (rep C m ''input_params'') (visit_input_parameters C))
    (\<lambda>(ptext, ts, names). k ptext ts names))"
proof (rule io_bind_yields [OF visit_inputs_typed [OF assms(1,2)]])
  show "io.keepsM (bindM (rep C m ''input_params'') (visit_input_parameters C))"
    by (rule ioI) (intro keeps)
  show "io.keepsM (case r of (ptext, ts, names) \<Rightarrow> k ptext ts names)" if "typed_inputs r" for r
    using that assms(3) by (cases r) (simp add: typed_inputs_def)
qed

lemma io_convert_function:
  assumes "\<forall>f \<in> set fs. mtype f = ''Func'' \<and> conforms (decimals (penv C)) f"
  shows "io.keepsM (convert_function C (visit_block C depth) fs i)"
proof -
  have body: "io.keepsM (seqM (update_function i (\<lambda>f. f\<lparr>f_inputs := types\<rparr>))
     (bindM (bindM (rep C g ''output_params'') (visit_output_parameters C)) (\<lambda>outs.
      seqM (update_function i (\<lambda>f. f\<lparr>f_outputs := outs\<rparr>))
      (seqM (set_output outs)
      (seqM (note_inputs n types)
      (seqM (visit_func C (visit_block C depth) i g) (returnM names)))))))"
    if "\<forall>t \<in> set types. declarable t" for types n names g
    by (intro io.keeps_bind io_note that io.keeps_return; rule ioI, intro keeps)
  have "io.keepsM (bindM (bindM (rep C (fs ! i) ''input_params'') (visit_input_parameters C)) (\<lambda>(_, types, names).
     seqM (update_function i (\<lambda>f. f\<lparr>f_inputs := types\<rparr>))
     (bindM (bindM (rep C (fs ! i) ''output_params'') (visit_output_parameters C)) (\<lambda>outs.
      seqM (update_function i (\<lambda>f. f\<lparr>f_outputs := outs\<rparr>))
      (seqM (set_output outs)
      (seqM (note_inputs (f_name f) types)
      (seqM (visit_func C (visit_block C depth) i (fs ! i)) (returnM names))))))))"
    if "i < length fs" for f
    by (rule io_inputs) (use assms that body in auto)
  then show ?thesis
    unfolding convert_function_def Let_def
    by (intro io.keeps_bind [OF ioI [OF si.keeps_fields(7)]] io.keeps_if io.keeps_raise) simp
qed

lemma io_convert_functions:
  assumes "\<forall>f \<in> set fs. mtype f = ''Func'' \<and> conforms (decimals (penv C)) f"
  shows "io.keepsM (convert_functions C (visit_block C depth) fs is)"
proof (induction "is")
  case (Cons i "is")
  show ?case unfolding convert_functions.simps
    by (intro io.keeps_bind io_convert_function [OF assms] Cons.IH io.keeps_return)
next
  case Nil
  show ?case unfolding convert_functions.simps by (rule io.keeps_return)
qed

lemma io_init:
  assumes "mtype m = ''ContractInit''" and "conforms (decimals (penv C)) m"
  shows "io.keepsM (visit_init C (visit_block C depth) m)"
proof -
  have rest: "io.keepsM (seqM (if types \<noteq> [] then note_inputs ''__init__'' types else returnM ())
      (bindM (function_body (bindM visit_init_immutables (\<lambda>imm.
         bindM (bindM (sub C m ''block'') (visit_block C depth)) (\<lambda>b. returnM (imm @ b))))) (\<lambda>block.
       bindM (num C m ''mut'') (\<lambda>mut. returnM (g block mut)))))"
    if "\<forall>t \<in> set types. declarable t" for types and g :: "string \<Rightarrow> int \<Rightarrow> string"
    by (intro io.keeps_bind io.keeps_if io_note that io.keeps_return; rule ioI, intro keeps)
  show ?thesis
    unfolding visit_init_def
    by (rule io.keeps_bind [OF ioI [OF si.keeps_steps(2)]], rule io_inputs)
      (use assms in \<open>simp_all add: rest\<close>)
qed

lemma convert_contract_inputs:
  assumes "convert_contract C depth r contract = Inr (source, fis)"
    and "mtype contract = ''Contract''" and "conforms (decimals (penv C)) contract"
  shows "inputs_ok fis"
proof -
  let ?d = "decimals (penv C)"
  have init: "io.keepsM (visit_init_part C (visit_block C depth) contract)"
  proof -
    have "yields (sub C contract ''init'') (\<lambda>m. mtype m = ''ContractInit'' \<and> conforms ?d m)"
      using get_msg_conforms [OF assms(3), of "''init''" "''ContractInit''"] input_kinds(4) [of ?d] assms(2)
      unfolding yields_def sub_def liftR_Inr_iff by (metis sum.inject(2))
    then show ?thesis
      unfolding visit_init_part_def
      by (rule io_bind_yields)
        (auto intro!: ioI [OF si.keeps_fields(2)] ioI [OF si.keeps_fields(4)] ioI [OF si.keeps_steps(1)] io.keeps_bind
          io.keeps_if io.keeps_get io.keeps_return io_init)
  qed
  have funs: "io.keepsM (visit_functions_part C (visit_block C depth) contract)"
  proof -
    have "yields (rep C contract ''functions'') (\<lambda>fs. \<forall>f \<in> set fs. mtype f = ''Func'' \<and> conforms ?d f)"
      using get_rep_conforms [OF assms(3), of "''functions''" "''Func''"] input_kinds(3) [of ?d] assms(2)
      unfolding yields_def rep_def liftR_Inr_iff by (metis sum.inject(2))
    then show ?thesis
      unfolding visit_functions_part_def
      by (rule io_bind_yields)
        (auto intro!: ioI [OF si.keeps_fields(5)] ioI [OF si_functions(2)] ioI [OF si_functions(3)]
          ioI [OF si.keeps_render] io.keeps_bind io.keeps_get io_convert_functions)
  qed
  have "io.keepsM (visit C depth contract)"
    unfolding visit_def
    by (intro io.keeps_bind ioI [OF si.keeps_fields(5)] ioI [OF si.keeps_decls] io.keeps_get io.keeps_if
        ioI [OF si.keeps_steps(1)] io.keeps_return init funs ioI [OF si.keeps_default_part])
  moreover obtain x s where "visit C depth contract (init_state r) = Inr (x, s)" "function_inputs s = fis"
    using assms(1) by (auto simp: convert_contract_def bindR_Inr_iff)
  ultimately show ?thesis
    using io.keepsD by (fastforce simp: inputs_frame_def inputs_ok_def init_state_def)
qed

section \<open>The inputs a generator draws\<close>

lemma input_value_inhabits:
  assumes "declarable t" and "input_value st E t r = Inr (v, r')"
  shows "inhabits E t v"
  using assms default.declarable_value(1) zeros.declarable_value(1)
  unfolding input_value_def by (cases st) auto

lemma generate_inputs_inhabit:
  assumes "\<forall>t \<in> set ts. declarable t" and "generate_inputs st E ts r = Inr (vs, r')"
  shows "list_all2 (inhabits E) ts vs"
  using assms by (induction ts arbitrary: vs r) (auto simp: bindR_Inr_iff intro: input_value_inhabits)

text \<open>Every list of arguments drawn for a function fits the types of its parameters.\<close>

definition fit :: "pyenv \<Rightarrow> (string \<times> vy_type list) list \<Rightarrow> inputs \<Rightarrow> bool" where
  "fit E fis ins \<longleftrightarrow>
     (\<forall>f \<in> set ins. \<forall>args \<in> set (snd f). \<exists>ts. (fst f, ts) \<in> set fis \<and> list_all2 (inhabits E) ts args)"

lemma strategy_inputs_fit:
  assumes "strategy_inputs E name types sts ins r = Inr (out, r')" and "fit E fis ins"
    and "(name, types) \<in> set fis" and "\<forall>t \<in> set types. declarable t"
  shows "fit E fis out"
  using assms(1,2)
proof (induction sts arbitrary: ins r)
  case (Cons st sts)
  then obtain args r1 where args: "generate_inputs st E types r = Inr (args, r1)"
    and rest: "strategy_inputs E name types sts (AList.update name (dget ins name [] @ [args]) ins) r1 = Inr (out, r')"
    by (auto simp: bindR_Inr_iff)
  have "list_all2 (inhabits E) types args" by (rule generate_inputs_inhabit [OF assms(4) args])
  moreover have "\<forall>a \<in> set (dget ins name []). \<exists>ts. (name, ts) \<in> set fis \<and> list_all2 (inhabits E) ts a"
  proof (cases "map_of ins name")
    case (Some argss)
    from map_of_SomeD [OF this] show ?thesis using Cons.prems(2) Some unfolding fit_def dget_def by fastforce
  qed (simp add: dget_def)
  ultimately have "fit E fis (AList.update name (dget ins name [] @ [args]) ins)"
    using Cons.prems(2) assms(3) set_update_subset [of name "dget ins name [] @ [args]" ins]
    unfolding fit_def by fastforce
  then show ?case by (rule Cons.IH [OF rest])
qed simp

lemma function_input_values_fit:
  assumes "function_input_values E sts fs ins r = Inr (out, r')" and "fit E fis ins"
    and "set fs \<subseteq> set fis" and "inputs_ok fs"
  shows "fit E fis out"
  using assms
proof (induction fs arbitrary: ins r)
  case (Cons f fs)
  obtain name types where f: "f = (name, types)" by (cases f)
  then obtain ins1 r1 where one: "strategy_inputs E name types sts ins r = Inr (ins1, r1)"
    and rest: "function_input_values E sts fs ins1 r1 = Inr (out, r')"
    using Cons.prems(1) by (auto simp: bindR_Inr_iff)
  have "fit E fis ins1"
    by (rule strategy_inputs_fit [OF one Cons.prems(2)]) (use Cons.prems(3,4) f in \<open>auto simp: inputs_ok_def\<close>)
  then show ?case using Cons.IH [OF rest] Cons.prems(3,4) by (simp add: inputs_ok_def)
qed simp

text \<open>The drawn inputs have the names of the reported ones.\<close>

lemma untagged_inputs:
  assumes "''_type'' \<notin> fst ` set ins"
  shows "untagged (inputs_obj ins)"
  using assms by (force simp: inputs_obj_def untagged_obj_of image_image)

lemma strategy_inputs_keys:
  "strategy_inputs E name types sts ins r = Inr (out, r') \<Longrightarrow> fst ` set out \<subseteq> insert name (fst ` set ins)"
  by (induction sts arbitrary: ins r) (force simp: bindR_Inr_iff dom_update)+

lemma function_input_values_keys:
  "function_input_values E sts fs ins r = Inr (out, r') \<Longrightarrow> fst ` set out \<subseteq> fst ` set fs \<union> fst ` set ins"
proof (induction fs arbitrary: ins r)
  case (Cons f fs)
  obtain name types where f: "f = (name, types)" by (cases f)
  then obtain ins1 r1 where one: "strategy_inputs E name types sts ins r = Inr (ins1, r1)"
    and rest: "function_input_values E sts fs ins1 r1 = Inr (out, r')"
    using Cons.prems(1) by (auto simp: bindR_Inr_iff)
  show ?case using Cons.IH [OF rest] strategy_inputs_keys [OF one] f by auto
qed simp

end
