(* ===== verification/Conv_Mutability.thy ===== *)
theory Conv_Mutability imports Conv_Function begin

text \<open>
  The mutability a function body needs: which statements occur in it, at any depth of branches and
  loops, what each of them asks for, and that a conversion of the body reaches it. Every method that
  converts such a statement raises \<^verbatim>\<open>_mutability_level\<close>, and nothing lowers it.
\<close>

section \<open>Conversions that raise the mutability\<close>

definition mut_frame :: "conv_state \<Rightarrow> conv_state \<Rightarrow> bool" where
  "mut_frame s t \<longleftrightarrow>
     funcs t = funcs s \<and> call_map t = call_map s \<and> current_func t = current_func s \<and> mut_level s \<le> mut_level t"

interpretation rising: frame_rel mut_frame
  by unfold_locales (simp_all add: mut_frame_def)

lemma rising_fixed: "fixed_part s t \<Longrightarrow> mut_frame s t"
  by (simp add: fixed_part_def mut_frame_def)

lemma rising_stmt: "stmt.keepsM m \<Longrightarrow> rising.keepsM m"
  unfolding stmt.keepsM_def rising.keepsM_def using rising_fixed by (auto simp: stmt_frame_def)

lemma rising_expr: "expr.keepsM m \<Longrightarrow> rising.keepsM m"
  by (rule rising_stmt [OF stmt_exprI])

lemma rising_header: "header_of m \<Longrightarrow> rising.keepsM m"
  unfolding header_of_def rising.keepsM_def using rising_fixed by (auto simp: header_frame_def)

lemma rising_steps [keeps]:
  "rising.keepsM enter_block" "rising.keepsM leave_block" "rising.keepsM (remove_level b)"
  "rising.keepsM (modM (\<lambda>s. s\<lparr>for_count := g (for_count s)\<rparr>))" "rising.keepsM (raise_mut k)"
  unfolding enter_block_def leave_block_def remove_level_def raise_mut_def
  by (rule rising.keepsI, auto simp: mut_frame_def split: if_splits)+

lemma rising_visits [keeps]:
  "rising.keepsM (visit_block C depth m)" "rising.keepsM (visit_expr C depth h m)"
  "rising.keepsM (visit_statements C (visit_expr C depth) (visit_block C depth) ms txt)"
  "rising.keepsM (visit_statement C (visit_expr C depth) (visit_block C depth) m)"
  "rising.keepsM (visit_exit_statement C (visit_expr C depth) m b)"
  "rising.keepsM (visit_cases C (visit_expr C depth) (visit_block C depth) b ms txt)"
  by (rule rising_stmt, rule keeps_visit_block, rule rising_expr, rule visit.visitor_keeps,
      (rule rising_stmt, rule block.stmt_statements block.stmt_statement block.stmt_exit block.stmt_cases)+)

lemma rising_reads [keeps]:
  "rising.keepsM (has C m f)" "rising.keepsM (sub C m f)" "rising.keepsM (num C m f)"
  "rising.keepsM (flag C m f)" "rising.keepsM (rep C m f)"
  by (rule rising_expr, rule keeps)+

text \<open>
  \<open>raises s0 k m\<close>: from every state with the functions and the call tree of \<open>s0\<close>, a
  conversion \<open>m\<close> that returns ends with a mutability of at least \<open>k\<close>.
\<close>

definition raises :: "conv_state \<Rightarrow> int \<Rightarrow> 'a conv \<Rightarrow> bool" where
  "raises s0 k m \<longleftrightarrow> (\<forall>s x t. funcs s = funcs s0 \<longrightarrow> call_map s = call_map s0 \<longrightarrow> current_func s = current_func s0 \<longrightarrow>
     m s = Inr (x, t) \<longrightarrow> k \<le> mut_level t)"

lemma raisesD:
  assumes "raises s0 k m" and "funcs s = funcs s0" and "call_map s = call_map s0" and "current_func s = current_func s0"
    and "m s = Inr (x, t)"
  shows "k \<le> mut_level t"
  using assms unfolding raises_def by blast

lemma raises_after:
  assumes "rising.keepsM m" and "\<And>s x t. m s = Inr (x, t) \<Longrightarrow> raises s0 k (f x)"
  shows "raises s0 k (bindM m f)"
  unfolding raises_def
proof (intro allI impI)
  fix s x t
  assume s: "funcs s = funcs s0" "call_map s = call_map s0" "current_func s = current_func s0"
    and "bindM m f s = Inr (x, t)"
  then obtain y v where v: "m s = Inr (y, v)" "f y v = Inr (x, t)" by (auto simp: bindM_Inr_iff)
  from rising.keepsD [OF assms(1) v(1)] assms(2) [OF v(1)] s v(2) show "k \<le> mut_level t"
    unfolding raises_def mut_frame_def by metis
qed

lemma raises_before:
  assumes "raises s0 k m" and "\<And>x. rising.keepsM (f x)"
  shows "raises s0 k (bindM m f)"
  unfolding raises_def
proof (intro allI impI)
  fix s x t
  assume s: "funcs s = funcs s0" "call_map s = call_map s0" "current_func s = current_func s0"
    and "bindM m f s = Inr (x, t)"
  then obtain y v where v: "m s = Inr (y, v)" "f y v = Inr (x, t)" by (auto simp: bindM_Inr_iff)
  have "k \<le> mut_level v" using assms(1) s v(1) unfolding raises_def by blast
  also have "\<dots> \<le> mut_level t" using rising.keepsD [OF assms(2) v(2)] by (simp add: mut_frame_def)
  finally show "k \<le> mut_level t" .
qed

lemma raises_lift: "(\<And>x. r = Inr x \<Longrightarrow> raises s0 k (f x)) \<Longrightarrow> raises s0 k (bindM (liftR r) f)"
  by (rule raises_after) (auto intro: keeps simp: liftR_Inr_iff)

lemma raises_sub:
  "get_msg (decimals (penv C)) m f = Inr x \<Longrightarrow> raises s0 k (g x) \<Longrightarrow> raises s0 k (bindM (sub C m f) g)"
  unfolding sub_def by (rule raises_lift) simp

lemma raises_raise: "raises s0 k (raise_mut k)"
  by (auto simp: raises_def raise_mut_def split: if_splits)

lemma raises_seq: "(\<And>x. rising.keepsM (f x)) \<Longrightarrow> raises s0 k (bindM (raise_mut k) f)"
  by (rule raises_before [OF raises_raise])

section \<open>Dispatch\<close>

text \<open>The handlers before the one of a field leave everything to it.\<close>

definition passes :: "'a option conv \<Rightarrow> bool" where
  "passes m \<longleftrightarrow> (\<forall>s r t. m s = Inr (r, t) \<longrightarrow> r = None \<and> t = s)"

lemma passes_has:
  assumes "HasField (decimals (penv C)) m f = Inr False"
  shows "passes (when_has C m f k)" and "passes (when_has_option C m f k')"
  using assms by (auto simp: passes_def when_has_def when_has_option_def has_def bindM_Inr_iff liftR_Inr_iff)

lemma passes_loop:
  assumes "HasField (decimals (penv C)) m ''cont_stmt'' = Inr False"
    and "HasField (decimals (penv C)) m ''break_stmt'' = Inr False"
  shows "passes (loop_control C m)"
  using assms
  by (auto simp: passes_def loop_control_def when_has_def has_def bindM_Inr_iff liftR_Inr_iff split: if_splits)

lemma passes_call:
  "HasField (decimals (penv C)) m ''func_call'' = Inr False \<Longrightarrow> passes (statement_call C visitor m)"
  by (auto simp: passes_def statement_call_def has_def bindM_Inr_iff liftR_Inr_iff)

lemma raises_skip:
  assumes "passes p" and "raises s0 k (or_else (first_of ms) n)"
  shows "raises s0 k (or_else (first_of (p # ms)) n)"
  unfolding raises_def
proof (intro allI impI)
  fix s x t
  assume s: "funcs s = funcs s0" "call_map s = call_map s0" "current_func s = current_func s0"
    and "or_else (first_of (p # ms)) n s = Inr (x, t)"
  then obtain r u where "p s = Inr (r, u)" and rest: "bindM (case r of Some x \<Rightarrow> returnM (Some x) | None \<Rightarrow> first_of ms)
      (\<lambda>r. case r of Some x \<Rightarrow> returnM x | None \<Rightarrow> n) u = Inr (x, t)"
    by (auto simp: or_else_def bind_assocM bindM_Inr_iff [of p])
  moreover from this have "r = None" "u = s" using assms(1) unfolding passes_def by blast+
  ultimately show "k \<le> mut_level t" using assms(2) s unfolding raises_def or_else_def by (simp del: bindM_Inr_iff)
qed

lemma raises_hit:
  assumes "raises s0 k p" and "rising.keepsM (first_of ms)" and "rising.keepsM n"
  shows "raises s0 k (or_else (first_of (p # ms)) n)"
proof -
  have "rising.keepsM (case r of Some x \<Rightarrow> returnM (Some x) | None \<Rightarrow> first_of ms)" for r
    using assms(2) by (cases r) (auto intro: keeps)
  moreover have "rising.keepsM (case r of Some x \<Rightarrow> returnM x | None \<Rightarrow> n)" for r
    using assms(3) by (cases r) (auto intro: keeps)
  ultimately show ?thesis
    unfolding or_else_def first_of.simps by (intro raises_before [OF raises_before [OF assms(1)]])
qed

lemma raises_has:
  assumes "HasField (decimals (penv C)) m f = Inr True" and "raises s0 k p"
  shows "raises s0 k (when_has C m f p)"
  unfolding when_has_def has_def
  by (rule raises_lift) (use assms in \<open>auto intro!: raises_before keeps\<close>)

section \<open>Statements and what they ask for\<close>

text \<open>The field of a statement, in the order of \<^verbatim>\<open>_visit_statement\<close>.\<close>

fun first_field :: "bool \<Rightarrow> msg \<Rightarrow> string list \<Rightarrow> string option" where
  "first_field d m [] = None"
| "first_field d m (f # fs) =
     (case HasField d m f of Inl e \<Rightarrow> None | Inr h \<Rightarrow> if h then Some f else first_field d m fs)"

definition statement_kind :: "bool \<Rightarrow> msg \<Rightarrow> string option" where
  "statement_kind d m = first_field d m
     [''cont_stmt'', ''break_stmt'', ''decl'', ''for_stmt'', ''if_stmt'', ''assert_stmt'', ''func_call'',
      ''append_stmt'', ''pop_stmt'', ''send_stmt'', ''raw_call'', ''raw_log'']"

text \<open>The statements of a block, with those in its branches and loops.\<close>

inductive occurs :: "bool \<Rightarrow> msg \<Rightarrow> msg \<Rightarrow> bool" for d where
  here: "get_rep d b ''statements'' = Inr ms \<Longrightarrow> st \<in> set ms \<Longrightarrow> occurs d b st"
| loop: "get_rep d b ''statements'' = Inr ms \<Longrightarrow> m \<in> set ms \<Longrightarrow> statement_kind d m = Some ''for_stmt'' \<Longrightarrow>
    get_msg d m ''for_stmt'' = Inr f \<Longrightarrow> get_msg d f ''body'' = Inr b' \<Longrightarrow> occurs d b' st \<Longrightarrow> occurs d b st"
| branch: "get_rep d b ''statements'' = Inr ms \<Longrightarrow> m \<in> set ms \<Longrightarrow> statement_kind d m = Some ''if_stmt'' \<Longrightarrow>
    get_msg d m ''if_stmt'' = Inr i \<Longrightarrow> get_rep d i ''cases'' = Inr cs \<Longrightarrow> c \<in> set cs \<Longrightarrow>
    get_msg d c ''if_body'' = Inr b' \<Longrightarrow> occurs d b' st \<Longrightarrow> occurs d b st"
| other: "get_rep d b ''statements'' = Inr ms \<Longrightarrow> m \<in> set ms \<Longrightarrow> statement_kind d m = Some ''if_stmt'' \<Longrightarrow>
    get_msg d m ''if_stmt'' = Inr i \<Longrightarrow> HasField d i ''else_case'' = Inr True \<Longrightarrow>
    get_msg d i ''else_case'' = Inr b' \<Longrightarrow> occurs d b' st \<Longrightarrow> occurs d b st"

text \<open>
  Sending and logging change the state, and a raw call at least reads it; a call of a function that the
  call tree of the current function allows asks for what the callee was declared with.
\<close>

definition asks_for :: "bool \<Rightarrow> conv_state \<Rightarrow> msg \<Rightarrow> int \<Rightarrow> bool" where
  "asks_for d s st k \<longleftrightarrow>
     statement_kind d st \<in> {Some ''send_stmt'', Some ''raw_log''} \<and> k = NON_PAYABLE \<or>
     statement_kind d st = Some ''raw_call'' \<and> k = VIEW \<or>
     statement_kind d st = Some ''func_call'' \<and>
       (\<exists>call n i. get_msg d st ''func_call'' = Inr call \<and> get_int d call ''func_num'' = Inr n \<and>
          current_func s = Some i \<and>
          (let callee = nat (n mod int (length (ft_functions (funcs s))))
           in callee \<in> set (call_map s i) \<and> callee < length (ft_functions (funcs s)) \<and>
              k = f_mutability (ft_functions (funcs s) ! callee)))"

lemma first_field_Some:
  "first_field d m fs = Some f \<Longrightarrow>
     HasField d m f = Inr True \<and> (\<forall>g \<in> set (takeWhile (\<lambda>g. g \<noteq> f) fs). HasField d m g = Inr False)"
  by (induction fs) (auto split: sum.splits if_splits)

lemmas kindD = first_field_Some [OF statement_kind_def [THEN sym, THEN trans]]

text \<open>What the handlers raise.\<close>

lemma rising_decl: "decl.keepsM m \<Longrightarrow> rising.keepsM m"
  unfolding decl.keepsM_def rising.keepsM_def using rising_fixed by (auto simp: decl_frame_def)

lemma raises_send: "raises s0 NON_PAYABLE (visit_send_stmt C (visit_expr C depth) m)"
  unfolding visit_send_stmt_def by (rule raises_seq, rule rising_expr) (intro keeps)

lemma raises_raw_log: "raises s0 NON_PAYABLE (visit_raw_log C (visit_expr C depth) m)"
  unfolding visit_raw_log_def by (rule raises_seq, rule rising_expr) (intro keeps)

lemma raises_raw_call_mutability: "raises s0 VIEW (raw_call_mutability static)"
  by (auto simp: raises_def raw_call_mutability_def VIEW_def NON_PAYABLE_def split: if_splits)

lemma raises_decl: "decl.keepsM m \<Longrightarrow> (\<And>x. raises s0 k (f x)) \<Longrightarrow> raises s0 k (bindM m f)"
  by (rule raises_after [OF rising_decl])

lemma raises_raw_call: "raises s0 VIEW (visit_raw_call C (visit_expr C depth) m 0 False)"
proof -
  have end_raises: "raises s0 VIEW (bindM code_offset (\<lambda>off. seqM (raw_call_mutability static) (returnM (g off))))"
    for static g
    by (rule raises_after [OF rising_expr], intro keeps, rule raises_before [OF raises_raw_call_mutability], rule keeps)
  have parts: "decl.keepsM (raw_call_outputs C (visit_expr C depth) m 0 False)" "decl.keepsM (raw_call_flags C m 0 False)"
    unfolding raw_call_outputs_def raw_call_flags_def by (intro keeps | rule declI)+
  show ?thesis
    unfolding visit_raw_call_def Let_def split_beta
    by (rule raises_after [OF rising_expr], intro keeps, rule raises_after [OF rising_expr], intro keeps,
        rule raises_decl, intro keeps parts, rule raises_decl, intro keeps parts, rule end_raises)
qed

text \<open>A step whose result the functions and the call tree determine.\<close>

lemma raises_known:
  assumes "\<And>s. funcs s = funcs s0 \<Longrightarrow> call_map s = call_map s0 \<Longrightarrow> current_func s = current_func s0 \<Longrightarrow> m s = Inr (y, s)"
    and "raises s0 k (f y)"
  shows "raises s0 k (bindM m f)"
  using assms unfolding raises_def by (auto simp: bindM_Inr_iff)

lemma raises_func_call:
  assumes "get_int (decimals (penv C)) call ''func_num'' = Inr n"
    and "nat (n mod int (length (ft_functions (funcs s0)))) < length (ft_functions (funcs s0))"
  shows "raises s0 (f_mutability (ft_functions (funcs s0) ! nat (n mod int (length (ft_functions (funcs s0))))))
    (visit_func_call C (visit_expr C depth) call)"
  unfolding visit_func_call_def
proof (rule raises_known)
  show "bindM (callee_of C call) function_at s =
      Inr (ft_functions (funcs s0) ! nat (n mod int (length (ft_functions (funcs s0)))), s)" if "funcs s = funcs s0" for s
    using assms that by (simp add: callee_of_def function_at_def num_def bindM_def)
qed (rule raises_seq, rule rising_decl, rule decl.keeps_bind [OF decl_output_variables], (intro keeps | rule declI)+)

lemma raises_statement_call:
  assumes "HasField (decimals (penv C)) st ''func_call'' = Inr True"
    and call: "get_msg (decimals (penv C)) st ''func_call'' = Inr call" "get_int (decimals (penv C)) call ''func_num'' = Inr n"
    and i: "current_func s0 = Some i"
    and callee: "callee = nat (n mod int (length (ft_functions (funcs s0))))"
      "callee \<in> set (call_map s0 i)" "callee < length (ft_functions (funcs s0))"
  shows "raises s0 (f_mutability (ft_functions (funcs s0) ! callee)) (statement_call C (visit_expr C depth) st)"
proof -
  have sub_call: "sub C st ''func_call'' s = Inr (call, s)" for s
    using call by (simp add: sub_def)
  have allowed: "call_allowed C st s = Inr (True, s)"
    if "funcs s = funcs s0" "call_map s = call_map s0" "current_func s = current_func s0" for s
    using that call i callee sub_call
    by (auto simp: call_allowed_def callee_of_def num_def bindM_def)
  have "raises s0 (f_mutability (ft_functions (funcs s0) ! callee))
      (bindM (sub C st ''func_call'') (visit_func_call C (visit_expr C depth)))"
    by (rule raises_known [OF sub_call]) (use raises_func_call [OF call(2)] callee in simp)
  then have "raises s0 (f_mutability (ft_functions (funcs s0) ! callee))
      (bindM (call_allowed C st) (\<lambda>ok. if ok then bindM (bindM (sub C st ''func_call'')
        (visit_func_call C (visit_expr C depth))) (\<lambda>x. returnM (Some x)) else returnM None))"
    by (intro raises_known [OF allowed]) (auto intro!: raises_before keeps)
  then show ?thesis
    unfolding statement_call_def has_def using assms(1) by (intro raises_lift) simp
qed


section \<open>Statements and blocks raise what they ask for\<close>

lemma raises_field:
  assumes "HasField (decimals (penv C)) m f = Inr True" and "\<And>x. raises s0 k (g x)"
  shows "raises s0 k (when_has C m f (bindM (sub C m f) g))"
  by (rule raises_has [OF assms(1)], rule raises_after [OF rising_reads(2)], rule assms(2))

lemmas passes_handlers = passes_has passes_loop passes_call

lemma raises_statement:
  assumes "asks_for (decimals (penv C)) s0 st k"
  shows "raises s0 k (visit_statement C (visit_expr C depth) (visit_block C depth) st)"
proof -
  let ?d = "decimals (penv C)"
  let ?callee = "\<lambda>n. nat (n mod int (length (ft_functions (funcs s0))))"
  consider "statement_kind ?d st = Some ''send_stmt''" "k = NON_PAYABLE"
    | "statement_kind ?d st = Some ''raw_log''" "k = NON_PAYABLE"
    | "statement_kind ?d st = Some ''raw_call''" "k = VIEW"
    | call n i where "statement_kind ?d st = Some ''func_call''" "get_msg ?d st ''func_call'' = Inr call"
      "get_int ?d call ''func_num'' = Inr n" "current_func s0 = Some i"
      "?callee n \<in> set (call_map s0 i)" "?callee n < length (ft_functions (funcs s0))"
      "k = f_mutability (ft_functions (funcs s0) ! ?callee n)"
    using assms unfolding asks_for_def Let_def by blast
  then show ?thesis
  proof cases
    case 1
    show ?thesis unfolding visit_statement_def
      using kindD [OF 1(1)] 1(2)
      by (intro raises_skip passes_handlers raises_hit raises_field)
        (simp_all add: raises_send, (rule rising_stmt, (intro keeps | rule stmtI | rule declI)+)+)
  next
    case 2
    show ?thesis unfolding visit_statement_def
      using kindD [OF 2(1)] 2(2)
      by (intro raises_skip passes_handlers raises_hit raises_field)
        (simp_all add: raises_raw_log, (rule rising_stmt, (intro keeps | rule stmtI | rule declI)+)+)
  next
    case 3
    show ?thesis unfolding visit_statement_def
      using kindD [OF 3(1)] 3(2)
      by (intro raises_skip passes_handlers raises_hit raises_field)
        (simp_all add: raises_raw_call, (rule rising_stmt, (intro keeps | rule stmtI | rule declI)+)+)
  next
    case 4
    note has = kindD [OF 4(1)]
    have "raises s0 k (statement_call C (visit_expr C depth) st)"
      unfolding 4(7) by (rule raises_statement_call [OF _ 4(2-4) refl 4(5,6)]) (use has in simp)
    then show ?thesis unfolding visit_statement_def
      using has
      by (intro raises_skip passes_has passes_loop raises_hit)
        (simp_all, (rule rising_stmt, (intro keeps | rule stmtI | rule declI)+)+)
  qed
qed

lemma raises_for:
  assumes "get_msg (decimals (penv C)) m ''body'' = Inr b" and "raises s0 k (visit_block C depth b)"
  shows "raises s0 k (visit_for_stmt C (visit_block C depth) m)"
proof -
  have header: "rising.keepsM (if h then bindM (sub C m ''variable'') (visit_for_stmt_variable C)
      else bindM (sub C m ''ranged'') (visit_for_stmt_ranged C))" for h
    by (cases h) (simp_all, (rule rising_header, rule header_bind [OF keeps_reads(4)], rule header_for_variable header_ranged)+)
  have body: "raises s0 k (bindM (sub C m ''body'') (visit_block C depth))"
    by (rule raises_sub) (rule assms)+
  show ?thesis
    unfolding visit_for_stmt_def
    by (rule raises_after [OF rising_expr [OF keeps_reads(2)]], rule raises_after [OF rising_reads(1)],
        rule raises_after [OF header], rule raises_after [OF rising_steps(4)], rule raises_after [OF rising_steps(1)],
        rule raises_before [OF body]) (intro keeps)
qed

lemma raises_scoped: "raises s0 k (visit_block C depth b) \<Longrightarrow> raises s0 k (scoped_block (visit_block C depth) b)"
  unfolding scoped_block_def
  by (rule raises_after [OF rising_steps(1)], erule raises_before) (intro keeps)

lemma rising_cases [keeps]: "rising.keepsM (visit_if_cases C (visit_expr C depth) (visit_block C depth) ms)"
  unfolding visit_if_cases_def by (rule rising_stmt) (intro keeps | rule stmtI | rule declI)+

lemma raises_cases:
  assumes "c \<in> set cs" and "get_msg (decimals (penv C)) c ''if_body'' = Inr b" and "raises s0 k (visit_block C depth b)"
  shows "raises s0 k (visit_cases C (visit_expr C depth) (visit_block C depth) first cs acc)"
  using assms(1)
proof (induction cs arbitrary: first acc)
  case (Cons m ms)
  have condition: "rising.keepsM (with_type Bool (bindM (sub C m ''cond'') (visit_expr C depth H_bool)))" for m
    by (rule rising_expr) (intro keeps)
  have "raises s0 k (bindM (sub C c ''if_body'') (scoped_block (visit_block C depth)))"
    by (rule raises_sub, rule assms, rule raises_scoped, rule assms)
  moreover have "rising.keepsM (bindM (sub C m ''if_body'') (scoped_block (visit_block C depth)))" for m
    by (rule rising_stmt) (intro keeps | rule stmtI | rule declI)+
  ultimately show ?case
    unfolding visit_cases.simps using Cons
    by (cases "m = c")
      (auto intro!: raises_after [OF rising_expr [OF keeps_reads(2)]] raises_after [OF condition]
        intro: raises_before raises_after keeps)
qed simp

lemma raises_if:
  assumes "get_rep (decimals (penv C)) m ''cases'' = Inr cs" and "c \<in> set cs"
    and "get_msg (decimals (penv C)) c ''if_body'' = Inr b" and "raises s0 k (visit_block C depth b)"
  shows "raises s0 k (visit_if_stmt C (visit_expr C depth) (visit_block C depth) m)"
proof -
  have "raises s0 k (visit_if_cases C (visit_expr C depth) (visit_block C depth) cs)"
    unfolding visit_if_cases_def
    by (rule raises_after [OF rising.keeps_get]) (use assms(2) raises_cases [OF assms(2-4)] in auto)
  then have "raises s0 k (bindM (rep C m ''cases'') (visit_if_cases C (visit_expr C depth) (visit_block C depth)))"
    unfolding rep_def using assms(1) by (intro raises_lift) simp
  then show ?thesis
    unfolding visit_if_stmt_def visit_else_case_def
    by (rule raises_before) (rule rising_stmt, (intro keeps | rule stmtI | rule declI)+)
qed

lemma raises_else:
  assumes "HasField (decimals (penv C)) m ''else_case'' = Inr True"
    and "get_msg (decimals (penv C)) m ''else_case'' = Inr b" and "raises s0 k (visit_block C depth b)"
  shows "raises s0 k (visit_if_stmt C (visit_expr C depth) (visit_block C depth) m)"
proof -
  have "raises s0 k (visit_else_case (visit_block C depth) b)"
    unfolding visit_else_case_def
    by (rule raises_after [OF rising_expr [OF keeps_reads(2)]], rule raises_before [OF raises_scoped [OF assms(3)]])
      (intro keeps)
  then have e: "raises s0 k (bindM (sub C m ''else_case'') (visit_else_case (visit_block C depth)))"
    by (rule raises_sub [OF assms(2)])
  show ?thesis
    unfolding visit_if_stmt_def has_def
    by (rule raises_after, intro keeps, rule raises_lift) (use assms(1) e in \<open>auto intro!: raises_before keeps\<close>)
qed


lemma raises_statements:
  assumes "m \<in> set ms" and "raises s0 k (visit_statement C (visit_expr C depth) (visit_block C depth) m)"
  shows "raises s0 k (visit_statements C (visit_expr C depth) (visit_block C depth) ms acc)"
  using assms(1)
proof (induction ms arbitrary: acc)
  case (Cons x xs)
  then show ?case
    using assms(2) unfolding visit_statements.simps
    by (cases "x = m") (auto intro: raises_before raises_after keeps)
qed simp

lemma raises_block:
  assumes "get_rep (decimals (penv C)) b ''statements'' = Inr ms" and "m \<in> set ms"
    and "\<And>depth. raises s0 k (visit_statement C (visit_expr C depth) (visit_block C depth) m)"
  shows "raises s0 k (visit_block C depth b)"
proof (cases depth)
  case (Suc d)
  have "raises s0 k (visit_block C (Suc d) b)"
    unfolding visit_block.simps block_body_def rep_def
  proof (rule raises_lift, goal_cases)
    case (1 ms')
    then have "m \<in> set ms'" using assms(1,2) by simp
    show ?case
      by (rule raises_before [OF raises_statements [OF \<open>m \<in> set ms'\<close> assms(3)]])
        (rule rising_stmt, (intro keeps | rule stmtI | rule declI)+)
  qed
  then show ?thesis by (simp add: Suc)
qed (simp add: raises_def)

text \<open>Every statement of a block counts, however deep in its branches and loops.\<close>

lemma raises_occurring:
  assumes "occurs (decimals (penv C)) b st" and "asks_for (decimals (penv C)) s0 st k"
  shows "raises s0 k (visit_block C depth b)"
  using assms
proof (induction arbitrary: depth)
  case (here b ms st)
  show ?case by (rule raises_block [OF here.hyps raises_statement [OF here.prems]])
next
  case (loop b ms m f b')
  show ?case
  proof (rule raises_block [OF loop(1,2)])
    fix depth
    have body: "raises s0 k (bindM (sub C m ''for_stmt'') (visit_for_stmt C (visit_block C depth)))"
      by (rule raises_sub [OF loop(4)]) (rule raises_for [OF loop(5) loop.IH [OF loop.prems]])
    show "raises s0 k (visit_statement C (visit_expr C depth) (visit_block C depth) m)"
      unfolding visit_statement_def
      using kindD [OF loop(3)]
      by (intro raises_skip passes_handlers raises_hit raises_has)
        (simp_all add: body, (rule rising_stmt, (intro keeps | rule stmtI | rule declI)+)+)
  qed
next
  case (branch b ms m i cs c b')
  show ?case
  proof (rule raises_block [OF branch(1,2)])
    fix depth
    have body: "raises s0 k (bindM (sub C m ''if_stmt'') (visit_if_stmt C (visit_expr C depth) (visit_block C depth)))"
      by (rule raises_sub [OF branch(4)]) (rule raises_if [OF branch(5,6,7) branch.IH [OF branch.prems]])
    show "raises s0 k (visit_statement C (visit_expr C depth) (visit_block C depth) m)"
      unfolding visit_statement_def
      using kindD [OF branch(3)]
      by (intro raises_skip passes_handlers raises_hit raises_has)
        (simp_all add: body, (rule rising_stmt, (intro keeps | rule stmtI | rule declI)+)+)
  qed
next
  case (other b ms m i b')
  show ?case
  proof (rule raises_block [OF other(1,2)])
    fix depth
    have body: "raises s0 k (bindM (sub C m ''if_stmt'') (visit_if_stmt C (visit_expr C depth) (visit_block C depth)))"
      by (rule raises_sub [OF other(4)]) (rule raises_else [OF other(5,6) other.IH [OF other.prems]])
    show "raises s0 k (visit_statement C (visit_expr C depth) (visit_block C depth) m)"
      unfolding visit_statement_def
      using kindD [OF other(3)]
      by (intro raises_skip passes_handlers raises_hit raises_has)
        (simp_all add: body, (rule rising_stmt, (intro keeps | rule stmtI | rule declI)+)+)
  qed
qed

lemma rising_level: "rising.keepsM (set_level l)"
  by (rule rising.keepsI) (auto simp: set_level_def mut_frame_def)

text \<open>The body of a function reaches what the block does.\<close>

lemma raises_function_body: "raises s0 k m \<Longrightarrow> raises s0 k (function_body m)"
  unfolding function_body_def
  by (rule raises_after, rule rising_level, erule raises_before) (intro keeps rising_level)

end
