(* ===== verification/Conv_Claims.thy ===== *)
theory Conv_Claims imports Samples Conv_Inputs Conv_Mutability begin

text \<open>
  What the converter promises: expressions restore the stacks, references stay in scope, blocks and
  functions take their variables with them, mutability covers what a function does. The last section
  has the deviations that the model shows.
\<close>

section \<open>Expressions\<close>

text \<open>
  Claim C13. Converting an expression leaves the state as it was, the type and operator stacks, the
  scope and the output included; only the random draws go on and the mutability may rise, and not even
  that inside a constant.
\<close>

theorem expression_effects:
  assumes "visit_expr C depth h m s = Inr (x, u)"
  shows "\<exists>r k. u = s\<lparr>rng := r, mut_level := k\<rparr> \<and> mut_level s \<le> k \<and> (is_constant s \<longrightarrow> k = mut_level s)"
  using expr.keepsD [OF keeps_visit_expr assms] by (simp add: expr_frame_def)

lemma run_int_lit:
  "visit_expr sample_env (Suc (Suc 0)) H_int (int_lit 2) int_state = Inr (int_literal 256 False 2, int_state)"
  by (simp add: Samples.run sample_defs isinstance_Int_def)

theorem expression_effects_witness:
  "\<exists>r k. int_state = int_state\<lparr>rng := r, mut_level := k\<rparr> \<and> mut_level int_state \<le> k \<and>
     (is_constant int_state \<longrightarrow> k = mut_level int_state)"
  by (rule expression_effects [OF run_int_lit])

lemma choice_mem: "xs \<noteq> [] \<Longrightarrow> choice xs s = Inr (x, u) \<Longrightarrow> x \<in> set xs \<and> (\<exists>r. u = s\<lparr>rng := r\<rparr>)"
  by (auto simp: choice_def Let_def split: prod.splits)

lemma var_ref_constant:
  assumes "visit_var_ref level assignment s = Inr (Some v, u)" and "type_stack s = t # ts" and "is_constant s"
  shows "v \<in> set (get_readonly_variables level t (tracker s)) \<and> take 1 v = ''C''"
proof -
  let ?vs = "get_readonly_variables level t (tracker s)"
  have "constant_ref level t s = Inr (Some v, u)"
    using assms by (simp add: visit_var_ref_def [THEN fun_cong] bindM_apply top_type_def)
  then obtain x w where ne: "?vs \<noteq> []" and c: "choice ?vs s = Inr (x, w)"
    and x: "(case x of [] \<Rightarrow> raiseM (IndexError ''string index out of range'')
       | c # _ \<Rightarrow> (if c \<noteq> CHR ''C'' then returnM None else returnM (Some x))) w = Inr (Some v, u)"
    by (simp add: constant_ref_def bindM_Inr_iff split: if_splits) blast
  then have "x = v \<and> take 1 x = ''C''" by (simp split: list.splits if_splits)
  then show ?thesis using choice_mem [OF ne c] by blast
qed

lemma var_ref_variable:
  assumes "visit_var_ref level assignment s = Inr (Some v, u)" and "type_stack s = t # ts" and "\<not> is_constant s"
  shows "v \<in> set (get_mutable_variables level t False (tracker s)) \<or>
      \<not> assignment \<and> v \<in> set (get_readonly_variables level t (tracker s))"
    and "v \<in> set (get_global_vars t (tracker s)) \<Longrightarrow>
      VIEW \<le> mut_level u \<and> (assignment \<longrightarrow> NON_PAYABLE \<le> mut_level u)"
proof -
  let ?vs = "get_mutable_variables level t False (tracker s) @
    (if assignment then [] else get_readonly_variables level t (tracker s))"
  obtain w where ne: "?vs \<noteq> []" and c: "choice ?vs s = Inr (v, w)" and n: "note_global assignment v t w = Inr ((), u)"
    using assms by (auto simp: visit_var_ref_def bindM_Inr_iff top_type_def split: if_splits)
  from choice_mem [OF ne c] show "v \<in> set (get_mutable_variables level t False (tracker s)) \<or>
      \<not> assignment \<and> v \<in> set (get_readonly_variables level t (tracker s))"
    by (auto split: if_splits)
  from choice_mem [OF ne c] have "tracker w = tracker s" by auto
  then show "VIEW \<le> mut_level u \<and> (assignment \<longrightarrow> NON_PAYABLE \<le> mut_level u)"
    if "v \<in> set (get_global_vars t (tracker s))"
    using n that by (auto simp: note_global_def bindM_Inr_iff raise_mut_def VIEW_def NON_PAYABLE_def split: if_splits)
qed

text \<open>
  Claim C11. A variable reference names a declaration that is alive, in scope at the level and offered
  for the type that is wanted; what is assigned to is mutable, a constant refers to read-only
  variables only, and to those with the name of a constant.
\<close>

theorem references_in_scope:
  assumes "visit_var_ref level assignment s = Inr (Some v, u)"
    and "type_stack s = t # ts" and "tracks D (tracker s)"
  shows "\<exists>d \<in> set D. d_level d \<le> level \<and> v \<in> set (offers t False d) \<and>
    (is_constant s \<longrightarrow> d_key d = READONLY_KEY \<and> take 1 v = ''C'') \<and>
    (\<not> is_constant s \<and> assignment \<longrightarrow> d_key d = FUNCTION_KEY)"
proof (cases "is_constant s")
  case True
  then show ?thesis
    using var_ref_constant [OF assms(1,2) True] get_vars_visible [OF assms(3), of t level False False]
    by (auto simp: get_readonly_variables_def in_scope_iff key_of_def)
next
  case False
  then show ?thesis
    using var_ref_variable(1) [OF assms(1,2) False] get_vars_visible [OF assms(3), of t level False False]
      get_vars_visible [OF assms(3), of t level True False]
    by (auto simp: get_readonly_variables_def get_mutable_variables_def in_scope_iff key_of_def)
qed

definition one_global :: conv_state where
  "one_global = int_state\<lparr>tracker := register_function_variable ''x_INT_0'' 0 (IntT 256 False) True new_tracker\<rparr>"

lemma run_one_global:
  "visit_var_ref 1 True one_global = Inr (Some ''self.x_INT_0'', one_global\<lparr>mut_level := NON_PAYABLE\<rparr>)"
  "type_stack one_global = [IntT 256 False]"
  "tracks [Decl ''self.x_INT_0'' 0 (IntT 256 False) FUNCTION_KEY] (tracker one_global)"
proof -
  show "tracks [Decl ''self.x_INT_0'' 0 (IntT 256 False) FUNCTION_KEY] (tracker one_global)"
    using register_function_variable_tracks [OF tracks_new, of "''x_INT_0''" 0 True "IntT 256 False"]
    by (simp add: one_global_def full_name_def key_of_def)
  show "type_stack one_global = [IntT 256 False]" by (simp add: one_global_def int_state_def)
  have "get_vars (IntT 256 False) l True False (tracker one_global) = [''self.x_INT_0'']" if "l = 0 \<or> l = 1" for l
    using that
    by (elim disjE) (simp_all add: one_global_def get_vars_def byte_class_def register_function_variable_def bump_id_def
        next_id_def current_id_def new_tracker_def key_of_def full_name_def plain_append_def plain_at_def
        init_var_list_def get_list_items_def Let_def)
  then show "visit_var_ref 1 True one_global = Inr (Some ''self.x_INT_0'', one_global\<lparr>mut_level := NON_PAYABLE\<rparr>)"
    by (simp add: visit_var_ref_def [THEN fun_cong] bindM_apply top_type_def get_mutable_variables_def
        get_global_vars_def note_global_def [THEN fun_cong] choice_def draw_def raise_mut_def NON_PAYABLE_def VIEW_def
        one_global_def int_state_def init_state_def)
qed

theorem references_in_scope_witness:
  "\<exists>d \<in> {Decl ''self.x_INT_0'' 0 (IntT 256 False) FUNCTION_KEY}. d_key d = FUNCTION_KEY"
  using references_in_scope [OF run_one_global] by simp

text \<open>
  Reading a storage variable makes the function at least a view, assigning one makes it at
  least non-payable.
\<close>

theorem storage_raises_mutability:
  assumes "visit_var_ref level assignment s = Inr (Some v, u)" and "type_stack s = t # ts"
    and "\<not> is_constant s" and "v \<in> set (get_global_vars t (tracker s))"
  shows "VIEW \<le> mut_level u \<and> (assignment \<longrightarrow> NON_PAYABLE \<le> mut_level u)"
  using var_ref_variable(2) [OF assms] .

theorem storage_raises_mutability_witness:
  "\<exists>u. visit_var_ref 1 True one_global = Inr (Some ''self.x_INT_0'', u) \<and> NON_PAYABLE \<le> mut_level u"
proof -
  have "''self.x_INT_0'' \<in> set (get_global_vars (IntT 256 False) (tracker one_global))"
    by (simp add: one_global_def get_global_vars_def get_vars_def byte_class_def register_function_variable_def
        bump_id_def next_id_def current_id_def new_tracker_def key_of_def full_name_def plain_append_def
        plain_at_def init_var_list_def get_list_items_def Let_def)
  moreover have "\<not> is_constant one_global" by (simp add: one_global_def int_state_def init_state_def)
  ultimately have "NON_PAYABLE \<le> mut_level (one_global\<lparr>mut_level := NON_PAYABLE\<rparr>)"
    using storage_raises_mutability [OF run_one_global(1,2)] by blast
  then show ?thesis using run_one_global(1) by blast
qed

section \<open>Integer literals\<close>

text \<open>
  Claim C32. The literals of an integer type: every conforming message gives one and changes nothing,
  and the texts that come out are those of the values of the type that are less than \<open>2 ^ 64\<close> above
  its lower bound, because the field of the message has 64 bits. Up to 64 bits that is every value of
  the type, and of a wider one the upper values are the literal of no message.
\<close>

theorem int_literal_bounds:
  assumes "type_stack s = IntT n sgd # ts"
  shows "(\<forall>lit. mtype lit = ''Literal'' \<longrightarrow> conforms (decimals (penv C)) lit \<longrightarrow> (\<exists>txt. create_literal C lit s = Inr (txt, s))) \<and>
    {txt. \<exists>lit. mtype lit = ''Literal'' \<and> conforms (decimals (penv C)) lit \<and> create_literal C lit s = Inr (txt, s)} =
      py_str ` {w. int_range n sgd w \<and> w < fst (get_value_boundaries n sgd) + 2 ^ 64} \<and>
    (n \<le> 64 \<longrightarrow> {w. int_range n sgd w \<and> w < fst (get_value_boundaries n sgd) + 2 ^ 64} = {w. int_range n sgd w})"
proof (intro conjI)
  let ?d = "decimals (penv C)" and ?low = "fst (get_value_boundaries n sgd)" and ?up = "snd (get_value_boundaries n sgd)"
  let ?W = "{w. int_range n sgd w \<and> w < ?low + 2 ^ 64}"
  have literal: "create_literal C lit s = liftR (bindR (get_int ?d lit ''intval'') (\<lambda>v. Inr (int_literal n sgd v))) s" for lit
    using assms by (simp add: create_literal_def top_type_def bindM_apply Let_def)
  have field: "field_kind ?d ''Literal'' ''intval'' = Some (KUInt 64)"
    by (simp add: schema_eval proto_message_def)
  have within: "\<exists>w \<in> ?W. create_literal C lit s = Inr (py_str w, s)" if lit: "mtype lit = ''Literal''" "conforms ?d lit" for lit
  proof -
    obtain v where v: "get_int ?d lit ''intval'' = Inr v" "0 \<le> v" "v < 2 ^ 64"
      by (rule get_int_unsigned [OF lit(2), of "''intval''" 64]) (simp_all add: lit(1) field)
    let ?w = "v mod (?up - ?low + 1) + ?low"
    have "v mod (?up - ?low + 1) \<le> v" using v(2) boundaries_ordered [of n sgd] by (intro zmod_le_nonneg_dividend)
    then have "?w \<in> ?W"
      using v(3) mod_shift_in_range [OF boundaries_ordered [of n sgd], of v] by (simp add: int_range_def)
    moreover have "create_literal C lit s = Inr (py_str ?w, s)"
      using literal [of lit] v(1) by (simp add: int_literal_def case_prod_unfold Let_def)
    ultimately show ?thesis by blast
  qed
  have reached: "\<exists>lit. mtype lit = ''Literal'' \<and> conforms ?d lit \<and> create_literal C lit s = Inr (py_str w, s)"
    if w: "int_range n sgd w" "w < ?low + 2 ^ 64" for w
    using w int_literal_onto [OF w(1)] literal [of "Msg ''Literal'' [(''intval'', VInt (w - ?low))]"]
    by (intro exI [of _ "Msg ''Literal'' [(''intval'', VInt (w - ?low))]"])
      (simp add: field get_int_def present_def is_int_kind_def int_range_def)
  show "\<forall>lit. mtype lit = ''Literal'' \<longrightarrow> conforms ?d lit \<longrightarrow> (\<exists>txt. create_literal C lit s = Inr (txt, s))"
    using within by blast
  show "{txt. \<exists>lit. mtype lit = ''Literal'' \<and> conforms ?d lit \<and> create_literal C lit s = Inr (txt, s)} = py_str ` ?W"
    using within reached by fastforce
  have "?up < ?low + 2 ^ 64" if "n \<le> 64"
  proof -
    have "(2::int) ^ n \<le> 2 ^ 64" "(2::int) ^ (n - 1) \<le> 2 ^ 63" using that by (intro power_increasing; simp)+
    then show ?thesis by (auto simp: get_value_boundaries_def)
  qed
  then show "n \<le> 64 \<longrightarrow> ?W = {w. int_range n sgd w}" by (auto simp: int_range_def)
qed

theorem int_literal_bounds_witness:
  "{txt. \<exists>lit. mtype lit = ''Literal'' \<and> conforms True lit \<and> create_literal sample_env lit int_state = Inr (txt, int_state)} =
     py_str ` {0..<2 ^ 64}"
proof -
  have "type_stack int_state = [IntT 256 False]" by (simp add: int_state_def)
  from int_literal_bounds [OF this, of sample_env]
  have "{txt. \<exists>lit. mtype lit = ''Literal'' \<and> conforms True lit \<and> create_literal sample_env lit int_state = Inr (txt, int_state)} =
      py_str ` {w. int_range 256 False w \<and> w < 2 ^ 64}"
    by (simp add: sample_env_def sample_penv_def get_value_boundaries_def)
  moreover have "{w. int_range 256 False w \<and> w < 2 ^ 64} = {0..<2 ^ 64}"
    by (auto simp: int_range_def get_value_boundaries_def)
  ultimately show ?thesis by simp
qed

section \<open>Scopes\<close>

text \<open>The type of the sample messages.\<close>

lemma sample_types:
  assumes "t = ''VarRef'' \<or> t = ''VarDecl'' \<or> t = ''FuncParam''"
  shows "extract_vy_type (Suc (Suc (Suc 0))) True False (Msg t [(''i'', VMsg (Msg ''Int'' [(''n'', VInt 255)]))])
    = Inr (IntT 256 False)"
  using assms
  by (elim disjE) (simp_all add: extract_vy_type.simps py_has_field_def HasField_def schema_eval type_messages
      field_int_def get_msg_def get_int_def get_bool_def present_def is_int_kind_def get_nearest_multiple_def mk_Int_def)

lemmas sample_run = Samples.run sample_defs isinstance_Int_def sample_types
  get_mutable_variables_def get_vars_def byte_class_def get_list_items_def new_tracker_def plain_at_def
  expression_handler_def expression_handlers_def next_id_def current_id_def

text \<open>
  Claim C12. Converting a block adds mutable variables of the level of the block to the scope, under
  new names. It leaves the rest of the scope, the operator stack, the levels, the loop counter, the
  functions, the call tree, the current function and its outputs, the noted inputs and immutables and
  the output text as they were. The mutability does not fall. Types may be left on the type stack,
  on top of what was there, but none is taken away.
\<close>

theorem block_scope:
  assumes "visit_block C depth m s = Inr (x, u)" and "scope_ok D s"
  shows "(\<exists>N. scope_ok (D @ N) u \<and> locals_at (block_level s) N) \<and> fixed_part s u \<and>
    mut_level s \<le> mut_level u \<and> (\<exists>left. type_stack u = left @ type_stack s)"
proof -
  have "stmt_frame s u" using stmt.keepsD [OF keeps_visit_block assms(1)] .
  then have fixed: "fixed_part s u" and "scope_grows s u" and left: "\<exists>left. type_stack u = left @ type_stack s"
    by (simp_all add: stmt_frame_def)
  then have "\<exists>N. scope_ok (D @ N) u \<and> locals_at (block_level s) N" using assms(2) unfolding scope_grows_def by blast
  moreover have "mut_level s \<le> mut_level u" using fixed by (simp add: fixed_part_def)
  ultimately show ?thesis using fixed left by blast
qed

definition level_one :: conv_state where
  "level_one = (init_state [])\<lparr>block_level := 1\<rparr>"

lemma level_one_scope: "scope_ok [] level_one"
  using scope_at_mono [OF scope_at_new, of 1] by (simp add: level_one_def init_state_def)

lemma run_assignment:
  "\<exists>x u. visit_block sample_env (Suc (Suc (Suc 0))) (block_of [int_assign (int_lit 5)]) level_one = Inr (x, u) \<and>
     type_stack u = [IntT 256 False]"
  by (simp add: sample_run Let_def level_one_def)

theorem block_scope_witness:
  "\<exists>u N. scope_ok N u \<and> locals_at 1 N \<and> type_stack u = [IntT 256 False]"
proof -
  obtain x u where "visit_block sample_env (Suc (Suc (Suc 0))) (block_of [int_assign (int_lit 5)]) level_one = Inr (x, u)"
    and ts: "type_stack u = [IntT 256 False]" using run_assignment by blast
  from block_scope [OF this(1) level_one_scope] ts show ?thesis
    by (auto simp: level_one_def)
qed

text \<open>
  Claim C28. After a nested block, the branch of a conditional or a whole loop with its variable, the
  scope is exactly what it was before.
\<close>

theorem nested_blocks_close:
  assumes "scoped_block (visit_block C depth) m s = Inr (x, u) \<or> visit_for_stmt C (visit_block C depth) m s = Inr (x, u)"
    and "scope_ok D s"
  shows "scope_ok D u \<and> block_level u = block_level s \<and> for_count u = for_count s"
proof -
  have "closed_frame s u"
    using assms(1) by (elim disjE) (erule scoped_block_closed [OF keeps_visit_block] for_stmt_closed [OF keeps_visit_block])+
  then show ?thesis using assms(2) by (auto simp: closed_frame_def fixed_part_def)
qed

definition sample_loop :: msg where
  "sample_loop = Msg ''ForStmt''
     [(''ranged'', VMsg (Msg ''ForStmtRanged'' [(''start'', VInt 3), (''stop'', VInt 1)])),
      (''body'', VMsg (block_of []))]"

lemma run_loop:
  "\<exists>x u. visit_for_stmt sample_env (visit_block sample_env (Suc (Suc (Suc 0)))) sample_loop level_one = Inr (x, u)"
  by (simp add: sample_run Let_def level_one_def sample_loop_def loop_bounds_def)

theorem nested_blocks_close_witness:
  "\<exists>x u. visit_for_stmt sample_env (visit_block sample_env (Suc (Suc (Suc 0)))) sample_loop level_one = Inr (x, u) \<and>
     scope_ok [] u"
  using run_loop nested_blocks_close [OF disjI2 level_one_scope, where C = sample_env] by blast

text \<open>
  Claim C29. Converting a function leaves the global scope as it found it: parameters, local variables
  and loop variables are gone.
\<close>

theorem function_closes:
  assumes "convert_function C (visit_block C depth) functions i s = Inr (names, u)"
    and "block_level s = 0" and "scope_ok D s"
  shows "block_level u = 0 \<and> scope_ok D u"
  using base.keepsD [OF funs.closes_convert_function assms(1)] assms(2,3) by (auto simp: base_frame_def)

definition one_function :: conv_state where
  "one_function = (init_state [])\<lparr>funcs := register_function ''func_0'' 0 1 [] [] (new_func_tracker MAX_FUNCTIONS)\<rparr>"

lemma run_function:
  "\<exists>names u. convert_function sample_env (visit_block sample_env (Suc (Suc (Suc 0)))) [sample_function []] 0
     one_function = Inr (names, u)"
  by (simp add: sample_run Let_def one_function_def MAX_FUNCTION_INPUT_def MAX_FUNCTION_OUTPUT_def MAX_FUNCTIONS_def
      register_function_def new_func_tracker_def create_and_register_variable_def var_prefix_def IMMUTABLE_def REGULAR_def)

theorem function_closes_witness:
  "\<exists>names u. convert_function sample_env (visit_block sample_env (Suc (Suc (Suc 0)))) [sample_function []] 0
     one_function = Inr (names, u) \<and> scope_ok [] u"
proof -
  have "scope_ok [] one_function" "block_level one_function = 0"
    using scope_at_new by (simp_all add: one_function_def init_state_def)
  then show ?thesis using run_function function_closes [of sample_env "Suc (Suc (Suc 0))"] by blast
qed

text \<open>
  Claim C10. After a whole contract no function is left open, and what is in scope are exactly the
  declarations of the contract, up to the limit and in their order: each with the type its message
  describes, at level 0, among the storage variables or the constants and immutables as its mutability
  says, under a name with the prefix of its mutability and its type in it, all names distinct.
\<close>

theorem contract_globals:
  assumes "visit C depth contract (init_state r) = Inr (x, u)"
    and "get_rep (decimals (penv C)) contract ''decls'' = Inr ds"
  shows "block_level u = 0 \<and> (\<exists>D. list_all2 (declared_by (decimals (penv C))) (take MAX_STORAGE_VARIABLES ds) D \<and>
    tracks D (tracker u) \<and> distinct (map d_name D))"
  using contract_scope [OF assms] unfolding scope_at_def by blast

definition one_decl :: msg where
  "one_decl = Msg ''Contract'' [(''decls'', VRep [Msg ''VarDecl'' [int_type_field]])]"

lemma run_contract:
  "\<exists>x u. visit sample_env (Suc (Suc (Suc 0))) one_decl (init_state []) = Inr (x, u)"
  by (simp add: sample_run Let_def MAX_FUNCTIONS_def MAX_STORAGE_VARIABLES_def one_decl_def
      setup_order_def collect_calls_def new_func_tracker_def create_and_register_variable_def var_prefix_def
      REGULAR_def resolve_cyclic_dependencies.simps define_order_def find_next_id.simps)

theorem contract_globals_witness:
  "\<exists>x u D. visit sample_env (Suc (Suc (Suc 0))) one_decl (init_state []) = Inr (x, u) \<and>
     map d_type D = [IntT 256 False] \<and> map d_key D = [FUNCTION_KEY] \<and> tracks D (tracker u)"
proof -
  obtain x u where run: "visit sample_env (Suc (Suc (Suc 0))) one_decl (init_state []) = Inr (x, u)"
    using run_contract by blast
  have ds: "get_rep (decimals (penv sample_env)) one_decl ''decls'' = Inr [Msg ''VarDecl'' [int_type_field]]"
    by (simp add: one_decl_def get_rep_def schema_eval proto_message_def present_def)
  have take: "take MAX_STORAGE_VARIABLES [Msg ''VarDecl'' [int_type_field]] = [Msg ''VarDecl'' [int_type_field]]"
    by (simp add: MAX_STORAGE_VARIABLES_def)
  obtain D where D: "list_all2 (declared_by (decimals (penv sample_env))) [Msg ''VarDecl'' [int_type_field]] D" "tracks D (tracker u)"
    using contract_globals [OF run ds] unfolding take by blast
  then obtain d where d: "D = [d]" "declared_by (decimals (penv sample_env)) (Msg ''VarDecl'' [int_type_field]) d"
    by (auto simp: list_all2_Cons1)
  have "get_int True (Msg ''VarDecl'' [int_type_field]) ''mut'' = Inr REGULAR"
    by (simp add: sample_run Let_def REGULAR_def)
  moreover have "extract_vy_type TYPE_DEPTH True False (Msg ''VarDecl'' [int_type_field]) = Inr (IntT 256 False)"
    by (simp add: sample_run Let_def)
  moreover have "decimals (penv sample_env) = True" by (simp add: sample_env_def sample_penv_def)
  ultimately have "d_type d = IntT 256 False" "d_key d = FUNCTION_KEY"
    using d(2) by (simp_all add: declared_by_def global_decl_def key_of_def)
  then show ?thesis using run D(2) d(1) by (intro exI [of _ x] exI [of _ u] exI [of _ D]) simp
qed

section \<open>Functions\<close>

text \<open>
  A call of a function of the contract makes the caller at least as mutable as the function
  that is called, which is the one with the number of the message modulo the number of functions.
\<close>

theorem call_raises_mutability:
  assumes "visit_func_call C (visit_expr C depth) m s = Inr (x, u)"
  shows "\<exists>k. get_int (decimals (penv C)) m ''func_num'' = Inr k \<and>
    f_mutability (ft_functions (funcs s) ! nat (k mod int (length (ft_functions (funcs s))))) \<le> mut_level u"
proof -
  let ?fs = "ft_functions (funcs s)"
  let ?rest = "\<lambda>f. bindM (output_variables (f_outputs f) [] '''') (\<lambda>(output_vars, decls).
        bindM code_offset (\<lambda>off.
        bindM (sub C m ''params'') (\<lambda>params.
        bindM (visit_payloads C (visit_expr C depth) params (zip (f_inputs f) params_attrs)) (\<lambda>input_values.
          returnM (decls @ off @ (if output_vars \<noteq> [] then py_join '', '' output_vars @ '' = '' else '''') @
            render_call f input_values)))))"
  obtain f t where f: "bindM (callee_of C m) function_at s = Inr (f, t)"
    and r: "seqM (raise_mut (f_mutability f)) (?rest f) t = Inr (x, u)"
    using assms unfolding visit_func_call_def by (rule bindM_InrE)
  from r obtain y w where w: "raise_mut (f_mutability f) t = Inr (y, w)" and rest: "?rest f w = Inr (x, u)"
    by (rule bindM_InrE)
  have "decl.keepsM (?rest f)" by (intro keeps visit.keeps_payloads | rule declI)+
  from decl.keepsD [OF this rest] have "decl_frame w u" .
  then have "mut_level w \<le> mut_level u" by (simp add: decl_frame_def fixed_part_def)
  moreover have "f_mutability f \<le> mut_level w" using w by (auto simp: raise_mut_def split: if_splits)
  moreover obtain k where "get_int (decimals (penv C)) m ''func_num'' = Inr k"
    and "f = ?fs ! nat (k mod int (length ?fs))"
    using f by (auto simp: bindM_Inr_iff callee_of_def num_def liftR_Inr_iff function_at_def split: if_splits)
  ultimately show ?thesis by auto
qed

lemma run_call:
  "\<exists>x u. visit_func_call sample_env (visit_expr sample_env (Suc (Suc 0))) (Msg ''FuncCall'' []) one_function = Inr (x, u)"
  by (simp add: sample_run Let_def one_function_def new_func_tracker_def register_function_def new_function_def)

theorem call_raises_mutability_witness:
  "\<exists>x u. visit_func_call sample_env (visit_expr sample_env (Suc (Suc 0))) (Msg ''FuncCall'' []) one_function = Inr (x, u) \<and>
     0 \<le> mut_level u"
proof -
  obtain x u where run: "visit_func_call sample_env (visit_expr sample_env (Suc (Suc 0))) (Msg ''FuncCall'' []) one_function
     = Inr (x, u)" using run_call by blast
  from call_raises_mutability [OF run] have "0 \<le> mut_level u"
    by (auto simp: one_function_def register_function_def new_func_tracker_def new_function_def Let_def)
  then show ?thesis using run by blast
qed

text \<open>What the body of a function leaves alone, and what the decorator depends on.\<close>

lemma function_body_fixed:
  assumes "stmt.keepsM body" and "function_body body s = Inr (x, t)"
  shows "funcs t = funcs s \<and> mut_level s \<le> mut_level t \<and> function_output t = function_output s"
proof -
  obtain v where v: "body (s\<lparr>block_level := 1\<rparr>) = Inr (x, v)"
    and t: "t = v\<lparr>tracker := remove_function_level (block_level v) False
        (remove_function_level (block_level v) True (tracker v)), block_level := 0\<rparr>"
    using assms(2) by (auto simp: function_body_def set_level_def remove_level_def bindM_Inr_iff)
  have "stmt_frame (s\<lparr>block_level := 1\<rparr>) v" using stmt.keepsD [OF assms(1) v] .
  then show ?thesis by (simp add: stmt_frame_def fixed_part_def t)
qed

lemma reentrancy_of_run:
  assumes "reentrancy_of C function s = Inr (re, t)"
  shows "t = s \<and> (re \<noteq> '''' \<longrightarrow> PURE < mut_level s)"
  using assms
  by (cases "conv_class C")
    (auto simp: reentrancy_of_def visit_reentrancy_def bindM_Inr_iff has_def sub_def liftR_Inr_iff split: if_splits)

text \<open>
  Claim C33. The mutability a function is declared with covers its body. A statement at any depth of
  its branches and loops asks for one: sending and logging for a function that may change the state, a
  raw call for one that may read it, and a call of a function that the call tree allows for the
  mutability of the callee. The declared one is at least that, and at least what the message of the
  function asks for; what earlier functions reached plays no part, and a reentrancy decorator is only
  given to a function that is declared as more than pure.
\<close>

theorem declared_mutability:
  assumes "visit_func C (visit_block C depth) i function s = Inr (x, u)"
    and "i < length (ft_functions (funcs s))"
    and "get_msg (decimals (penv C)) function ''block'' = Inr b"
    and "occurs (decimals (penv C)) b st"
    and "asks_for (decimals (penv C)) (s\<lparr>current_func := Some i\<rparr>) st k"
  shows "k \<le> f_mutability (ft_functions (funcs u) ! i) \<and>
    (\<exists>fmut. get_int (decimals (penv C)) function ''mut'' = Inr fmut \<and>
      f_mutability (ft_functions (funcs u) ! i) = max (mut_level u) fmut) \<and>
    (\<forall>l. visit_func C (visit_block C depth) i function (s\<lparr>mut_level := l\<rparr>) = Inr (x, u)) \<and>
    (f_reentrancy (ft_functions (funcs u) ! i) \<noteq> '''' \<longrightarrow> PURE < f_mutability (ft_functions (funcs u) ! i))"
proof -
  let ?body = "function_body (bindM (sub C function ''block'') (visit_block C depth))"
  let ?upd = "\<lambda>re mut fmut blk outs. update_function i (\<lambda>f. f\<lparr>f_mutability := max mut fmut, f_body := blk,
            f_reentrancy := re, f_outputs := outs\<rparr>)"
  let ?rest = "\<lambda>blk. bindM (reentrancy_of C function) (\<lambda>re. bindM (num C function ''mut'') (\<lambda>fmut.
        bindM (getM mut_level) (\<lambda>mut. bindM (getM function_output) (\<lambda>outs. ?upd re mut fmut blk outs))))"
  let ?s = "s\<lparr>mut_level := 0, current_func := Some i\<rparr>"
  have start: "visit_func C (visit_block C depth) i function (s\<lparr>mut_level := l\<rparr>) = bindM ?body ?rest ?s" for l
    by (simp add: visit_func_def set_mut_def bindM_apply [of "modM _"])
  from start [of "mut_level s"] assms(1) have "bindM ?body ?rest ?s = Inr (x, u)" by simp
  then obtain blk v where b: "?body ?s = Inr (blk, v)" and r: "?rest blk v = Inr (x, u)" by (rule bindM_InrE)
  have "stmt.keepsM (bindM (sub C function ''block'') (visit_block C depth))"
    by (rule stmt.keeps_bind [OF stmt_exprI [OF keeps_reads(4)] keeps_visit_block])
  then have fs: "funcs v = funcs s" using function_body_fixed [OF _ b] by simp
  have "raises (s\<lparr>current_func := Some i\<rparr>) k ?body"
    by (rule raises_function_body, rule raises_sub [OF assms(3)]) (rule raises_occurring [OF assms(4,5)])
  from raisesD [where s = ?s, OF this] b have k: "k \<le> mut_level v" by simp
  from r obtain re w where re: "reentrancy_of C function v = Inr (re, w)"
    and r2: "bindM (num C function ''mut'') (\<lambda>fmut.
        bindM (getM mut_level) (\<lambda>mut. bindM (getM function_output) (\<lambda>outs. ?upd re mut fmut blk outs))) w = Inr (x, u)"
    by (rule bindM_InrE)
  note w = reentrancy_of_run [OF re]
  obtain fmut where "get_int (decimals (penv C)) function ''mut'' = Inr fmut"
    and "?upd re (mut_level v) fmut blk (function_output v) v = Inr (x, u)"
    using r2 w by (auto simp: bindM_Inr_iff num_def liftR_Inr_iff)
  moreover have "\<forall>l. visit_func C (visit_block C depth) i function (s\<lparr>mut_level := l\<rparr>) = Inr (x, u)"
    using start start [of "mut_level s"] assms(1) by simp
  ultimately show ?thesis using w fs k assms(2) by (auto simp: update_function_def)
qed

definition sending_loop :: msg where
  "sending_loop = loop_over (block_of [Msg ''Statement'' [(''send_stmt'', VMsg (Msg ''SendStatement'' []))]])"

lemma run_visit_func:
  "\<exists>x u. visit_func sample_env (visit_block sample_env (Suc (Suc (Suc (Suc 0))))) 0 (sample_function [sending_loop])
     one_function = Inr (x, u)"
  by (simp add: sample_run Let_def one_function_def new_func_tracker_def register_function_def new_function_def sending_loop_def
      loop_bounds_def)

theorem declared_mutability_witness:
  "\<exists>x u. visit_func sample_env (visit_block sample_env (Suc (Suc (Suc (Suc 0))))) 0 (sample_function [sending_loop])
     one_function = Inr (x, u) \<and> NON_PAYABLE \<le> f_mutability (ft_functions (funcs u) ! 0)"
proof -
  let ?st = "Msg ''Statement'' [(''send_stmt'', VMsg (Msg ''SendStatement'' []))]" and ?d = "decimals (penv sample_env)"
  have st: "statement_kind ?d ?st = Some ''send_stmt''"
    by (simp add: Samples.run statement_kind_def)
  have "occurs ?d (block_of [?st]) ?st"
    by (rule occurs.here [where ms = "[?st]"]) (simp_all add: Samples.run sample_defs)
  then have inside: "occurs ?d (block_of [sending_loop]) ?st"
    by (rule occurs.loop [where ms = "[sending_loop]" and m = sending_loop and b' = "block_of [?st]"
      and f = "Msg ''ForStmt'' [(''ranged'', VMsg (Msg ''ForStmtRanged'' [(''start'', VInt 3), (''stop'', VInt 1)])), (''body'', VMsg (block_of [?st]))]", rotated 5])
      (simp_all add: Samples.run sample_defs statement_kind_def sending_loop_def)
  have "get_msg ?d (sample_function [sending_loop]) ''block'' = Inr (block_of [sending_loop])"
    by (simp add: Samples.run sample_function_def)
  moreover have "asks_for ?d (one_function\<lparr>current_func := Some 0\<rparr>) ?st NON_PAYABLE"
    by (simp add: asks_for_def st)
  moreover have "0 < length (ft_functions (funcs one_function))"
    by (simp add: one_function_def register_function_def Let_def)
  ultimately show ?thesis using run_visit_func declared_mutability inside by blast
qed




section \<open>Inputs\<close>

text \<open>
  The parameter types a conversion reports for the constructor and the functions are types
  the input generator has values for.
\<close>

theorem reported_inputs:
  assumes "convert_contract C depth r contract = Inr (source, fis)"
    and "mtype contract = ''Contract''" and "conforms (decimals (penv C)) contract"
  shows "\<forall>(name, types) \<in> set fis. \<forall>t \<in> set types. declarable t"
  using convert_contract_inputs [OF assms] by (auto simp: inputs_ok_def)

definition init_contract :: msg where
  "init_contract = Msg ''Contract'' [(''init'', VMsg (Msg ''ContractInit''
     [(''input_params'', VRep [Msg ''FuncParam'' [int_type_field]]), (''flag'', VBool True)]))]"

lemma run_init_class:
  "\<exists>source. convert_contract \<lparr>penv = sample_penv, conv_class = cls\<rparr> (Suc (Suc (Suc 0))) [] init_contract =
     Inr (source, [(''__init__'', [IntT 256 False])])"
  by (cases cls)
    (simp_all add: sample_run Let_def MAX_FUNCTIONS_def MAX_STORAGE_VARIABLES_def MAX_FUNCTION_INPUT_def init_contract_def
      convert_contract_def setup_order_def collect_calls_def new_func_tracker_def create_and_register_variable_def
      var_prefix_def IMMUTABLE_def REGULAR_def resolve_cyclic_dependencies.simps define_order_def find_next_id.simps)

lemma run_init:
  "\<exists>source. convert_contract sample_env (Suc (Suc (Suc 0))) [] init_contract =
     Inr (source, [(''__init__'', [IntT 256 False])])"
  using run_init_class [of TypedConverter] by (simp add: sample_env_def)

lemma init_conforms: "conforms d init_contract" "mtype init_contract = ''Contract''"
  by (simp_all add: init_contract_def int_type_field_def schema_eval proto_message_def)

theorem reported_inputs_witness: "declarable (IntT 256 False)"
  using run_init reported_inputs [OF _ init_conforms(2,1)] by fastforce

text \<open>
  Every value the generator draws for a declarable type inhabits it, with either strategy:
  integers in range, byte strings and strings within their lengths, lists of the declared size.
\<close>

theorem drawn_inputs_inhabit:
  assumes "\<forall>t \<in> set ts. declarable t" and "generate_inputs st E ts r = Inr (vs, r')"
  shows "list_all2 (inhabits E) ts vs"
  using generate_inputs_inhabit [OF assms] .

theorem drawn_inputs_inhabit_witness:
  "\<exists>vs r'. generate_inputs DEFAULT sample_penv [IntT 8 True, BytesM 2, FixedList 2 Bool] [200, 1, 2, 3, 4] = Inr (vs, r') \<and>
     list_all2 (inhabits sample_penv) [IntT 8 True, BytesM 2, FixedList 2 Bool] vs"
proof -
  obtain vs r' where run: "generate_inputs DEFAULT sample_penv [IntT 8 True, BytesM 2, FixedList 2 Bool] [200, 1, 2, 3, 4]
      = Inr (vs, r')"
    by (simp add: input_value_def default_input_simps numeral_2_eq_2 split_beta)
  have "\<forall>t \<in> set [IntT 8 True, BytesM 2, FixedList 2 Bool]. declarable t"
    by (simp add: declarable_def fixed_ok_def)
  from drawn_inputs_inhabit [OF this run] run show ?thesis by blast
qed

section \<open>Deviations\<close>

text \<open>
  An assignment without a variable to assign to declares one instead, and then leaves its
  type on the type stack for good.
\<close>

theorem assignment_leaks_type:
  assumes "visit_assignment C (visit_expr C depth) m s = Inr (x, u)"
    and "bindM (sub C m ''ref_id'') (visit_type C) s = Inr (t, s)"
    and "\<not> is_constant s" and "get_mutable_variables (block_level s) t False (tracker s) = []"
  shows "type_stack u = t # type_stack s"
proof -
  let ?s = "s\<lparr>type_stack := t # type_stack s\<rparr>"
  obtain e where "var_decl C (visit_expr C depth) e t ?s = Inr (x, u)"
    using assms
    by (auto simp: visit_assignment_def bindM_Inr_iff push_type_def visit_var_ref_def top_type_def sub_def
        liftR_Inr_iff)
  from decl.keepsD [OF visit.decl_var_decl this] show ?thesis by (simp add: decl_frame_def)
qed

definition sample_assignment :: msg where
  "sample_assignment = Msg ''AssignmentStatement''
     [(''ref_id'', VMsg (Msg ''VarRef'' [int_type_field])), (''expr'', VMsg (int_typed (int_lit 5)))]"

theorem assignment_leaks_type_witness:
  "\<exists>x u. visit_assignment sample_env (visit_expr sample_env (Suc (Suc 0))) sample_assignment level_one = Inr (x, u) \<and>
     type_stack u = [IntT 256 False]"
proof -
  have "\<exists>x u. visit_assignment sample_env (visit_expr sample_env (Suc (Suc 0))) sample_assignment level_one = Inr (x, u)"
    by (simp add: sample_run Let_def level_one_def sample_assignment_def)
  moreover have "bindM (sub sample_env sample_assignment ''ref_id'') (visit_type sample_env) level_one = Inr (IntT 256 False, level_one)"
    by (simp add: sample_run Let_def level_one_def sample_assignment_def)
  moreover have "\<not> is_constant level_one" "get_mutable_variables (block_level level_one) (IntT 256 False) False (tracker level_one) = []"
      "type_stack level_one = []"
    by (simp_all add: sample_run Let_def level_one_def)
  ultimately show ?thesis using assignment_leaks_type by metis
qed



text \<open>
  The guard of divisions does not know the integer division that the Nagini class emits: a
  division by the constant zero passes it, whatever the dividend and the width are.
\<close>

theorem floor_division_unguarded:
  "get_bin_op 3 (int_bin_op_map NaginiConverter) = Inr ''//'' \<and>
   check_binop_bounds E n left ''//'' (py_str 0) = Inr (left, ''//'', py_str 0) \<and>
   py_eval E (py_str 0) = Some (PyInt 0)"
  by (simp add: get_bin_op_def int_bin_op_map_def check_binop_bounds_floordiv)

end
