(* ===== verification/Service_Claims.thy ===== *)
theory Service_Claims imports Conv_Inputs begin

text \<open>
  What the services promise: the message codec and the queue connection, runners that never run out of
  arguments, a verifier that reports exactly what differs, and the collections under every interleaving
  of generators, runners and verifier.
\<close>

section \<open>Messages and connections\<close>

text \<open>
  Claim C25. What is encoded for a message is decoded to the same value, byte strings and decimals
  nested in lists and dictionaries included, as long as no dictionary uses the key of the tags.
\<close>

theorem codec_round_trip:
  assumes "exact_text T" and "untagged v"
  shows "decode T (encode T v) = Inr v"
  using decode_encode [OF assms] .

definition plain_text :: decimal_text where
  "plain_text = \<lparr>dec_str = (\<lambda>f. nat_str (unat f)), dec_parse = (\<lambda>s. Inr (of_nat (digits_val 0 s)))\<rparr>"

lemma plain_text_exact: "exact_text plain_text"
  by (simp add: exact_text_def plain_text_def)

theorem codec_round_trip_witness:
  "decode plain_text (encode plain_text (ODict [(''func_0'', OList [OBytes [7, 255], ODecimal 3])])) =
     Inr (ODict [(''func_0'', OList [OBytes [7, 255], ODecimal 3])])"
  by (rule codec_round_trip [OF plain_text_exact]) simp

text \<open>
  Connecting to the queue ends: with the first attempt that succeeds among the first twenty,
  or with the error of the twentieth.
\<close>

theorem connection_attempts:
  "new_connection ok =
     (if \<exists>k < 20. ok k then Connected (LEAST k. ok k) else AMQPConnectionError 20)"
proof (cases "\<exists>k < 20. ok k")
  case True
  then have "\<exists>j. 0 \<le> j \<and> j < 20 \<and> ok j" by simp
  then show ?thesis using connect_spec [of 0 ok] True by (simp add: new_connection_def)
next
  case False
  then show ?thesis using connect_spec [of 0 ok] by (auto simp: new_connection_def)
qed

theorem connection_attempts_witness: "new_connection (\<lambda>k. 3 \<le> k) = Connected 3"
proof -
  have "\<exists>k < 20. 3 \<le> (k::nat)" by (rule exI [of _ "3::nat"]) simp
  moreover have "(LEAST k. 3 \<le> k) = (3::nat)" by (rule Least_equality) auto
  ultimately show ?thesis using connection_attempts [of "\<lambda>k. 3 \<le> k"] by simp
qed

text \<open>
  The queues that are opened are those the configured compilers use, each once.
\<close>

theorem opened_queues:
  assumes "compiler_queues queues cs [] = Inr out"
  shows "distinct (map fst out) \<and> fst ` set out = cc_queue ` set cs"
  using compiler_queues_keys [OF assms] by simp

text \<open>The configuration files \<^verbatim>\<open>config.yml\<close> and \<^verbatim>\<open>config_nagini_vs_adder.yml\<close>.\<close>

definition config_venom :: config where
  "config_venom =
     \<lparr>cf_queues = [(''venom'', \<lparr>qc_host = ''queue_optimization_gas'', qc_port = 5672\<rparr>),
        (''default'', \<lparr>qc_host = ''queue_optimization_gas'', qc_port = 5672\<rparr>)],
      cf_compilers = [\<lparr>cc_name = ''venom'', cc_queue = ''venom'', exec_params = [(''venom'', YBool True)]\<rparr>,
        \<lparr>cc_name = ''default'', cc_queue = ''default'', exec_params = [(''venom'', YBool False)]\<rparr>],
      input_strategies = [DEFAULT], extra_flags = []\<rparr>"

definition config_diff :: config where
  "config_diff =
     \<lparr>cf_queues = [(''adder'', \<lparr>qc_host = ''localhost'', qc_port = 5672\<rparr>), (''nagini'', \<lparr>qc_host = ''localhost'', qc_port = 5673\<rparr>)],
      cf_compilers = [\<lparr>cc_name = ''adder'', cc_queue = ''adder'', exec_params = [(''optimization'', YStr ''gas'')]\<rparr>,
        \<lparr>cc_name = ''nagini'', cc_queue = ''nagini'', exec_params = [(''venom'', YBool False)]\<rparr>],
      input_strategies = [DEFAULT], extra_flags = [''enable_decimals'']\<rparr>"

lemmas config_run =
  topology_of_def dhas_def activate_def get_compiler_params_by_name_def

definition broker :: "string \<Rightarrow> nat \<Rightarrow> active_queue" where
  "broker host port = \<lparr>qc_host = host, qc_port = port, queue_name = ''queue3.10''\<rparr>"

lemma config_venom_topology:
  obtains T where "topology_of config_venom = Inr T" and "compilers T = [''venom'', ''default'']"
    and "reads T ''venom'' = Some (broker ''queue_optimization_gas'' 5672)"
    and "reads T ''default'' = Some (broker ''queue_optimization_gas'' 5672)"
  by (simp add: config_run config_venom_def broker_def)

lemma config_diff_topology:
  obtains T where "topology_of config_diff = Inr T" and "compilers T = [''adder'', ''nagini'']"
    and "published T = [broker ''localhost'' 5672, broker ''localhost'' 5673]"
    and "reads T ''adder'' = Some (broker ''localhost'' 5672)"
  by (simp add: config_run config_diff_def broker_def)

section \<open>The verifier\<close>

text \<open>
  Claim C36. The check of deployments reports a document as failed exactly when some compiler could not
  deploy it, and finds no discrepancy exactly when all compilers have the same error, or none, for
  every constructor input.
\<close>

theorem deployment_check:
  assumes "same_deployments fs n doc" and "fs \<noteq> []"
  shows "\<exists>reports. check_deploy_errors fs doc = Inr ((\<exists>f \<in> set fs. \<exists>j < n. error_at doc j f \<noteq> None), reports) \<and>
    ((\<forall>r \<in> set reports. dr_results r = None) \<longleftrightarrow>
      (\<forall>j < n. \<forall>f \<in> set fs. \<forall>g \<in> set fs. error_at doc j f = error_at doc j g))"
  using check_deploy_errors_spec [OF assms] .

theorem deployment_check_witness:
  "\<exists>reports. check_deploy_errors [''a'', ''b''] [(''a'', [Deployed []]), (''b'', [DeployError ''e''])] = Inr (True, reports) \<and>
     \<not> (\<forall>r \<in> set reports. dr_results r = None)"
proof -
  let ?doc = "[(''a'', [Deployed []]), (''b'', [DeployError ''e''])]"
  have "same_deployments [''a'', ''b''] 1 ?doc" by (simp add: same_deployments_def)
  from deployment_check [OF this] show ?thesis by (force simp: error_at_def deploy_error_of_def)
qed




text \<open>
  Claim C38. A failed call hides what its neighbours returned: take two tables of results that differ,
  for any call, only between neighbouring compilers of which one failed in both tables; whatever the
  others return for these calls, and whatever the error texts are, the reports of the whole document
  are the same. With three compilers and a failure of the middle one no difference between the outer
  two is ever reported.
\<close>

theorem failures_hide_differences:
  assumes "distinct fs" and "cs \<noteq> []"
    and "\<forall>c \<in> set cs. map_of doc c = Some (uniform fs n p R c)"
    and "\<forall>c \<in> set cs. map_of doc' c = Some (uniform fs n p R' c)"
    and "\<And>f i k j. Suc j < length cs \<Longrightarrow>
      R (cs ! j) i f k = R' (cs ! j) i f k \<and> R (cs ! Suc j) i f k = R' (cs ! Suc j) i f k \<or>
      one_failed (R (cs ! j) i f k) (R (cs ! Suc j) i f k) \<and> one_failed (R' (cs ! j) i f k) (R' (cs ! Suc j) i f k)"
  shows "\<exists>D D'. reshape_data cs doc = Inr D \<and> reshape_data cs doc' = Inr D' \<and>
    set (verify_results cs D) = set (verify_results cs D')"
proof -
  have same: "call_report_of cs R f i k j = call_report_of cs R' f i k j" if "Suc j < length cs" for f i k j
  proof -
    have "verify_two_results (R (cs ! j) i f k) (R (cs ! Suc j) i f k) =
        verify_two_results (R' (cs ! j) i f k) (R' (cs ! Suc j) i f k)"
      using assms(5) [OF that, of i f k] one_failed_reports by metis
    then show ?thesis by (simp add: call_report_of_def)
  qed
  then have "{call_report_of cs R f i k j | f i k j. f \<in> set fs \<and> i < n \<and> k < p \<and> Suc j < length cs} =
      {call_report_of cs R' f i k j | f i k j. f \<in> set fs \<and> i < n \<and> k < p \<and> Suc j < length cs}"
    by (intro Collect_cong) metis
  then show ?thesis
    using reports_of_uniform [OF assms(1-3)] reports_of_uniform [OF assms(1,2,4)] by metis
qed

definition failing_middle :: "string \<Rightarrow> result_table" where
  "failing_middle v = (\<lambda>c i f k. if c = ''b'' then RuntimeError ''revert'' else Executed [] '''' 0 (if c = ''a'' then v else ''1''))"

theorem failures_hide_differences_witness:
  "\<exists>D D'. reshape_data [''a'', ''b'', ''c''] (map (\<lambda>c. (c, uniform [''func_0''] 1 1 (failing_middle ''1'') c)) [''a'', ''b'', ''c'']) = Inr D \<and>
     reshape_data [''a'', ''b'', ''c''] (map (\<lambda>c. (c, uniform [''func_0''] 1 1 (failing_middle ''2'') c)) [''a'', ''b'', ''c'']) = Inr D' \<and>
     set (verify_results [''a'', ''b'', ''c''] D) = set (verify_results [''a'', ''b'', ''c''] D') \<and>
     \<not> agree (failing_middle ''2'' ''a'' 0 ''func_0'' 0) (failing_middle ''2'' ''c'' 0 ''func_0'' 0)"
proof -
  let ?cs = "[''a'', ''b'', ''c'']"
  let ?doc = "\<lambda>v. map (\<lambda>c. (c, uniform [''func_0''] 1 1 (failing_middle v) c)) ?cs"
  have doc: "\<forall>c \<in> set ?cs. map_of (?doc v) c = Some (uniform [''func_0''] 1 1 (failing_middle v) c)" for v by simp
  have hidden: "one_failed (failing_middle v (?cs ! j) i f k) (failing_middle v (?cs ! Suc j) i f k)"
    if "Suc j < length ?cs" for v j i f k
  proof -
    have "j = 0 \<or> j = 1" using that by auto
    then show ?thesis by (auto simp: failing_middle_def one_failed_def)
  qed
  have "distinct [''func_0'']" "?cs \<noteq> []" by simp_all
  from failures_hide_differences [OF this doc doc, of "''1''" "''2''"] hidden show ?thesis
    by (auto simp: agree_def failing_middle_def)
qed

text \<open>
  Claim C23. A pass of the verifier gets on: a document that waits and in which every compiler has a
  result and deployed a contract with the same functions, at least one, is marked as handled by the
  next pass that does not raise, and its report is stored: one entry for every call and every two
  neighbouring compilers, with the comparison of what the two returned.
\<close>

theorem pass_makes_progress:
  assumes "verifier_pass cs (docs, stored) = Inr (docs', stored')"
    and "d \<in> set docs" and "is_handled d = Some False"
    and "distinct fs" and "fs \<noteq> []" and "cs \<noteq> []" and "0 < n"
    and "\<forall>c \<in> set (target_fields cs). map_of (doc_results d) c = Some (uniform fs n p R c)"
  shows "d\<lparr>is_handled := Some True\<rparr> \<in> set docs' \<and>
    (\<exists>reps. (generation_id d, CallReports reps) \<in> set stored' \<and>
      set reps = {call_report_of (target_fields cs) R f i k j | f i k j.
        f \<in> set fs \<and> i < n \<and> k < p \<and> Suc j < length cs})"
proof -
  obtain D where D: "handle_doc cs d = Inr (Some (CallReports (verify_results (target_fields cs) D), True))"
    and reps: "set (verify_results (target_fields cs) D) =
      {call_report_of (target_fields cs) R f i k j | f i k j. f \<in> set fs \<and> i < n \<and> k < p \<and> Suc j < length cs}"
    using handle_doc_deployed [OF assms(4-8)] by blast
  from pass_handles [OF assms(1-3) D] reps show ?thesis by blast
qed

definition waiting :: "deployment \<Rightarrow> run_doc" where
  "waiting x = \<lparr>doc_id = 0, generation_id = ''g'', doc_results = [(''result_a'', [x])], is_handled = Some False\<rparr>"

lemma run_handle:
  "handle_doc [''a''] (waiting (Deployed [(''func_0'', [RuntimeError ''e''])])) = Inr (Some (CallReports [], True))"
  "handle_doc [''a''] (waiting (DeployError ''e'')) = Inr (Some (DeployReports [], False))"
  by code_simp+

lemma run_pass:
  "verifier_pass [''a''] ([waiting (Deployed [(''func_0'', [RuntimeError ''e''])])], []) =
     Inr ([(waiting (Deployed [(''func_0'', [RuntimeError ''e''])]))\<lparr>is_handled := Some True\<rparr>], [(''g'', CallReports [])])"
  "verifier_pass [''a''] ([waiting (DeployError ''e'')], []) =
     Inr ([waiting (DeployError ''e'')], [(''g'', DeployReports [])])"
  using run_handle by (simp_all add: verifier_pass_def verifier_scan_def waiting_def mark_handled_def)

lemma waiting_fields:
  "doc_results (waiting x) = [(''result_a'', [x])]" "is_handled (waiting x) = Some False"
  "generation_id (waiting x) = ''g''" "target_fields [''a''] = [''result_a'']"
  by (simp_all add: waiting_def target_fields_def)

theorem pass_makes_progress_witness:
  "\<exists>docs' stored' reps. verifier_pass [''a''] ([waiting (Deployed [(''func_0'', [RuntimeError ''e''])])], []) = Inr (docs', stored') \<and>
     (waiting (Deployed [(''func_0'', [RuntimeError ''e''])]))\<lparr>is_handled := Some True\<rparr> \<in> set docs' \<and>
     (''g'', CallReports reps) \<in> set stored'"
proof -
  let ?d = "waiting (Deployed [(''func_0'', [RuntimeError ''e''])])"
  have "\<forall>c \<in> set (target_fields [''a'']). map_of (doc_results ?d) c = Some (uniform [''func_0''] 1 1 (\<lambda>_ _ _ _. RuntimeError ''e'') c)"
    by (simp add: waiting_fields uniform_def)
  from pass_makes_progress [OF run_pass(1) _ waiting_fields(2) _ _ _ _ this] run_pass(1) show ?thesis
    by (force simp: waiting_fields)
qed

text \<open>
  Claim C39. A document with a deployment error is never done: when every compiler has a result for
  the same number of deployments, not empty in the first one, and some deployment failed, every pass
  that does not raise reports it again, with a discrepancy exactly when the compilers do not all have
  the same error in each deployment, and leaves it as it was.
\<close>

theorem failed_deployments_repeat:
  assumes "verifier_pass cs (docs, stored) = Inr (docs', stored')"
    and "d \<in> set docs" and "is_handled d = Some False" and "distinct (map doc_id docs)"
    and "cs \<noteq> []" and "same_deployments (target_fields cs) n (doc_results d)" and "0 < n"
    and "\<forall>f \<in> set (target_fields cs). the (map_of (doc_results d) f) ! 0 \<noteq> Deployed []"
    and "\<exists>f \<in> set (target_fields cs). \<exists>j < n. error_at (doc_results d) j f \<noteq> None"
  shows "d \<in> set docs' \<and> (\<exists>new reps. stored' = stored @ new \<and> (generation_id d, DeployReports reps) \<in> set new \<and>
    ((\<forall>r \<in> set reps. dr_results r = None) \<longleftrightarrow>
      (\<forall>j < n. \<forall>f \<in> set (target_fields cs). \<forall>g \<in> set (target_fields cs).
        error_at (doc_results d) j f = error_at (doc_results d) j g)))"
proof -
  obtain reps where h: "handle_doc cs d = Inr (Some (DeployReports reps, False))"
    and clean: "(\<forall>r \<in> set reps. dr_results r = None) \<longleftrightarrow>
      (\<forall>j < n. \<forall>f \<in> set (target_fields cs). \<forall>g \<in> set (target_fields cs).
        error_at (doc_results d) j f = error_at (doc_results d) j g)"
    using handle_doc_failed [OF assms(5-9)] by blast
  from pass_reverifies [OF assms(1-4) h] clean show ?thesis by blast
qed

theorem failed_deployments_repeat_witness:
  "\<exists>docs' stored' new reps. verifier_pass [''a''] ([waiting (DeployError ''e'')], []) = Inr (docs', stored') \<and>
     waiting (DeployError ''e'') \<in> set docs' \<and> stored' = [] @ new \<and> (''g'', DeployReports reps) \<in> set new"
proof -
  let ?d = "waiting (DeployError ''e'')"
  have "same_deployments (target_fields [''a'']) 1 (doc_results ?d)"
    "\<forall>f \<in> set (target_fields [''a'']). the (map_of (doc_results ?d) f) ! 0 \<noteq> Deployed []"
    "\<exists>f \<in> set (target_fields [''a'']). \<exists>j < 1. error_at (doc_results ?d) j f \<noteq> None"
    by (simp_all add: same_deployments_def waiting_fields error_at_def deploy_error_of_def)
  from failed_deployments_repeat [OF run_pass(2) _ waiting_fields(2) _ _ this(1) _ this(2,3)] run_pass(2) show ?thesis
    by (force simp: waiting_fields)
qed

section \<open>Generators, runners and verifier together\<close>

text \<open>
  In every interleaving of the services the collections stay consistent: each generation has
  at most one entry, under its own id and a number that was given out, and an entry that is marked as
  handled has the results of all compilers.
\<close>

theorem collections_consistent:
  assumes "reachable T w"
  shows "distinct (map doc_id (run_docs w)) \<and>
    (\<forall>d \<in> set (run_docs w). generation_id d = gen_id (doc_id d) \<and> doc_id d < next_gen w \<and>
      (is_handled d = Some True \<longrightarrow> ready_to_handle (target_fields (compilers T)) (doc_results d)))"
  using reachable_ok [OF assms] by (auto simp: entries_ok_def handled_ready_def settled_def)

lemma one_generation: "reachable T (insert_entry 0 (publish_all T initial_world))"
proof -
  have "step T (publish_all T initial_world) (insert_entry 0 (publish_all T initial_world))"
    by (rule step.entry) (simp add: publish_all_def initial_world_def)
  with reachable_published show ?thesis by (rule reachable_step)
qed

theorem collections_consistent_witness:
  "\<exists>T. topology_of config_diff = Inr T \<and> distinct (map doc_id (run_docs (insert_entry 0 (publish_all T initial_world))))"
proof -
  obtain T where "topology_of config_diff = Inr T" by (rule config_diff_topology)
  then show ?thesis using collections_consistent [OF one_generation [of T]] by blast
qed

text \<open>
  Claim C7. When no two compilers have the same queue and every runner takes longer than the generator
  needs to create the entry, no result is lost: once the queues are empty, every generation that was
  published has an entry with the results of all compilers.
\<close>

theorem all_results_arrive:
  assumes "topology_of conf = Inr T" and "inj_on (queue_of conf) (set (cf_compilers conf))"
    and "(slow_step T)\<^sup>*\<^sup>* initial_world w" and "queued w = []" and "pending w = None" and "n < next_gen w"
  shows "\<exists>d \<in> set (run_docs w). doc_id d = n \<and> generation_id d = gen_id n \<and>
    ready_to_handle (target_fields (compilers T)) (doc_results d)"
proof -
  note sep = separate_topology [OF assms(1,2)]
  have "entries_ok w" using slow_run_nothing_lost [OF assms(3) sep] reachable_ok by blast
  with drained_ready [OF assms(3) sep assms(4-6)] show ?thesis by (auto simp: entries_ok_def)
qed

definition diff_run :: "topology \<Rightarrow> world" where
  "diff_run T =
     store_result (broker ''localhost'' 5673) ''nagini'' (gen_id 0) []
       (store_result (broker ''localhost'' 5672) ''adder'' (gen_id 0) []
         (insert_entry 0 (publish_all T initial_world)))"

theorem all_results_arrive_witness:
  "\<exists>T. topology_of config_diff = Inr T \<and>
     (\<exists>d \<in> set (run_docs (diff_run T)). doc_id d = 0 \<and> ready_to_handle (target_fields [''adder'', ''nagini'']) (doc_results d))"
proof -
  let ?q = "broker ''localhost'' 5672" and ?q' = "broker ''localhost'' 5673"
  obtain T where T: "topology_of config_diff = Inr T" "compilers T = [''adder'', ''nagini'']"
    "published T = [?q, ?q']" "reads T ''adder'' = Some ?q" "reads T ''nagini'' = Some ?q'"
    by (simp add: config_run config_diff_def broker_def)
  let ?w0 = "publish_all T initial_world"
  let ?w1 = "insert_entry 0 ?w0"
  let ?w2 = "store_result ?q ''adder'' (gen_id 0) [] ?w1"
  have "slow_step T initial_world ?w0" by (rule slow_step.publish) (simp add: initial_world_def)
  moreover have "slow_step T ?w0 ?w1" by (rule slow_step.entry) (simp add: publish_all_def initial_world_def)
  moreover have "slow_step T ?w1 ?w2"
    by (rule slow_step.run [OF T(4)]) (simp_all add: insert_entry_def publish_all_def initial_world_def T(3))
  moreover have "slow_step T ?w2 (diff_run T)" unfolding diff_run_def
    by (rule slow_step.run [OF T(5)])
      (simp_all add: store_result_def insert_entry_def publish_all_def initial_world_def T(3) broker_def)
  ultimately have "(slow_step T)\<^sup>*\<^sup>* initial_world (diff_run T)" by (meson converse_rtranclp_into_rtranclp rtranclp.rtrancl_refl)
  moreover have "inj_on (queue_of config_diff) (set (cf_compilers config_diff))"
    by (simp add: config_diff_def queue_of_def activate_def)
  moreover have "queued (diff_run T) = []" "pending (diff_run T) = None" "0 < next_gen (diff_run T)"
    by (simp_all add: diff_run_def store_result_def insert_entry_def publish_all_def initial_world_def T(3) broker_def)
  ultimately show ?thesis using all_results_arrive [OF T(1)] T(1,2) by fastforce
qed

text \<open>
  Claim C18. When two compilers are configured with queues that are one queue of the broker, as in
  \<^verbatim>\<open>config.yml\<close>, the runner of one can take both copies of a message: then the other
  compiler never gets one, and no continuation makes the entry ready to verify.
\<close>

theorem shared_queue_starves:
  assumes "topology_of conf = Inr T" and "c \<in> set (compilers T)" and "c \<noteq> d"
    and "reads T c = reads T d"
  shows "\<exists>w. reachable T w \<and> (\<forall>w'. (step T)\<^sup>*\<^sup>* w w' \<longrightarrow>
    (\<exists>e \<in> set (run_docs w'). doc_id e = 0 \<and> \<not> ready_to_handle (target_fields (compilers T)) (doc_results e)))"
proof -
  obtain q where q: "reads T c = Some q" using reads_defined [OF assms(1,2)] by blast
  obtain w where w: "reachable T w" "has_entry 0 w" "result_missing T c 0 w"
    using shared_queue_missing [OF q _ assms(3)] q assms(4) by auto
  have "\<exists>e \<in> set (run_docs w'). doc_id e = 0 \<and> \<not> ready_to_handle (target_fields (compilers T)) (doc_results e)"
    if "(step T)\<^sup>*\<^sup>* w w'" for w'
    using result_missing_forever [OF that w(1,3,2)] missing_not_ready [OF _ _ assms(2)] by blast
  then show ?thesis using w(1) by blast
qed

theorem shared_queue_starves_witness:
  "\<exists>T w. topology_of config_venom = Inr T \<and> reachable T w \<and>
     (\<exists>e \<in> set (run_docs w). \<not> ready_to_handle (target_fields [''venom'', ''default'']) (doc_results e))"
proof -
  obtain T where T: "topology_of config_venom = Inr T" "compilers T = [''venom'', ''default'']"
    "reads T ''default'' = reads T ''venom''" by (rule config_venom_topology) simp
  have "''default'' \<in> set (compilers T)" "''default'' \<noteq> ''venom''" using T(2) by simp_all
  from shared_queue_starves [OF T(1) this T(3)] obtain w where "reachable T w"
    "\<exists>e \<in> set (run_docs w). doc_id e = 0 \<and> \<not> ready_to_handle (target_fields (compilers T)) (doc_results e)" by blast
  then show ?thesis using T(1,2) by metis
qed

text \<open>
  Claim C17. The result of a runner that is faster than the generator is lost: the message is published
  before the entry exists, a runner can take it and store its result in between, and from then on, in
  every continuation, the entry lacks the result of that compiler and never becomes ready to verify.
\<close>

theorem fast_result_lost:
  assumes "topology_of conf = Inr T" and "c \<in> set (compilers T)" and "reads T c = Some q"
    and "distinct (published T)" and "(step T)\<^sup>*\<^sup>* (fast_runner T q c) w"
  shows "reachable T w \<and>
    (\<exists>d \<in> set (run_docs w). doc_id d = 0 \<and> map_of (doc_results d) (''result_'' @ c) = None \<and>
      \<not> ready_to_handle (target_fields (compilers T)) (doc_results d))"
proof -
  have "q \<in> set (published T)" using reads_queue [OF assms(1,3)] by blast
  note fast = fast_runner_world [OF assms(3) this assms(4)]
  have w: "reachable T w \<and> result_missing T c 0 w \<and> has_entry 0 w"
    using result_missing_forever [OF assms(5)] fast by blast
  then obtain d where "d \<in> set (run_docs w)" "doc_id d = 0" "\<not> ready_to_handle (target_fields (compilers T)) (doc_results d)"
    using missing_not_ready assms(2) by blast
  then show ?thesis using w by (auto simp: result_missing_def)
qed

theorem fast_result_lost_witness:
  "\<exists>T. topology_of config_diff = Inr T \<and>
     (\<exists>d \<in> set (run_docs (fast_runner T (broker ''localhost'' 5672) ''adder'')). doc_id d = 0 \<and>
       \<not> ready_to_handle (target_fields [''adder'', ''nagini'']) (doc_results d))"
proof -
  obtain T where T: "topology_of config_diff = Inr T" "compilers T = [''adder'', ''nagini'']"
    "published T = [broker ''localhost'' 5672, broker ''localhost'' 5673]"
    "reads T ''adder'' = Some (broker ''localhost'' 5672)" by (rule config_diff_topology)
  have "''adder'' \<in> set (compilers T)" "distinct (published T)" using T(2,3) by (simp_all add: broker_def)
  from fast_result_lost [OF T(1) this(1) T(4) this(2) rtranclp.rtrancl_refl] show ?thesis using T(1,2) by metis
qed







end
