(* ===== verification/Conv_Signature.thy ===== *)
theory Conv_Signature imports Conv_Inputs begin

text \<open>
  The inputs a converter reports, computed from the message alone: the parameter types of the
  constructor, if it is generated, and those of the functions in the order they are converted in.
\<close>

section \<open>The reported inputs as a function of the message\<close>

definition param_types :: "bool \<Rightarrow> msg list \<Rightarrow> vy_type list res" where
  "param_types d ms = mapR (extract_vy_type TYPE_DEPTH d False) (take MAX_FUNCTION_INPUT ms)"

definition input_types :: "bool \<Rightarrow> msg \<Rightarrow> vy_type list res" where
  "input_types d m = bindR (get_rep d m ''input_params'') (param_types d)"

text \<open>An immutable among the global variables forces a constructor.\<close>

fun any_immutable :: "bool \<Rightarrow> msg list \<Rightarrow> bool res" where
  "any_immutable d [] = Inr False"
| "any_immutable d (m # ms) =
     bindR (get_int d m ''mut'') (\<lambda>mut.
     bindR (any_immutable d ms) (\<lambda>b. Inr (mut \<noteq> REGULAR \<and> mut \<noteq> CONSTANT \<or> b)))"

definition init_inputs :: "bool \<Rightarrow> msg \<Rightarrow> (string \<times> vy_type list) list res" where
  "init_inputs d contract =
     bindR (get_rep d contract ''decls'') (\<lambda>decls.
     bindR (any_immutable d (take MAX_STORAGE_VARIABLES decls)) (\<lambda>imm.
     bindR (get_msg d contract ''init'') (\<lambda>init.
     bindR (get_bool d init ''flag'') (\<lambda>fl.
       if fl \<or> imm then
         bindR (input_types d init) (\<lambda>ts. Inr (if ts \<noteq> [] then [(''__init__'', ts)] else []))
       else Inr []))))"

fun functions_inputs ::
  "bool \<Rightarrow> string list \<Rightarrow> msg list \<Rightarrow> nat list \<Rightarrow> (string \<times> vy_type list) list \<Rightarrow> (string \<times> vy_type list) list res" where
  "functions_inputs d names fs [] fis = Inr fis"
| "functions_inputs d names fs (i # is) fis =
     (if length names \<le> i \<or> length fs \<le> i then Inl (IndexError ''list index out of range'')
      else bindR (input_types d (fs ! i)) (\<lambda>ts.
        functions_inputs d names fs is (AList.update (names ! i) ts fis)))"

definition contract_inputs :: "bool \<Rightarrow> msg \<Rightarrow> (string \<times> vy_type list) list res" where
  "contract_inputs d contract =
     bindR (init_inputs d contract) (\<lambda>fis.
     bindR (get_rep d contract ''functions'') (\<lambda>fs.
     bindR (register_functions d fs (new_func_tracker MAX_FUNCTIONS)) (\<lambda>ft.
     bindR (setup_order MAX_FUNCTIONS d ft fs) (\<lambda>(order, _).
       functions_inputs d (map f_name (ft_functions ft)) fs order fis))))"

section \<open>Parameters\<close>

lemma input_parameters_types:
  assumes "input_parameters C i ms acc ts names s = Inr ((ptext, types, nms), t)" and "i < MAX_FUNCTION_INPUT"
  shows "\<exists>us. mapR (extract_vy_type TYPE_DEPTH (decimals (penv C)) False) (take (MAX_FUNCTION_INPUT - i) ms) = Inr us \<and>
    types = ts @ us"
  using assms
proof (induction ms arbitrary: i acc ts names s)
  case (Cons m ms)
  obtain u s1 n s2 where u: "extract_vy_type TYPE_DEPTH (decimals (penv C)) False m = Inr u"
    and step: "create_var u 1 IMMUTABLE s1 = Inr (n, s2)" and vt: "visit_type C m s = Inr (u, s1)"
    using Cons.prems(1) by (auto simp: bindM_Inr_iff visit_type_def liftR_Inr_iff)
  have tk: "take (MAX_FUNCTION_INPUT - i) (m # ms) = m # take (MAX_FUNCTION_INPUT - (i + 1)) ms"
    using Cons.prems(2) by (cases "MAX_FUNCTION_INPUT - i") (simp_all add: diff_Suc)
  show ?case
  proof (cases "i + 1 = MAX_FUNCTION_INPUT")
    case True
    then have "types = ts @ [u]" using Cons.prems(1) vt step by (auto simp: bindM_Inr_iff Let_def)
    then show ?thesis using tk u True by simp
  next
    case False
    then obtain acc' where
      "input_parameters C (i + 1) ms acc' (ts @ [u]) (names @ [n]) s2 = Inr ((ptext, types, nms), t)"
      using Cons.prems(1) vt step by (auto simp: bindM_Inr_iff Let_def)
    from Cons.IH [OF this] obtain us where
      "mapR (extract_vy_type TYPE_DEPTH (decimals (penv C)) False) (take (MAX_FUNCTION_INPUT - (i + 1)) ms) = Inr us"
      "types = (ts @ [u]) @ us" using False Cons.prems(2) by fastforce
    then show ?thesis using tk u by simp
  qed
qed simp

lemma input_types_run:
  assumes "bindM (rep C m ''input_params'') (visit_input_parameters C) s = Inr ((ptext, types, nms), t)"
  shows "input_types (decimals (penv C)) m = Inr types"
proof -
  obtain ms where ms: "get_rep (decimals (penv C)) m ''input_params'' = Inr ms"
    and "input_parameters C 0 ms '''' [] [] s = Inr ((ptext, types, nms), t)"
    using assms by (auto simp: bindM_Inr_iff rep_def liftR_Inr_iff visit_input_parameters_def)
  from input_parameters_types [OF this(2)] show ?thesis
    by (simp add: input_types_def param_types_def ms MAX_FUNCTION_INPUT_def)
qed

section \<open>Global variables\<close>

definition imm_frame :: "conv_state \<Rightarrow> conv_state \<Rightarrow> bool" where
  "imm_frame s t \<longleftrightarrow> immutable_exp t = immutable_exp s"

interpretation imm: frame_rel imm_frame
  by unfold_locales (simp_all add: imm_frame_def)

lemma imm_expr: "expr.keepsM m \<Longrightarrow> imm.keepsM m"
  using expr_frame_fields(12) by (auto simp: imm.keepsM_def expr.keepsM_def imm_frame_def)

lemma imm_steps [keeps]:
  "imm.keepsM (emit acc)" "imm.keepsM (set_constant b)" "imm.keepsM (push_type t)" "imm.keepsM pop_type"
  "imm.keepsM (create_var t l mut)" "imm.keepsM (visit_typed_expression C (visit_expr C depth) e t)"
proof -
  show "imm.keepsM (visit_typed_expression C (visit_expr C depth) e t)" by (rule imm_expr) (intro keeps)
qed (rule imm.keepsI, auto simp: emit_def set_constant_def push_type_def pop_type_def create_var_def
      bindR_Inr_iff imm_frame_def split: list.splits)+

text \<open>Whether a step adds an immutable.\<close>

definition adds_immutable :: "bool \<Rightarrow> 'a conv \<Rightarrow> bool" where
  "adds_immutable b m \<longleftrightarrow>
     (\<forall>s x t. m s = Inr (x, t) \<longrightarrow> (immutable_exp t \<noteq> [] \<longleftrightarrow> immutable_exp s \<noteq> [] \<or> b))"

lemma adds_keep: "imm.keepsM m \<Longrightarrow> adds_immutable False m"
  by (auto simp: imm.keepsM_def imm_frame_def adds_immutable_def)

lemma adds_after:
  assumes "imm.keepsM m" and "\<And>x. adds_immutable b (k x)"
  shows "adds_immutable b (bindM m k)"
  using assms unfolding imm.keepsM_def imm_frame_def adds_immutable_def bindM_Inr_iff by metis

lemma adds_before:
  assumes "adds_immutable b m" and "\<And>x. imm.keepsM (k x)"
  shows "adds_immutable b (bindM m k)"
  using assms unfolding imm.keepsM_def imm_frame_def adds_immutable_def bindM_Inr_iff by metis

lemma adds_append: "es \<noteq> [] \<Longrightarrow> adds_immutable True (modM (\<lambda>s. s\<lparr>immutable_exp := immutable_exp s @ es\<rparr>))"
  by (simp add: adds_immutable_def)

lemma global_immutable:
  assumes "var_decl_global C (visit_expr C depth) m s = Inr (txt, t)"
  shows "\<exists>mut. get_int (decimals (penv C)) m ''mut'' = Inr mut \<and>
    (immutable_exp t \<noteq> [] \<longleftrightarrow> immutable_exp s \<noteq> [] \<or> mut \<noteq> REGULAR \<and> mut \<noteq> CONSTANT)"
proof -
  let ?v = "visit_expr C depth"
  let ?body = "\<lambda>ty mut. (if mut = REGULAR then
          bindM (create_var ty 0 mut) (\<lambda>name. returnM (name @ '': '' @ vyper_type ty))
        else
          seqM (if mut = CONSTANT then set_constant True else returnM ())
          (bindM (bindM (sub C m ''expr'') (\<lambda>e. visit_typed_expression C ?v e ty)) (\<lambda>v.
           seqM (set_constant False)
           (bindM (create_var ty 0 mut) (\<lambda>name.
            if mut = CONSTANT then
              returnM (name @ '': constant('' @ vyper_type ty @ '') = '' @ v)
            else
              seqM (modM (\<lambda>s. s\<lparr>immutable_exp := immutable_exp s @ [(name, v)]\<rparr>))
                (returnM (name @ '': immutable('' @ vyper_type ty @ '')'')))))))"
  have "adds_immutable (mut \<noteq> REGULAR \<and> mut \<noteq> CONSTANT) (?body ty mut)" for ty mut
  proof (cases "mut = REGULAR \<or> mut = CONSTANT")
    case True
    then have kept: "imm.keepsM (?body ty mut)"
      by (intro keeps imm_expr [OF keeps_reads(4)]) (use True in blast)
    from True have "(mut \<noteq> REGULAR \<and> mut \<noteq> CONSTANT) = False" by blast
    show ?thesis unfolding \<open>(mut \<noteq> REGULAR \<and> mut \<noteq> CONSTANT) = False\<close> by (rule adds_keep [OF kept])
  next
    case False
    have append: "adds_immutable True (seqM (modM (\<lambda>s. s\<lparr>immutable_exp := immutable_exp s @ [(name, v)]\<rparr>)) (returnM x))"
      for name v and x :: string
      by (rule adds_before [OF adds_append]) (simp, rule keeps)
    from False show ?thesis
      by (simp, intro adds_after [OF _ adds_after [OF _ adds_after [OF _ append]]])
        (intro keeps imm_expr [OF keeps_reads(4)])+
  qed
  note body = this
  obtain ty mut where mut: "get_int (decimals (penv C)) m ''mut'' = Inr mut"
    and "(bindM (?body ty mut) (\<lambda>x. seqM pop_type (returnM x))) (s\<lparr>type_stack := ty # type_stack s\<rparr>) = Inr (txt, t)"
    using assms
    by (auto simp: var_decl_global_def bindM_Inr_iff [of "visit_type C m"] visit_type_def liftR_Inr_iff num_def
        with_type_def push_type_def bindM_Inr_iff [of "modM f" for f] bind_assocM bindM_Inr_iff [of "liftR f" for f])
  moreover have "adds_immutable (mut \<noteq> REGULAR \<and> mut \<noteq> CONSTANT) (bindM (?body ty mut) (\<lambda>x. seqM pop_type (returnM x)))"
    by (rule adds_before [OF body]) (intro keeps)
  ultimately show ?thesis unfolding adds_immutable_def by fastforce
qed

lemma decls_immutable:
  assumes "visit_decls C (visit_expr C depth) i ms s = Inr (x, t)"
  shows "\<exists>b. any_immutable (decimals (penv C)) (take (MAX_STORAGE_VARIABLES - i) ms) = Inr b \<and>
    (immutable_exp t \<noteq> [] \<longleftrightarrow> immutable_exp s \<noteq> [] \<or> b)"
  using assms
proof (induction ms arbitrary: i s)
  case (Cons m ms)
  show ?case
  proof (cases "MAX_STORAGE_VARIABLES \<le> i")
    case False
    then obtain out s1 s2 where one: "var_decl_global C (visit_expr C depth) m s = Inr (out, s1)"
      and e: "emit (out @ newline) s1 = Inr ((), s2)"
      and rest: "visit_decls C (visit_expr C depth) (i + 1) ms s2 = Inr (x, t)"
      using Cons.prems by (auto simp: bindM_Inr_iff)
    have "immutable_exp s2 = immutable_exp s1" using e by (auto simp: emit_def)
    moreover have "take (MAX_STORAGE_VARIABLES - i) (m # ms) = m # take (MAX_STORAGE_VARIABLES - (i + 1)) ms"
      using False by (cases "MAX_STORAGE_VARIABLES - i") (simp_all add: diff_Suc)
    ultimately show ?thesis using global_immutable [OF one] Cons.IH [OF rest] by auto
  qed (use Cons.prems in \<open>auto intro: exI [of _ False]\<close>)
qed auto

section \<open>The functions\<close>

text \<open>Converting a function changes no name.\<close>

definition names_of_state :: "conv_state \<Rightarrow> string list" where
  "names_of_state s = map f_name (ft_functions (funcs s))"

definition names_frame :: "conv_state \<Rightarrow> conv_state \<Rightarrow> bool" where
  "names_frame s t \<longleftrightarrow> names_of_state t = names_of_state s"

interpretation nf: frame_rel names_frame
  by unfold_locales (simp_all add: names_frame_def)

lemma nf_funcs: "sf.keepsM m \<Longrightarrow> nf.keepsM m"
  by (auto simp: sf.keepsM_def nf.keepsM_def view_frame_def names_frame_def names_of_state_def)

lemma nf_update [keeps]:
  assumes "\<And>f. f_name (g f) = f_name f"
  shows "nf.keepsM (update_function i g)"
proof (rule nf.keepsI)
  fix s x t
  assume "update_function i g s = Inr (x, t)"
  then have t: "ft_functions (funcs t) = (ft_functions (funcs s))[i := g (ft_functions (funcs s) ! i)]"
    by (auto simp: update_function_def)
  have "map f_name (xs[i := g (xs ! i)]) = map f_name xs" for xs
    using assms by (cases "i < length xs") (simp_all add: map_update list_update_same_conv list_update_beyond)
  then show "names_frame s t" by (simp add: names_frame_def names_of_state_def t)
qed

lemma nf_visit_func: "nf.keepsM (visit_func C (visit_block C depth) i m)"
  unfolding visit_func_def by (intro nf.keeps_bind nf.keeps_get nf_update; (rule nf_funcs, intro keeps | simp))

text \<open>One function reports the types of its parameters under its name, and all of them in the order.\<close>

lemma convert_function_inputs:
  assumes "convert_function C (visit_block C depth) fs i s = Inr (x, t)"
  shows "\<exists>ts. i < length (names_of_state s) \<and> i < length fs \<and> input_types (decimals (penv C)) (fs ! i) = Inr ts \<and>
    names_of_state t = names_of_state s \<and>
    function_inputs t = AList.update (names_of_state s ! i) ts (function_inputs s)"
proof -
  obtain f where f: "function_at i s = Inr (f, s)" "i < length (names_of_state s)" "f_name f = names_of_state s ! i"
    using assms by (auto simp: convert_function_def bindM_Inr_iff function_at_def names_of_state_def split: if_splits)
  then have i: "i < length fs"
    using assms by (auto simp: convert_function_def bindM_Inr_iff split: if_splits)
  obtain ptext ts nms s1 where ins: "bindM (rep C (fs ! i) ''input_params'') (visit_input_parameters C) s = Inr ((ptext, ts, nms), s1)"
    and body: "seqM (update_function i (\<lambda>f. f\<lparr>f_inputs := ts\<rparr>))
     (bindM (bindM (rep C (fs ! i) ''output_params'') (visit_output_parameters C)) (\<lambda>outs.
      seqM (update_function i (\<lambda>f. f\<lparr>f_outputs := outs\<rparr>))
      (seqM (set_output outs)
      (seqM (note_inputs (f_name f) ts)
      (seqM (visit_func C (visit_block C depth) i (fs ! i)) (returnM nms)))))) s1 = Inr (x, t)"
    using assms f i
    by (auto simp: convert_function_def Let_def bindM_Inr_iff [of "function_at i"] bindM_Inr_iff [of "bindM a b" for a b])
  have head: "nf.keepsM (bindM (rep C (fs ! i) ''input_params'') (visit_input_parameters C))"
    "si.keepsM (bindM (rep C (fs ! i) ''input_params'') (visit_input_parameters C))"
    by (rule nf_funcs, intro keeps) (intro keeps)
  obtain outs s2 where outs: "seqM (update_function i (\<lambda>f. f\<lparr>f_inputs := ts\<rparr>))
     (bindM (bindM (rep C (fs ! i) ''output_params'') (visit_output_parameters C)) (\<lambda>outs.
      seqM (update_function i (\<lambda>f. f\<lparr>f_outputs := outs\<rparr>)) (seqM (set_output outs) (returnM outs)))) s1 = Inr (outs, s2)"
    and rest: "seqM (note_inputs (f_name f) ts)
      (seqM (visit_func C (visit_block C depth) i (fs ! i)) (returnM nms)) s2 = Inr (x, t)"
    using body by (auto simp: bindM_Inr_iff)
  have mid: "nf.keepsM (seqM (update_function i (\<lambda>f. f\<lparr>f_inputs := ts\<rparr>))
     (bindM (bindM (rep C (fs ! i) ''output_params'') (visit_output_parameters C)) (\<lambda>outs.
      seqM (update_function i (\<lambda>f. f\<lparr>f_outputs := outs\<rparr>)) (seqM (set_output outs) (returnM outs)))))"
    "si.keepsM (seqM (update_function i (\<lambda>f. f\<lparr>f_inputs := ts\<rparr>))
     (bindM (bindM (rep C (fs ! i) ''output_params'') (visit_output_parameters C)) (\<lambda>outs.
      seqM (update_function i (\<lambda>f. f\<lparr>f_outputs := outs\<rparr>)) (seqM (set_output outs) (returnM outs)))))"
    by (intro nf.keeps_bind nf.keeps_return nf_update; (rule nf_funcs, intro keeps | simp)) (intro keeps)
  obtain s3 where s3: "note_inputs (f_name f) ts s2 = Inr ((), s3)"
    and v: "visit_func C (visit_block C depth) i (fs ! i) s3 = Inr ((), t)"
    using rest by (auto simp: bindM_Inr_iff)
  have "names_of_state t = names_of_state s"
    using nf.keepsD [OF head(1) ins] nf.keepsD [OF mid(1) outs] nf.keepsD [OF nf_visit_func v] s3
    by (auto simp: names_frame_def note_inputs_def names_of_state_def)
  moreover have "function_inputs t = AList.update (f_name f) ts (function_inputs s)"
    using si.keepsD [OF head(2) ins] si.keepsD [OF mid(2) outs] si.keepsD [OF si_func v] s3
    by (auto simp: view_frame_def note_inputs_def)
  ultimately show ?thesis using f i input_types_run [OF ins] by auto
qed

lemma convert_functions_inputs:
  assumes "convert_functions C (visit_block C depth) fs is s = Inr (x, t)"
  shows "functions_inputs (decimals (penv C)) (names_of_state s) fs is (function_inputs s) = Inr (function_inputs t)"
  using assms
proof (induction "is" arbitrary: s x)
  case (Cons i "is")
  obtain y s1 z where one: "convert_function C (visit_block C depth) fs i s = Inr (y, s1)"
    and rest: "convert_functions C (visit_block C depth) fs is s1 = Inr (z, t)"
    using Cons.prems by (auto simp: bindM_Inr_iff)
  show ?case using convert_function_inputs [OF one] Cons.IH [OF rest] by auto
qed simp

section \<open>The contract\<close>

lemma init_part_inputs:
  assumes "visit_init_part C (visit_block C depth) contract s = Inr (x, t)" and "function_inputs s = []"
    and "get_rep (decimals (penv C)) contract ''decls'' = Inr decls"
    and "any_immutable (decimals (penv C)) (take MAX_STORAGE_VARIABLES decls) = Inr imm"
    and "immutable_exp s \<noteq> [] \<longleftrightarrow> imm"
  shows "init_inputs (decimals (penv C)) contract = Inr (function_inputs t)"
proof -
  let ?d = "decimals (penv C)"
  obtain init fl where init: "get_msg ?d contract ''init'' = Inr init" "get_bool ?d init ''flag'' = Inr fl"
    and run: "(if fl \<or> imm then bindM (visit_init C (visit_block C depth) init) (\<lambda>out. emit (out @ newline)) else returnM ()) s
      = Inr (x, t)"
    using assms(1,5) by (auto simp: visit_init_part_def bindM_Inr_iff sub_def flag_def liftR_Inr_iff)
  show ?thesis
  proof (cases "fl \<or> imm")
    case False
    then show ?thesis using run init assms(2-4) by (simp add: init_inputs_def)
  next
    case True
    then obtain out s1 where v: "visit_init C (visit_block C depth) init s = Inr (out, s1)"
      and e: "emit (out @ newline) s1 = Inr ((), t)" using run by (auto simp: bindM_Inr_iff)
    obtain s0 ptext ts nms s2 where m: "set_mut 0 s = Inr ((), s0)"
      and ins: "bindM (rep C init ''input_params'') (visit_input_parameters C) s0 = Inr ((ptext, ts, nms), s2)"
      and rest: "seqM (if ts \<noteq> [] then note_inputs ''__init__'' ts else returnM ())
        (bindM (function_body (bindM visit_init_immutables (\<lambda>imm.
           bindM (bindM (sub C init ''block'') (visit_block C depth)) (\<lambda>b. returnM (imm @ b))))) (\<lambda>block.
         bindM (num C init ''mut'') (\<lambda>mut.
           returnM (init_visibility (conv_class C) @ newline @
             (if mut \<noteq> 0 then ''@payable'' @ newline else '''') @
             ''def __init__('' @ ptext @ ''):'' @ newline @ block)))) s2 = Inr (out, s1)"
      using v unfolding visit_init_def
      by (auto simp: bindM_Inr_iff [of "set_mut 0"] bindM_Inr_iff [of "bindM (rep C init f) g" for f g])
    have "function_inputs s0 = []" using m assms(2) by (auto simp: set_mut_def)
    moreover have head: "si.keepsM (bindM (rep C init ''input_params'') (visit_input_parameters C))" by (intro keeps)
    ultimately have s2: "function_inputs s2 = []" using si.keepsD [OF head ins] by (simp add: view_frame_def)
    obtain s3 where n: "(if ts \<noteq> [] then note_inputs ''__init__'' ts else returnM ()) s2 = Inr ((), s3)"
      and tail: "bindM (function_body (bindM visit_init_immutables (\<lambda>imm.
           bindM (bindM (sub C init ''block'') (visit_block C depth)) (\<lambda>b. returnM (imm @ b))))) (\<lambda>block.
         bindM (num C init ''mut'') (\<lambda>mut.
           returnM (init_visibility (conv_class C) @ newline @
             (if mut \<noteq> 0 then ''@payable'' @ newline else '''') @
             ''def __init__('' @ ptext @ ''):'' @ newline @ block))) s3 = Inr (out, s1)"
      using rest by (rule bindM_InrE) auto
    have body: "si.keepsM (bindM (function_body (bindM visit_init_immutables (\<lambda>imm.
           bindM (bindM (sub C init ''block'') (visit_block C depth)) (\<lambda>b. returnM (imm @ b))))) (\<lambda>block.
         bindM (num C init ''mut'') (\<lambda>mut.
           returnM (init_visibility (conv_class C) @ newline @
             (if mut \<noteq> 0 then ''@payable'' @ newline else '''') @
             ''def __init__('' @ ptext @ ''):'' @ newline @ block))))" by (intro keeps)
    have "function_inputs s1 = function_inputs s3" using si.keepsD [OF body tail] by (simp add: view_frame_def)
    moreover have "function_inputs s3 = (if ts \<noteq> [] then [(''__init__'', ts)] else [])"
      using n s2 by (auto simp: note_inputs_def split: if_splits)
    ultimately show ?thesis
      using True init assms(3,4) input_types_run [OF ins] e by (auto simp: init_inputs_def emit_def)
  qed
qed

lemma sf_init_part: "sf.keepsM (visit_init_part C (visit_block C depth) contract)"
proof -
  have "sf.keepsM (note_inputs f ts)" for f ts
    by (rule sf.keepsI) (auto simp: note_inputs_def view_frame_def)
  then have "sf.keepsM (visit_init C (visit_block C depth) m)" for m
    unfolding visit_init_def by (intro keeps)
  then show ?thesis unfolding visit_init_part_def by (intro keeps)
qed

lemma functions_part_inputs:
  assumes "visit_functions_part C (visit_block C depth) contract s = Inr (x, t)"
    and "funcs s = new_func_tracker MAX_FUNCTIONS"
  shows "bindR (get_rep (decimals (penv C)) contract ''functions'') (\<lambda>fs.
     bindR (register_functions (decimals (penv C)) fs (new_func_tracker MAX_FUNCTIONS)) (\<lambda>ft.
     bindR (setup_order MAX_FUNCTIONS (decimals (penv C)) ft fs) (\<lambda>(order, _).
       functions_inputs (decimals (penv C)) (map f_name (ft_functions ft)) fs order (function_inputs s)))) =
     Inr (function_inputs t)"
proof -
  let ?d = "decimals (penv C)"
  obtain fs sa u sb order sc names s1 gs s2 where a: "rep C contract ''functions'' s = Inr (fs, sa)"
    and b: "register_contract_functions C fs sa = Inr (u, sb)" and c: "order_functions C fs sb = Inr (order, sc)"
    and conv: "convert_functions C (visit_block C depth) fs order sc = Inr (names, s1)"
    and g: "getM (\<lambda>s. ft_functions (funcs s)) s1 = Inr (gs, s2)"
    and tail: "render_functions order names gs s2 = Inr (x, t)"
    using assms(1) unfolding visit_functions_part_def by (elim bindM_InrE) (rule that)
  have fs: "get_rep ?d contract ''functions'' = Inr fs" and sa: "sa = s"
    using a by (simp_all add: rep_def liftR_Inr_iff)
  obtain ft where ft: "register_functions ?d fs (funcs s) = Inr ft" and sb: "sb = s\<lparr>funcs := ft\<rparr>"
    using b sa by (auto simp: register_contract_functions_def bindR_Inr_iff)
  obtain tree where order: "setup_order MAX_FUNCTIONS ?d ft fs = Inr (order, tree)"
    and sc: "sc = s\<lparr>funcs := ft, call_map := tree\<rparr>"
    using c sb by (auto simp: order_functions_def bindR_Inr_iff)
  have "function_inputs t = function_inputs s1"
    using si.keepsD [OF si.keeps_render tail] g by (simp add: view_frame_def)
  with convert_functions_inputs [OF conv] show ?thesis
    using fs ft order assms(2) sc by (simp add: names_of_state_def)
qed

lemma contract_inputs_run:
  assumes "convert_contract C depth r contract = Inr (source, fis)"
  shows "contract_inputs (decimals (penv C)) contract = Inr fis"
proof -
  let ?d = "decimals (penv C)" and ?s = "init_state r"
  obtain x t where run: "visit C depth contract ?s = Inr (x, t)" and t: "function_inputs t = fis"
    using assms by (auto simp: convert_contract_def bindR_Inr_iff)
  obtain decls s0 u s1 q w y s2 z s3 v s4 where r: "rep C contract ''decls'' ?s = Inr (decls, s0)"
    and d0: "visit_decls C (visit_expr C depth) 0 decls s0 = Inr (u, s1)"
    and g: "getM c_result s1 = Inr (q, w)"
    and e0: "(if q \<noteq> '''' then emit newline else returnM ()) w = Inr (y, s2)"
    and i: "visit_init_part C (visit_block C depth) contract s2 = Inr (z, s3)"
    and f: "visit_functions_part C (visit_block C depth) contract s3 = Inr (v, s4)"
    and df: "visit_default_part C (visit_block C depth) contract s4 = Inr (x, t)"
    using run unfolding visit_def by (elim bindM_InrE) (rule that)
  have decls: "get_rep ?d contract ''decls'' = Inr decls"
    and d: "visit_decls C (visit_expr C depth) 0 decls ?s = Inr (u, s1)"
    using r d0 by (simp_all add: rep_def liftR_Inr_iff)
  have e: "(if q \<noteq> '''' then emit newline else returnM ()) s1 = Inr (y, s2)" using g e0 by simp
  have e2: "function_inputs s2 = function_inputs s1" "funcs s2 = funcs s1" "immutable_exp s2 = immutable_exp s1"
    using e by (auto simp: emit_def split: if_splits)
  have "function_inputs s2 = []" "funcs s2 = new_func_tracker MAX_FUNCTIONS"
    using si.keepsD [OF si.keeps_decls d] sf.keepsD [OF sf.keeps_decls d] e2
    by (simp_all add: view_frame_def init_state_def)
  moreover obtain imm where "any_immutable ?d (take MAX_STORAGE_VARIABLES decls) = Inr imm"
    "immutable_exp s2 \<noteq> [] \<longleftrightarrow> imm"
    using decls_immutable [OF d] e2 by (auto simp: init_state_def)
  ultimately have "init_inputs ?d contract = Inr (function_inputs s3)"
    using init_part_inputs [OF i _ decls] by blast
  moreover have "funcs s3 = new_func_tracker MAX_FUNCTIONS"
    using sf.keepsD [OF sf_init_part i] \<open>funcs s2 = new_func_tracker MAX_FUNCTIONS\<close> by (simp add: view_frame_def)
  moreover have "function_inputs t = function_inputs s4"
    using si.keepsD [OF si.keeps_default_part df] by (simp add: view_frame_def)
  ultimately show ?thesis using functions_part_inputs [OF f] t by (simp add: contract_inputs_def)
qed

text \<open>No function is called \<open>_type\<close>, so the dictionary of inputs is never taken for a tagged value.\<close>

lemma functions_inputs_names:
  "functions_inputs d names fs is fis = Inr out \<Longrightarrow> fst ` set out \<subseteq> fst ` set fis \<union> set names"
proof (induction "is" arbitrary: fis)
  case (Cons i "is")
  then obtain ts where i: "i < length names"
    and "functions_inputs d names fs is (AList.update (names ! i) ts fis) = Inr out"
    by (auto simp: bindR_Inr_iff split: if_splits)
  from Cons.IH [OF this(2)] i show ?case by (auto simp: dom_update)
qed simp

lemma contract_inputs_names:
  assumes "contract_inputs d contract = Inr fis" and "name \<in> fst ` set fis"
  shows "name = ''__init__'' \<or> (\<exists>i < MAX_FUNCTIONS. name = ''func_'' @ py_str (int i))"
proof -
  obtain init fs ft order where init: "init_inputs d contract = Inr init"
    and ft: "register_functions d fs (new_func_tracker MAX_FUNCTIONS) = Inr ft"
    and out: "functions_inputs d (map f_name (ft_functions ft)) fs order init = Inr fis"
    using assms(1) by (auto simp: contract_inputs_def bindR_Inr_iff)
  have "fst ` set init \<subseteq> {''__init__''}"
    using init by (auto simp: init_inputs_def bindR_Inr_iff split: if_splits)
  moreover have "set (map f_name (ft_functions ft)) \<subseteq> (\<lambda>i. ''func_'' @ py_str (int i)) ` {..<MAX_FUNCTIONS}"
  proof -
    have "map f_name (ft_functions ft) = map (\<lambda>i. ''func_'' @ py_str (int i)) [0..<length (ft_functions ft)]"
      using register_functions_wf [OF ft_wf_new ft] by (simp add: ft_wf_def)
    moreover have "length (ft_functions ft) \<le> MAX_FUNCTIONS"
      using register_functions_length [OF ft] by (simp add: new_func_tracker_def)
    ultimately show ?thesis by (auto simp: image_iff)
  qed
  ultimately show ?thesis using functions_inputs_names [OF out] assms(2) by blast
qed

lemma functions_inputs_distinct:
  "functions_inputs d names fs is fis = Inr out \<Longrightarrow> distinct (map fst fis) \<Longrightarrow> distinct (map fst out)"
proof (induction "is" arbitrary: fis)
  case (Cons i "is")
  then obtain ts where "functions_inputs d names fs is (AList.update (names ! i) ts fis) = Inr out"
    by (auto simp: bindR_Inr_iff split: if_splits)
  from Cons.IH [OF this distinct_update [OF Cons.prems(2)]] show ?case .
qed simp

lemma contract_inputs_distinct:
  assumes "contract_inputs d contract = Inr fis"
  shows "distinct (map fst fis)"
proof -
  obtain init names fs order where "init_inputs d contract = Inr init"
    and out: "functions_inputs d names fs order init = Inr fis"
    using assms by (auto simp: contract_inputs_def bindR_Inr_iff)
  then have "distinct (map fst init)" by (auto simp: init_inputs_def bindR_Inr_iff split: if_splits)
  with out show ?thesis by (rule functions_inputs_distinct)
qed

lemma contract_inputs_untagged:
  assumes "contract_inputs d contract = Inr fis"
  shows "''_type'' \<notin> fst ` set fis"
  using contract_inputs_names [OF assms, of "''_type''"] by auto

end
