(* ===== verification/Generator.thy ===== *)
theory Generator imports Conv_Signature begin

text \<open>
  The generators (\<^verbatim>\<open>generators/run_api.py\<close>, \<^verbatim>\<open>run_adder.py\<close>,
  \<^verbatim>\<open>run_nagini.py\<close>, \<^verbatim>\<open>run_diff.py\<close>): the conversion of a
  message, its compilation, the drawn inputs, and what is logged, published and inserted, in the order
  in which it happens.
\<close>

section \<open>Effects\<close>

text \<open>
  A method has effects on the collections and queues, then returns or raises. What it did before it
  raised stays.
\<close>

record failure =
  fl_error :: py_error
  fl_json_msg :: string

record log_entry =
  le_json_msg :: string
  le_results :: "(string \<times> string) list"
  compilation_result :: "string option"
  error_info :: "(string \<times> string) option"
  le_inputs :: json
  le_version :: string

datatype effect =
    LogFailure failure
  | LogCompilation string log_entry
  | Publish active_queue message
  | InsertEntry string

type_synonym 'a eff = "effect list \<times> 'a res"

definition returnE :: "'a \<Rightarrow> 'a eff" where
  "returnE x = ([], Inr x)"

definition bindE :: "'a eff \<Rightarrow> ('a \<Rightarrow> 'b eff) \<Rightarrow> 'b eff" where
  "bindE m k =
     (case snd m of Inl e \<Rightarrow> (fst m, Inl e) | Inr x \<Rightarrow> (fst m @ fst (k x), snd (k x)))"

definition liftE :: "'a res \<Rightarrow> 'a eff" where
  "liftE r = ([], r)"

definition tell :: "effect list \<Rightarrow> unit eff" where
  "tell es = (es, Inr ())"

lemma bindE_simps [simp]:
  "bindE (returnE x) k = k x"
  "bindE (es, Inl e) k = (es, Inl e)"
  "bindE (es, Inr x) k = (es @ fst (k x), snd (k x))"
  by (simp_all add: bindE_def returnE_def)

lemma bindE_Inr_iff:
  "bindE m k = (es, Inr y) \<longleftrightarrow> (\<exists>es1 x es2. m = (es1, Inr x) \<and> k x = (es2, Inr y) \<and> es = es1 @ es2)"
  by (cases m; cases "snd m"; cases "k (projr (snd m))") (auto simp: bindE_def)

section \<open>Generators\<close>

text \<open>
  What a generator is built from. The compiler returns its output or the name and the text of an
  error, \<^verbatim>\<open>MessageToJson\<close> is the protocol library's; \<open>queues\<close> are the
  active queues of the configuration.
\<close>

record generator =
  gn_env :: pyenv
  stack_depth :: nat
  compile_code :: "string \<Rightarrow> (string \<times> string) + string"
  gn_text :: decimal_text
  message_to_json :: "msg \<Rightarrow> string"
  gn_strategies :: "strategy list"
  gn_queues :: "(string \<times> active_queue) list"

text \<open>
  \<^verbatim>\<open>helpers/proto_loader.py\<close>: whether the messages have decimals, by the version of the
  compiler and the flags; no other version is known.
\<close>

definition proto_decimals :: "string \<Rightarrow> string list \<Rightarrow> bool option" where
  "proto_decimals version flags =
     (if version = ''0.3.10'' then Some True
      else if version = ''0.4.0'' \<and> ''enable_decimals'' \<in> set flags then Some True
      else if version = ''0.4.0'' then Some False
      else None)"

definition VERSION :: string where "VERSION = ''0.1.3''"

text \<open>\<^verbatim>\<open>generate_source\<close>: a failure is logged and raised again.\<close>

definition generate_source ::
  "generator \<Rightarrow> converter_class \<Rightarrow> draws \<Rightarrow> msg \<Rightarrow> (string \<times> (string \<times> vy_type list) list) eff" where
  "generate_source G cls r m =
     (case convert_contract \<lparr>penv = gn_env G, conv_class = cls\<rparr> (stack_depth G) r m of
        Inl e \<Rightarrow> ([LogFailure \<lparr>fl_error = e, fl_json_msg = message_to_json G m\<rparr>], Inl e)
      | Inr x \<Rightarrow> returnE x)"

text \<open>\<^verbatim>\<open>compile_source\<close> of the concrete generators: the output and the error.\<close>

definition compile_source :: "generator \<Rightarrow> string \<Rightarrow> string option \<times> (string \<times> string) option" where
  "compile_source G source =
     (case compile_code G source of Inl e \<Rightarrow> (None, Some e) | Inr out \<Rightarrow> (Some out, None))"

definition generate_inputs_json :: "generator \<Rightarrow> (string \<times> vy_type list) list \<Rightarrow> draws \<Rightarrow> json res" where
  "generate_inputs_json G fis r =
     bindR (function_input_values (gn_env G) (gn_strategies G) fis [] r) (\<lambda>(ins, _).
       Inr (encoded_inputs (gn_text G) ins))"

text \<open>\<^verbatim>\<open>MultiQueueManager.publish\<close>: the message goes to every queue.\<close>

definition publish_multi :: "generator \<Rightarrow> message \<Rightarrow> effect list" where
  "publish_multi G m = map (\<lambda>q. Publish (snd q) m) (gn_queues G)"

text \<open>
  What both generators do with the sources: compile the first, draw the inputs, log, publish and
  create the entry. \<open>i\<close> is the id the log gives the document.
\<close>

definition log_and_publish ::
  "generator \<Rightarrow> string \<Rightarrow> (string \<times> string) list \<Rightarrow> string \<Rightarrow> (string \<times> vy_type list) list \<Rightarrow> draws \<Rightarrow> msg \<Rightarrow> unit eff"
where
  "log_and_publish G i results source fis r m =
     (let (out, err) = compile_source G source in
      bindE (liftE (generate_inputs_json G fis r)) (\<lambda>js.
      bindE (tell [LogCompilation i
        \<lparr>le_json_msg = message_to_json G m, le_results = results, compilation_result = out,
         error_info = err, le_inputs = js, le_version = VERSION\<rparr>]) (\<lambda>_.
      bindE (tell (publish_multi G
        \<lparr>m_id = i, m_results = results, m_inputs = js, m_json_msg = message_to_json G m,
         m_version = VERSION\<rparr>)) (\<lambda>_.
      tell [InsertEntry i]))))"

text \<open>\<^verbatim>\<open>GeneratorBase.TestOneProtoInput\<close>.\<close>

definition test_one_input ::
  "generator \<Rightarrow> converter_class \<Rightarrow> string \<Rightarrow> draws \<Rightarrow> draws \<Rightarrow> msg \<Rightarrow> unit eff" where
  "test_one_input G cls i r r' m =
     bindE (generate_source G cls r m) (\<lambda>(source, fis).
       log_and_publish G i [(''generation_result'', source)] source fis r' m)"

text \<open>
  \<^verbatim>\<open>GeneratorDiff.TestOneProtoInput\<close>: both converters convert the message; the source of
  the first is compiled and its inputs are drawn.
\<close>

definition test_one_diff ::
  "generator \<Rightarrow> converter_class \<Rightarrow> converter_class \<Rightarrow> string \<Rightarrow> draws \<Rightarrow> draws \<Rightarrow> draws \<Rightarrow> msg \<Rightarrow> unit eff" where
  "test_one_diff G conv conv_diff i r r_diff r' m =
     bindE (generate_source G conv r m) (\<lambda>(source, fis).
     bindE (generate_source G conv_diff r_diff m) (\<lambda>(source_diff, _).
       log_and_publish G i
         [(''generation_result_nagini'', source), (''generation_result_adder'', source_diff)] source fis r' m))"

text \<open>
  The generators that \<^verbatim>\<open>run_adder.py\<close>, \<^verbatim>\<open>run_nagini.py\<close> and
  \<^verbatim>\<open>run_diff.py\<close> start.
\<close>

definition run_adder :: "generator \<Rightarrow> string \<Rightarrow> draws \<Rightarrow> draws \<Rightarrow> msg \<Rightarrow> unit eff" where
  "run_adder G = test_one_input G TypedConverter"

definition run_nagini :: "generator \<Rightarrow> string \<Rightarrow> draws \<Rightarrow> draws \<Rightarrow> msg \<Rightarrow> unit eff" where
  "run_nagini G = test_one_input G NaginiConverter"

definition run_diff :: "generator \<Rightarrow> string \<Rightarrow> draws \<Rightarrow> draws \<Rightarrow> draws \<Rightarrow> msg \<Rightarrow> unit eff" where
  "run_diff G = test_one_diff G NaginiConverter TypedConverter"

section \<open>What is published\<close>

lemma generate_source_Inr:
  "generate_source G cls r m = (es, Inr (source, fis)) \<longleftrightarrow>
     es = [] \<and> convert_contract \<lparr>penv = gn_env G, conv_class = cls\<rparr> (stack_depth G) r m = Inr (source, fis)"
  by (auto simp: generate_source_def returnE_def split: sum.splits)

lemma log_and_publish_effects:
  assumes "log_and_publish G i results source fis r m = (es, Inr ())"
  shows "\<exists>ins r' entry. function_input_values (gn_env G) (gn_strategies G) fis [] r = Inr (ins, r') \<and>
    le_results entry = results \<and> le_inputs entry = encoded_inputs (gn_text G) ins \<and>
    es = LogCompilation i entry # publish_multi G \<lparr>m_id = i, m_results = results,
      m_inputs = encoded_inputs (gn_text G) ins, m_json_msg = message_to_json G m, m_version = VERSION\<rparr> @ [InsertEntry i]"
proof -
  obtain ins r' where ins: "function_input_values (gn_env G) (gn_strategies G) fis [] r = Inr (ins, r')"
    using assms
    by (cases "function_input_values (gn_env G) (gn_strategies G) fis [] r")
      (auto simp: log_and_publish_def Let_def split_beta liftE_def generate_inputs_json_def)
  have js: "generate_inputs_json G fis r = Inr (encoded_inputs (gn_text G) ins)"
    by (simp add: generate_inputs_json_def ins)
  show ?thesis
    using assms by (auto simp: log_and_publish_def Let_def split_beta liftE_def js tell_def ins)
qed

lemma success_publishes:
  assumes "log_and_publish G i results source fis r m = (es, Inr ())" and "q \<in> snd ` set (gn_queues G)"
  shows "\<exists>msg. Publish q msg \<in> set es"
proof -
  obtain entry msg where "es = LogCompilation i entry # publish_multi G msg @ [InsertEntry i]"
    using log_and_publish_effects [OF assms(1)] by blast
  moreover have "Publish q msg \<in> set (publish_multi G msg)" using assms(2) by (auto simp: publish_multi_def)
  ultimately show ?thesis by (intro exI [of _ msg]) simp
qed

text \<open>A successful input, taken apart.\<close>

lemma test_one_inputE:
  assumes "test_one_input G cls i r r' m = (es, Inr ())"
  obtains source fis
  where "convert_contract \<lparr>penv = gn_env G, conv_class = cls\<rparr> (stack_depth G) r m = Inr (source, fis)"
    and "log_and_publish G i [(''generation_result'', source)] source fis r' m = (es, Inr ())"
  using assms by (auto simp: test_one_input_def bindE_Inr_iff generate_source_Inr)

lemma run_diffE:
  assumes "run_diff G i r r_diff r' m = (es, Inr ())"
  obtains source fis source_diff
  where "convert_contract \<lparr>penv = gn_env G, conv_class = NaginiConverter\<rparr> (stack_depth G) r m = Inr (source, fis)"
    and "convert_contract \<lparr>penv = gn_env G, conv_class = TypedConverter\<rparr> (stack_depth G) r_diff m = Inr (source_diff, fis)"
    and "log_and_publish G i [(''generation_result_nagini'', source), (''generation_result_adder'', source_diff)]
      source fis r' m = (es, Inr ())"
proof -
  let ?C = "\<lparr>penv = gn_env G, conv_class = NaginiConverter\<rparr>" and ?C' = "\<lparr>penv = gn_env G, conv_class = TypedConverter\<rparr>"
  obtain source fis source_diff fis' where conv: "convert_contract ?C (stack_depth G) r m = Inr (source, fis)"
    and conv': "convert_contract ?C' (stack_depth G) r_diff m = Inr (source_diff, fis')"
    and run: "log_and_publish G i [(''generation_result_nagini'', source), (''generation_result_adder'', source_diff)]
      source fis r' m = (es, Inr ())"
    using assms by (auto simp: run_diff_def test_one_diff_def bindE_Inr_iff generate_source_Inr)
  have "fis' = fis" using contract_inputs_run [OF conv] contract_inputs_run [OF conv'] by simp
  with that conv conv' run show thesis by blast
qed

text \<open>Every function gets one list of arguments per strategy, in their order, generated for its types.\<close>

definition drawn_by :: "pyenv \<Rightarrow> vy_type list \<Rightarrow> strategy \<Rightarrow> gen_val list \<Rightarrow> bool" where
  "drawn_by E types st args \<longleftrightarrow> (\<exists>r1 r2. generate_inputs st E types r1 = Inr (args, r2))"

lemma strategy_inputs_drawn:
  assumes "strategy_inputs E name types sts ins r = Inr (out, r')"
  shows "(\<exists>new. list_all2 (drawn_by E types) sts new \<and> dget out name [] = dget ins name [] @ new) \<and>
    (\<forall>n. n \<noteq> name \<longrightarrow> map_of out n = map_of ins n)"
  using assms
proof (induction sts arbitrary: ins r)
  case (Cons st sts)
  then obtain args r1 where g: "generate_inputs st E types r = Inr (args, r1)"
    and rest: "strategy_inputs E name types sts (AList.update name (dget ins name [] @ [args]) ins) r1 = Inr (out, r')"
    by (auto simp: bindR_Inr_iff)
  from Cons.IH [OF rest] obtain new where new: "list_all2 (drawn_by E types) sts new"
    "dget out name [] = (dget ins name [] @ [args]) @ new" by (auto simp: dget_update)
  have "\<forall>n. n \<noteq> name \<longrightarrow> map_of out n = map_of ins n"
    using Cons.IH [OF rest] by (simp add: update_conv')
  moreover have "list_all2 (drawn_by E types) (st # sts) (args # new)"
    using g new(1) by (auto simp: drawn_by_def)
  ultimately show ?case using new(2) by (intro conjI exI [of _ "args # new"]) simp_all
qed simp

lemma function_input_values_drawn:
  assumes "function_input_values E sts fs ins r = Inr (out, r')" and "distinct (map fst fs)"
    and "\<forall>f \<in> set fs. dget ins (fst f) [] = []"
  shows "(\<forall>(name, types) \<in> set fs. list_all2 (drawn_by E types) sts (dget out name [])) \<and>
    (\<forall>n. n \<notin> fst ` set fs \<longrightarrow> map_of out n = map_of ins n)"
  using assms
proof (induction fs arbitrary: ins r)
  case (Cons f fs)
  obtain name types where f: "f = (name, types)" by (cases f)
  then obtain ins1 r1 where one: "strategy_inputs E name types sts ins r = Inr (ins1, r1)"
    and rest: "function_input_values E sts fs ins1 r1 = Inr (out, r')"
    using Cons.prems(1) by (auto simp: bindR_Inr_iff)
  note s = strategy_inputs_drawn [OF one]
  have "dget ins1 (fst g) [] = []" if g: "g \<in> set fs" for g
  proof -
    have "fst g \<noteq> name" using Cons.prems(2) f g by auto
    then have "map_of ins1 (fst g) = map_of ins (fst g)" using s by blast
    then show ?thesis using Cons.prems(3) g by (simp add: dget_def)
  qed
  then have IH: "(\<forall>(name, types) \<in> set fs. list_all2 (drawn_by E types) sts (dget out name [])) \<and>
      (\<forall>n. n \<notin> fst ` set fs \<longrightarrow> map_of out n = map_of ins1 n)"
    using Cons.IH [OF rest] Cons.prems(2) by simp
  have "name \<notin> fst ` set fs" using Cons.prems(2) f by auto
  then have "dget out name [] = dget ins1 name []" using IH by (simp add: dget_def)
  moreover have "dget ins name [] = []" using Cons.prems(3) f by simp
  ultimately have "list_all2 (drawn_by E types) sts (dget out name [])" using s by auto
  then show ?case using IH s f by auto
qed simp

text \<open>Arguments that were drawn for what the converter reported fit it, and are what a runner decodes.\<close>

lemma drawn_fit:
  assumes "convert_contract C depth r m = Inr (source, fis)"
    and "mtype m = ''Contract''" and "conforms (decimals (penv C)) m"
    and "function_input_values (penv C) sts fis [] r' = Inr (ins, r'')"
  shows "contract_inputs (decimals (penv C)) m = Inr fis" "fit (penv C) fis ins"
    and "exact_text T \<Longrightarrow> decode T (encoded_inputs T ins) = Inr (inputs_obj ins)"
proof -
  show fis: "contract_inputs (decimals (penv C)) m = Inr fis" by (rule contract_inputs_run [OF assms(1)])
  show "fit (penv C) fis ins"
    by (rule function_input_values_fit [OF assms(4)])
      (use convert_contract_inputs [OF assms(1-3)] in \<open>simp_all add: fit_def\<close>)
  show "decode T (encoded_inputs T ins) = Inr (inputs_obj ins)" if "exact_text T"
    unfolding encoded_inputs_def
  proof (rule decode_encode [OF that untagged_inputs])
    show "''_type'' \<notin> fst ` set ins"
      using function_input_values_keys [OF assms(4)] contract_inputs_untagged [OF fis] by auto
  qed
qed

text \<open>What is published with sources of which one is a conversion of the message.\<close>

lemma published_fit:
  assumes "log_and_publish G i results source fis r' contract = (es, Inr ())"
    and "convert_contract \<lparr>penv = gn_env G, conv_class = cls\<rparr> (stack_depth G) r contract = Inr (source', fis)"
    and "mtype contract = ''Contract''" and "conforms (decimals (gn_env G)) contract"
    and "exact_text (gn_text G)"
  shows "\<exists>ins r'' entry m.
    function_input_values (gn_env G) (gn_strategies G) fis [] r' = Inr (ins, r'') \<and>
    es = LogCompilation i entry # map (\<lambda>q. Publish (snd q) m) (gn_queues G) @ [InsertEntry i] \<and>
    m = \<lparr>m_id = i, m_results = results, m_inputs = encoded_inputs (gn_text G) ins,
      m_json_msg = message_to_json G contract, m_version = VERSION\<rparr> \<and>
    entry = \<lparr>le_json_msg = message_to_json G contract, le_results = results,
      compilation_result = fst (compile_source G source), error_info = snd (compile_source G source),
      le_inputs = m_inputs m, le_version = VERSION\<rparr> \<and>
    decode (gn_text G) (m_inputs m) = Inr (inputs_obj ins) \<and> fst ` set ins \<subseteq> fst ` set fis \<and>
    (\<forall>(name, types) \<in> set fis. list_all2 (drawn_by (gn_env G) types) (gn_strategies G) (dget ins name []) \<and>
      (\<forall>args \<in> set (dget ins name []). list_all2 (inhabits (gn_env G)) types args))"
proof -
  obtain ins r'' where
    ins: "function_input_values (gn_env G) (gn_strategies G) fis [] r' = Inr (ins, r'')"
    using log_and_publish_effects [OF assms(1)] by blast
  let ?m = "\<lparr>m_id = i, m_results = results, m_inputs = encoded_inputs (gn_text G) ins,
    m_json_msg = message_to_json G contract, m_version = VERSION\<rparr>"
  let ?entry = "\<lparr>le_json_msg = message_to_json G contract, le_results = results,
      compilation_result = fst (compile_source G source), error_info = snd (compile_source G source),
      le_inputs = m_inputs ?m, le_version = VERSION\<rparr>"
  have js: "generate_inputs_json G fis r' = Inr (encoded_inputs (gn_text G) ins)"
    by (simp add: generate_inputs_json_def ins)
  have es: "es = LogCompilation i ?entry # map (\<lambda>q. Publish (snd q) ?m) (gn_queues G) @ [InsertEntry i]"
    using assms(1) by (simp add: log_and_publish_def Let_def split_beta liftE_def js tell_def publish_multi_def)
  note drawn = drawn_fit [OF assms(2,3), unfolded cenv.simps, OF assms(4) ins]
  have dist: "distinct (map fst fis)" using contract_inputs_distinct [OF drawn(1)] .
  have fits: "list_all2 (inhabits (gn_env G)) types args"
    if f: "(name, types) \<in> set fis" and x: "args \<in> set (dget ins name [])" for name types args
  proof -
    obtain xss where "(name, xss) \<in> set ins" "args \<in> set xss"
      using x map_of_SomeD by (cases "map_of ins name") (fastforce simp: dget_def)+
    then obtain ts where "(name, ts) \<in> set fis" "list_all2 (inhabits (gn_env G)) ts args"
      using drawn(2) by (fastforce simp: fit_def)
    moreover from this have "ts = types" using f dist by (metis eq_key_imp_eq_value)
    ultimately show ?thesis by simp
  qed
  have "\<forall>(name, types) \<in> set fis. list_all2 (drawn_by (gn_env G) types) (gn_strategies G) (dget ins name [])"
    using function_input_values_drawn [OF ins dist] by (simp add: dget_def)
  then have each: "\<forall>(name, types) \<in> set fis. list_all2 (drawn_by (gn_env G) types) (gn_strategies G) (dget ins name []) \<and>
      (\<forall>args \<in> set (dget ins name []). list_all2 (inhabits (gn_env G)) types args)"
    using fits by blast
  have keys: "fst ` set ins \<subseteq> fst ` set fis" using function_input_values_keys [OF ins] by simp
  have dec: "decode (gn_text G) (m_inputs ?m) = Inr (inputs_obj ins)" using drawn(3) [OF assms(5)] by simp
  show ?thesis
    by (intro exI [of _ ins] exI [of _ r''] exI [of _ ?entry] exI [of _ ?m] conjI ins es refl dec keys each)
qed

section \<open>Nothing is published of a failed conversion\<close>

definition publishes :: "effect list \<Rightarrow> bool" where
  "publishes es \<longleftrightarrow> (\<exists>q m. Publish q m \<in> set es)"

lemma publishes_simps [simp]:
  "\<not> publishes []" "publishes (xs @ ys) \<longleftrightarrow> publishes xs \<or> publishes ys"
  "publishes (e # es) \<longleftrightarrow> (\<exists>q m. e = Publish q m) \<or> publishes es"
  by (auto simp: publishes_def)

lemma log_and_publish_raise:
  "log_and_publish G i results source fis r m = (es, Inl e) \<Longrightarrow> es = []"
  by (cases "generate_inputs_json G fis r")
    (auto simp: log_and_publish_def Let_def split_beta liftE_def tell_def)

section \<open>The effects on the shared state\<close>

text \<open>
  Executing the effects of one input is publishing its generation and then inserting its entry, the two
  steps a generator makes among the runners and the verifier.
\<close>

fun perform :: "nat \<Rightarrow> effect \<Rightarrow> world \<Rightarrow> world" where
  "perform n (LogFailure f) w = w"
| "perform n (LogCompilation i e) w = w\<lparr>pending := Some n, next_gen := n + 1\<rparr>"
| "perform n (Publish q m) w = w\<lparr>queued := queued w @ [(q, m_id m)]\<rparr>"
| "perform n (InsertEntry i) w = insert_entry n w"

lemma perform_publish:
  "fold (perform n) (map (\<lambda>q. Publish (snd q) m) qs) w = w\<lparr>queued := queued w @ map (\<lambda>q. (snd q, m_id m)) qs\<rparr>"
  by (induction qs arbitrary: w) simp_all

lemma perform_prefix:
  assumes "published T = map snd (gn_queues G)" and "m_id m = gen_id (next_gen w)" and "k \<le> length (published T)"
  shows "fold (perform (next_gen w)) (take (Suc k) (LogCompilation i entry # publish_multi G m @ [InsertEntry i])) w =
    w\<lparr>queued := queued w @ map (\<lambda>q. (q, gen_id (next_gen w))) (take k (published T)),
      pending := Some (next_gen w), next_gen := next_gen w + 1\<rparr>"
proof -
  have "take k (publish_multi G m @ [InsertEntry i]) = map (\<lambda>q. Publish (snd q) m) (take k (gn_queues G))"
    using assms(1,3) by (simp add: publish_multi_def take_map)
  then show ?thesis using assms(1,2) by (simp add: perform_publish take_map comp_def)
qed

lemma perform_generation:
  assumes "published T = map snd (gn_queues G)" and "m_id m = gen_id (next_gen w)"
  shows "fold (perform (next_gen w)) (LogCompilation i entry # publish_multi G m @ [InsertEntry i]) w =
    insert_entry (next_gen w) (publish_all T w)"
  using assms by (simp add: publish_multi_def perform_publish publish_all_def insert_entry_def comp_def)

end
