(* ===== verification/Redelivery.thy ===== *)
theory Redelivery imports Pipeline begin

text \<open>
  Services that stop in the middle of their work. A runner acknowledges a message after both updates
  (\<^verbatim>\<open>RunnerBase.callback\<close>), so a message it did not finish stays in the queue and
  is delivered again; a generator that stops before it created the entry leaves messages without one
  (\<^verbatim>\<open>GeneratorBase.TestOneProtoInput\<close>); a verifier that stops after it inserted its
  reports has not marked their entries (\<^verbatim>\<open>VerifierBase.start_verifier\<close>).
\<close>

section \<open>The writes of each service, one by one\<close>

definition note_compiled :: "string \<Rightarrow> string \<Rightarrow> world \<Rightarrow> world" where
  "note_compiled c gid w = w\<lparr>compiled := compiled w @ [(gid, ''compiled_'' @ c)]\<rparr>"

definition save_result :: "string \<Rightarrow> string \<Rightarrow> deployment list \<Rightarrow> world \<Rightarrow> world" where
  "save_result c gid result w = w\<lparr>run_docs := update_one gid (set_result c result) (run_docs w)\<rparr>"

definition acknowledge :: "active_queue \<Rightarrow> string \<Rightarrow> world \<Rightarrow> world" where
  "acknowledge q gid w = w\<lparr>queued := remove1 (q, gid) (queued w)\<rparr>"

definition callback_writes :: "active_queue \<Rightarrow> string \<Rightarrow> string \<Rightarrow> deployment list \<Rightarrow> (world \<Rightarrow> world) list" where
  "callback_writes q c gid result = [note_compiled c gid, save_result c gid result, acknowledge q gid]"

text \<open>The first \<open>k\<close> writes; the rest does not happen.\<close>

definition stopped_after :: "nat \<Rightarrow> (world \<Rightarrow> world) list \<Rightarrow> world \<Rightarrow> world" where
  "stopped_after k writes = fold (\<lambda>f. f) (take k writes)"

definition publish_some :: "nat \<Rightarrow> topology \<Rightarrow> world \<Rightarrow> world" where
  "publish_some k T w =
     w\<lparr>queued := queued w @ map (\<lambda>q. (q, gen_id (next_gen w))) (take k (published T)),
       next_gen := next_gen w + 1\<rparr>"

text \<open>A verifier that starts again has forgotten what it read and what it was going to mark.\<close>

definition verifier_restart :: "world \<Rightarrow> world" where
  "verifier_restart w = w\<lparr>found := None, to_mark := None\<rparr>"

text \<open>All writes together are the steps of the services.\<close>

lemma callback_all: "stopped_after 3 (callback_writes q c gid result) w = store_result q c gid result w"
  by (simp add: stopped_after_def callback_writes_def note_compiled_def save_result_def acknowledge_def store_result_def)

lemma publish_every: "publish_all T w = (publish_some (length (published T)) T w)\<lparr>pending := Some (next_gen w)\<rparr>"
  by (simp add: publish_some_def publish_all_def)

section \<open>Steps that stop\<close>

inductive crash :: "topology \<Rightarrow> world \<Rightarrow> world \<Rightarrow> bool" for T where
  runner: "reads T c = Some q \<Longrightarrow> (q, gid) \<in> set (queued w) \<Longrightarrow> k < 3 \<Longrightarrow>
    crash T w (stopped_after k (callback_writes q c gid result) w)"
| publishing: "pending w = None \<Longrightarrow> crash T w (publish_some k T w)"
| no_entry: "pending w = Some n \<Longrightarrow> crash T w (w\<lparr>pending := None\<rparr>)"
| verifier: "crash T w (verifier_restart w)"

inductive_cases crash_cases: "crash T w w'"

definition faulty_step :: "topology \<Rightarrow> world \<Rightarrow> world \<Rightarrow> bool" where
  "faulty_step T w w' \<longleftrightarrow> step T w w' \<or> crash T w w'"

definition slow_faulty_step :: "topology \<Rightarrow> world \<Rightarrow> world \<Rightarrow> bool" where
  "slow_faulty_step T w w' \<longleftrightarrow> slow_step T w w' \<or> crash T w w'"

lemma slow_faulty_step_faulty: "slow_faulty_step T w w' \<Longrightarrow> faulty_step T w w'"
  using slow_step_step by (auto simp: slow_faulty_step_def faulty_step_def)

text \<open>What a stopped runner leaves: the message, and at most a result more.\<close>

lemma stopped_runner:
  assumes "k < 3"
  shows "queued (stopped_after k (callback_writes q c gid result) w) = queued w"
    and "pending (stopped_after k (callback_writes q c gid result) w) = pending w"
    and "next_gen (stopped_after k (callback_writes q c gid result) w) = next_gen w"
    and "run_docs (stopped_after k (callback_writes q c gid result) w) =
      (if k = 2 then run_docs (store_result q c gid result w) else run_docs w)"
    and "reports (stopped_after k (callback_writes q c gid result) w) = reports w"
    and "found (stopped_after k (callback_writes q c gid result) w) = found w"
    and "to_mark (stopped_after k (callback_writes q c gid result) w) = to_mark w"
  using assms
  by (auto simp: less_Suc_eq numeral_eq_Suc stopped_after_def callback_writes_def note_compiled_def
      save_result_def store_result_def)

section \<open>The collections stay consistent\<close>

lemma entries_ok_cong:
  "entries_ok w \<Longrightarrow> run_docs w' = run_docs w \<Longrightarrow> next_gen w \<le> next_gen w' \<Longrightarrow>
   pending w' = None \<or> pending w' = pending w \<Longrightarrow> entries_ok w'"
  by (fastforce simp: entries_ok_def)

lemma handled_ready_cong:
  "handled_ready T w \<Longrightarrow> run_docs w' = run_docs w \<Longrightarrow> reports w' = reports w \<Longrightarrow>
   found w' = None \<or> found w' = found w \<Longrightarrow> to_mark w' = None \<or> to_mark w' = to_mark w \<Longrightarrow> handled_ready T w'"
  by (elim disjE) (simp_all add: handled_ready_def checked_def)

lemma crash_ok:
  assumes "crash T w w'" and ok: "entries_ok w" and ready: "handled_ready T w"
  shows "entries_ok w' \<and> handled_ready T w'"
  using assms(1)
proof (cases rule: crash.cases)
  case (runner c q gid k result)
  note left = stopped_runner [OF runner(4), of q c gid result w, folded runner(1)]
  let ?v = "if k = 2 then store_result q c gid result w else w"
  have "step T w (store_result q c gid result w)" using step.run [OF runner(2,3)] .
  from step_entries_ok [OF this ok] step_handled_ready [OF this ok ready]
  have v: "entries_ok ?v" "handled_ready T ?v" using ok ready by simp_all
  have "run_docs w' = run_docs ?v" "next_gen w' = next_gen ?v" "pending w' = pending ?v" "reports w' = reports ?v"
    "found w' = found ?v" "to_mark w' = to_mark ?v"
    using left by (simp_all add: store_result_def)
  then show ?thesis using entries_ok_cong [OF v(1), of w'] handled_ready_cong [OF v(2), of w'] by simp
next
  case (publishing k)
  then show ?thesis
    using entries_ok_cong [OF ok, of w'] handled_ready_cong [OF ready, of w'] by (simp add: publish_some_def)
next
  case (no_entry n)
  then show ?thesis using entries_ok_cong [OF ok, of w'] handled_ready_cong [OF ready, of w'] by simp
next
  case verifier
  then show ?thesis
    using entries_ok_cong [OF ok, of w'] handled_ready_cong [OF ready, of w'] by (simp add: verifier_restart_def)
qed

lemma faulty_run_ok:
  assumes "(faulty_step T)\<^sup>*\<^sup>* initial_world w"
  shows "entries_ok w \<and> handled_ready T w"
  using assms
proof (induction rule: rtranclp_induct)
  case base
  show ?case using reachable_ok [OF reachable_initial] .
next
  case (step y z)
  then show ?case using crash_ok step_entries_ok step_handled_ready by (auto simp: faulty_step_def)
qed

section \<open>No entry waits for a result that is gone\<close>

definition entries_complete :: "topology \<Rightarrow> world \<Rightarrow> bool" where
  "entries_complete T w \<longleftrightarrow>
     (\<forall>n c q. pending w = Some n \<or> has_entry n w \<longrightarrow> reads T c = Some q \<longrightarrow>
        (q, gen_id n) \<in> set (queued w) \<or> has_result c n w)"

lemma has_docs_cong:
  "run_docs w' = run_docs w \<Longrightarrow> has_result c n w' = has_result c n w \<and> has_entry n w' = has_entry n w"
  by (simp add: has_result_def has_entry_def)

lemma has_entry_stored: "has_entry n (store_result q c gid result w) = has_entry n w"
proof -
  have "map doc_id (update_one gid (set_result c result) (run_docs w)) = map doc_id (run_docs w)"
    using update_one_ids [of "set_result c result"] by simp
  then have "doc_id ` set (update_one gid (set_result c result) (run_docs w)) = doc_id ` set (run_docs w)"
    by (metis set_map)
  then show ?thesis by (simp add: has_entry_def store_result_def)
qed

lemma entries_complete_mono:
  assumes "entries_complete T w" and "set (queued w) \<subseteq> set (queued w')"
    and "\<And>n. pending w' = Some n \<or> has_entry n w' \<Longrightarrow> pending w = Some n \<or> has_entry n w"
    and "\<And>c n. has_result c n w \<Longrightarrow> has_result c n w'"
  shows "entries_complete T w'"
  using assms unfolding entries_complete_def by blast

lemma crash_entries_complete:
  assumes "crash T w w'" and ok: "entries_ok w" and inv: "entries_complete T w"
  shows "entries_complete T w'"
  using assms(1)
proof (cases rule: crash.cases)
  case (runner c q gid k result)
  note left = stopped_runner [OF runner(4), of q c gid result w, folded runner(1)]
  have "has_entry n w' = has_entry n w" for n
    using left(4) has_docs_cong [of w' w] has_docs_cong [of w' "store_result q c gid result w"]
      has_entry_stored [of n q c gid result w] by (cases "k = 2") auto
  moreover have "has_result d n w'" if "has_result d n w" for d n
    using left(4) that has_docs_cong [of w' w] has_docs_cong [of w' "store_result q c gid result w"]
      has_result_stored [OF disjI1 [OF that] ok, where c' = c and gid = gid and q = q and result = result] by (cases "k = 2") auto
  ultimately show ?thesis by (intro entries_complete_mono [OF inv]) (use left(1,2) in auto)
next
  case (publishing k)
  then show ?thesis
    by (intro entries_complete_mono [OF inv]) (auto simp: has_result_def has_entry_def publish_some_def)
next
  case (no_entry n)
  then show ?thesis by (intro entries_complete_mono [OF inv]) (auto simp: has_result_def has_entry_def)
next
  case verifier
  then show ?thesis
    by (intro entries_complete_mono [OF inv]) (auto simp: has_result_def has_entry_def verifier_restart_def)
qed

lemma slow_step_entries_complete:
  assumes st: "slow_step T w w'" and ok: "entries_ok w" and sep: "separate T" and inv: "entries_complete T w"
  shows "entries_complete T w'"
  using st
proof (cases rule: slow_step.cases)
  case publish
  then have "has_result c n w' = has_result c n w" "has_entry n w' = has_entry n w" for c n
    by (simp_all add: has_result_def has_entry_def publish_all_def)
  then show ?thesis using publish inv sep unfolding entries_complete_def separate_def
    by (fastforce simp: publish_all_def)
next
  case (entry m)
  have "has_result c n w \<Longrightarrow> has_result c n w'" "has_entry n w' = (n = m \<or> has_entry n w)" for c n
    using entry by (auto simp: has_result_def has_entry_def insert_entry_def)
  moreover have "queued w' = queued w" "pending w' = None" using entry by (simp_all add: insert_entry_def)
  ultimately show ?thesis using entry(2) inv unfolding entries_complete_def by fastforce
next
  case (run c' q gid result)
  have same: "queued w' = remove1 (q, gid) (queued w)" "pending w' = pending w" "has_entry n w' = has_entry n w" for n
    using run(1) has_entry_stored by (simp_all add: store_result_def)
  have "(q', gen_id n) \<in> set (queued w') \<or> has_result c n w'"
    if n: "pending w = Some n \<or> has_entry n w" and c: "reads T c = Some q'" for c q' n
  proof (cases "has_result c n w \<or> c = c' \<and> gid = gen_id n \<and> has_entry n w")
    case True
    then show ?thesis using has_result_stored [OF True ok] run(1) by blast
  next
    case False
    then have "(q', gen_id n) \<in> set (queued w)" using inv c n unfolding entries_complete_def by blast
    moreover have "(q', gen_id n) \<noteq> (q, gid)"
      using False n sep c run(2,4) unfolding separate_def by blast
    ultimately show ?thesis using same(1) by simp
  qed
  then show ?thesis using same(2,3) unfolding entries_complete_def by simp
next
  case verify
  obtain ids where parts: "run_docs w' = map (mark_handled ids) (run_docs w)" "queued w' = queued w"
    "pending w' = pending w" "next_gen w' = next_gen w" by (rule verifier_step_parts [OF verify])
  then have "has_result c n w' = has_result c n w" "has_entry n w' = has_entry n w" for c n
    by (simp_all add: has_result_def has_entry_def image_image)
  then show ?thesis using parts inv unfolding entries_complete_def by simp
qed

lemma slow_faulty_run:
  assumes "(slow_faulty_step T)\<^sup>*\<^sup>* initial_world w" and "separate T"
  shows "(faulty_step T)\<^sup>*\<^sup>* initial_world w \<and> entries_complete T w"
  using assms(1)
proof (induction rule: rtranclp_induct)
  case base
  show ?case by (simp add: entries_complete_def initial_world_def has_entry_def)
next
  case (step y z)
  have "faulty_step T y z" using slow_faulty_step_faulty [OF step.hyps(2)] .
  have "entries_ok y" using faulty_run_ok step.IH by blast
  show ?case
  proof -
    have "entries_complete T z"
      using step.hyps(2) step.IH slow_step_entries_complete [OF _ \<open>entries_ok y\<close> assms(2)]
        crash_entries_complete [OF _ \<open>entries_ok y\<close>] unfolding slow_faulty_step_def by blast
    then show ?thesis using step.IH \<open>faulty_step T y z\<close> by (auto intro: rtranclp.rtrancl_into_rtrancl)
  qed
qed

text \<open>When the queues are empty an entry of the collection has all results.\<close>

lemma drained_complete:
  assumes run: "(slow_faulty_step T)\<^sup>*\<^sup>* initial_world w" and sep: "separate T" and "queued w = []"
    and d: "d \<in> set (run_docs w)"
  shows "ready_to_handle (target_fields (compilers T)) (doc_results d)"
proof -
  have inv: "entries_complete T w" and ok: "entries_ok w"
    using slow_faulty_run [OF run sep] faulty_run_ok by blast+
  have "map_of (doc_results d) (''result_'' @ c) \<noteq> None" if "c \<in> set (compilers T)" for c
  proof -
    have "reads T c \<noteq> None" using sep that unfolding separate_def by blast
    then obtain q where "reads T c = Some q" by blast
    moreover have "has_entry (doc_id d) w" using d by (simp add: has_entry_def)
    ultimately have "has_result c (doc_id d) w" using inv assms(3) unfolding entries_complete_def by auto
    then obtain e where "e \<in> set (run_docs w)" "doc_id e = doc_id d" "map_of (doc_results e) (''result_'' @ c) \<noteq> None"
      by (auto simp: has_result_def)
    moreover from this have "e = d" using d ok by (auto simp: entries_ok_def distinct_map dest: inj_onD)
    ultimately show ?thesis by simp
  qed
  then show ?thesis by (auto simp: ready_to_handle_def target_fields_def list_all_iff)
qed

section \<open>A message that is delivered again\<close>

text \<open>
  Storing a result again resets the flag of the entry, so an entry that was handled is reported once
  more by the next pass.
\<close>

lemma stored_again_reported_again:
  assumes ok: "entries_ok w" and d: "d \<in> set (run_docs w)" "gid = generation_id d"
    and pass: "verifier_pass (compilers T) (run_docs (save_result c gid result w), reports w) = Inr (docs, reps)"
    and rep: "handle_doc (compilers T) (set_result c result d) = Inr (Some (rep, True))"
  shows "\<exists>new. reps = reports w @ new \<and> (gid, rep) \<in> set new"
proof -
  have "distinct (map generation_id (run_docs w))"
    using ok by (auto simp: entries_ok_def distinct_map inj_on_def gen_id_inj)
  from update_one_hits [OF d(1) this, of "set_result c result"] d(2)
  have "set_result c result d \<in> set (run_docs (save_result c gid result w))" by (simp add: save_result_def)
  then have un: "set_result c result d \<in> set (filter (\<lambda>d. is_handled d = Some False) (run_docs (save_result c gid result w)))"
    by simp
  obtain rs ids where h: "handle_docs (compilers T)
      (filter (\<lambda>d. is_handled d = Some False) (run_docs (save_result c gid result w))) = Inr (rs, ids)"
    and out: "reps = reports w @ rs"
    using pass by (auto simp: verifier_pass_def verifier_scan_def bindR_Inr_iff Let_def split: if_splits)
  have "(gid, rep) \<in> set rs" using handle_docs_member [OF h un] rep d(2) by auto
  then show ?thesis using out by blast
qed

end
