(* ===== verification/Generator_Claims.thy ===== *)
theory Generator_Claims imports Generator Conv_Claims Service_Claims Redelivery begin

text \<open>
  What the generators promise: the arguments they publish fit the contract, also when two converters
  share them, nothing is published of a failed conversion, and a runner handles every published message
  to the end.
\<close>

section \<open>Reported inputs\<close>

text \<open>
  Claim C6. The inputs a converter reports are a function of the message: they do not depend on the
  random draws, the stack depth or the class of the converter.
\<close>

theorem inputs_of_message:
  assumes "convert_contract C depth r contract = Inr (source, fis)"
  shows "contract_inputs (decimals (penv C)) contract = Inr fis \<and> distinct (map fst fis) \<and>
    (\<forall>name \<in> fst ` set fis. name = ''__init__'' \<or> (\<exists>i < MAX_FUNCTIONS. name = ''func_'' @ py_str (int i)))"
  using contract_inputs_run [OF assms] contract_inputs_distinct contract_inputs_names by blast

theorem inputs_of_message_witness:
  "contract_inputs True init_contract = Inr [(''__init__'', [IntT 256 False])]"
proof -
  obtain source where "convert_contract sample_env (Suc (Suc (Suc 0))) [] init_contract =
     Inr (source, [(''__init__'', [IntT 256 False])])" using run_init by blast
  from inputs_of_message [OF this] show ?thesis by (simp add: sample_env_def sample_penv_def)
qed

section \<open>Published messages\<close>

text \<open>
  Claim C3. What a generator publishes with a contract fits the contract. It logs the generation, sends
  one message to every queue and creates the entry, in this order; the log entry and the message hold
  the source, the same arguments and the message in JSON. The arguments are the drawn ones: for every
  function the converter reports, and for no other name, one list per configured strategy, generated by
  it for the parameter types and inhabiting them. Who decodes the message gets exactly them.
\<close>

theorem published_arguments:
  assumes "test_one_input G cls i r r' contract = (es, Inr ())"
    and "mtype contract = ''Contract''" and "conforms (decimals (gn_env G)) contract"
    and "exact_text (gn_text G)"
  shows "\<exists>source fis ins r'' entry m.
    convert_contract \<lparr>penv = gn_env G, conv_class = cls\<rparr> (stack_depth G) r contract = Inr (source, fis) \<and>
    function_input_values (gn_env G) (gn_strategies G) fis [] r' = Inr (ins, r'') \<and>
    es = LogCompilation i entry # map (\<lambda>q. Publish (snd q) m) (gn_queues G) @ [InsertEntry i] \<and>
    m = \<lparr>m_id = i, m_results = [(''generation_result'', source)], m_inputs = encoded_inputs (gn_text G) ins,
      m_json_msg = message_to_json G contract, m_version = VERSION\<rparr> \<and>
    entry = \<lparr>le_json_msg = message_to_json G contract, le_results = [(''generation_result'', source)],
      compilation_result = fst (compile_source G source), error_info = snd (compile_source G source),
      le_inputs = m_inputs m, le_version = VERSION\<rparr> \<and>
    decode (gn_text G) (m_inputs m) = Inr (inputs_obj ins) \<and> fst ` set ins \<subseteq> fst ` set fis \<and>
    (\<forall>(name, types) \<in> set fis. list_all2 (drawn_by (gn_env G) types) (gn_strategies G) (dget ins name []) \<and>
      (\<forall>args \<in> set (dget ins name []). list_all2 (inhabits (gn_env G)) types args))"
proof -
  obtain source fis where conv: "convert_contract \<lparr>penv = gn_env G, conv_class = cls\<rparr> (stack_depth G) r contract = Inr (source, fis)"
    and run: "log_and_publish G i [(''generation_result'', source)] source fis r' contract = (es, Inr ())"
    using assms(1) by (rule test_one_inputE)
  note fit = published_fit [OF run conv assms(2-4)]
  show ?thesis by (rule exI [of _ source], rule exI [of _ fis]) (use fit conv in blast)
qed

definition sample_text :: decimal_text where
  "sample_text = \<lparr>dec_str = (\<lambda>f. nat_str (unat f)), dec_parse = (\<lambda>s. Inr (of_nat (digits_val 0 s)))\<rparr>"

lemma sample_text_exact: "exact_text sample_text"
  by (simp add: exact_text_def sample_text_def)

definition sample_generator :: generator where
  "sample_generator =
     \<lparr>gn_env = sample_penv, stack_depth = Suc (Suc (Suc 0)), compile_code = (\<lambda>_. Inr ''0x''), gn_text = sample_text,
      message_to_json = (\<lambda>_. ''{}''), gn_strategies = [DEFAULT, ZEROS],
      gn_queues = [(''adder'', broker ''localhost'' 5672), (''nagini'', broker ''localhost'' 5673)]\<rparr>"

lemma sample_generator_facts:
  "mtype init_contract = ''Contract''" "conforms (decimals (gn_env sample_generator)) init_contract"
  "exact_text (gn_text sample_generator)"
  using init_conforms sample_text_exact by (simp_all add: sample_generator_def sample_env_def)

lemma sample_queue: "broker ''localhost'' 5672 \<in> snd ` set (gn_queues sample_generator)"
  by (simp add: sample_generator_def)

lemma run_init_any:
  "\<exists>source. convert_contract \<lparr>penv = gn_env sample_generator, conv_class = cls\<rparr> (stack_depth sample_generator) [] init_contract =
     Inr (source, [(''__init__'', [IntT 256 False])])"
  using run_init_class by (simp add: sample_generator_def)

lemma run_log_and_publish:
  "\<exists>es. log_and_publish sample_generator i results source [(''__init__'', [IntT 256 False])] [7] m = (es, Inr ())"
proof -
  have "\<exists>ins r. function_input_values sample_penv [DEFAULT, ZEROS] [(''__init__'', [IntT 256 False])] [] [7] = Inr (ins, r)"
    by (simp add: input_value_def default_input_simps scalar_input_def [of ZEROS] strategy_gens_def zero_gen_def
        convert_gen_output_def split_beta)
  then show ?thesis
    by (auto simp: log_and_publish_def Let_def split_beta liftE_def generate_inputs_json_def tell_def sample_generator_def)
qed

lemma run_test_one: "\<exists>es. test_one_input sample_generator cls ''0'' [] [7] init_contract = (es, Inr ())"
proof -
  obtain source where "convert_contract \<lparr>penv = gn_env sample_generator, conv_class = cls\<rparr> (stack_depth sample_generator) [] init_contract =
     Inr (source, [(''__init__'', [IntT 256 False])])" using run_init_any by blast
  with run_log_and_publish [of "''0''" "[(''generation_result'', source)]" source init_contract]
  show ?thesis by (auto simp: test_one_input_def generate_source_def returnE_def)
qed

theorem published_arguments_witness:
  "\<exists>es m ins. test_one_input sample_generator TypedConverter ''0'' [] [7] init_contract = (es, Inr ()) \<and>
     Publish (broker ''localhost'' 5672) m \<in> set es \<and> decode sample_text (m_inputs m) = Inr (inputs_obj ins) \<and>
     length (dget ins ''__init__'' []) = 2"
proof -
  obtain es where run: "test_one_input sample_generator TypedConverter ''0'' [] [7] init_contract = (es, Inr ())"
    using run_test_one by blast
  obtain source where init: "convert_contract \<lparr>penv = gn_env sample_generator, conv_class = TypedConverter\<rparr>
      (stack_depth sample_generator) [] init_contract = Inr (source, [(''__init__'', [IntT 256 False])])"
    using run_init_any by blast
  have sample: "gn_queues sample_generator = [(''adder'', broker ''localhost'' 5672), (''nagini'', broker ''localhost'' 5673)]"
    "gn_text sample_generator = sample_text" "length (gn_strategies sample_generator) = 2"
    by (simp_all add: sample_generator_def)
  show ?thesis
    using published_arguments [OF run sample_generator_facts] run unfolding init sample
    by (fastforce simp: sample(3) dest: list_all2_lengthD)
qed

text \<open>
  Claim C4. The differential generator publishes the sources of both converters and draws the arguments
  for one of them only; they fit both, because both report the same inputs.
\<close>

theorem diff_arguments:
  assumes "run_diff G i r r_diff r' contract = (es, Inr ())"
    and "mtype contract = ''Contract''" and "conforms (decimals (gn_env G)) contract"
    and "exact_text (gn_text G)"
  shows "\<exists>source source_diff fis ins r'' entry m.
    convert_contract \<lparr>penv = gn_env G, conv_class = NaginiConverter\<rparr> (stack_depth G) r contract = Inr (source, fis) \<and>
    convert_contract \<lparr>penv = gn_env G, conv_class = TypedConverter\<rparr> (stack_depth G) r_diff contract = Inr (source_diff, fis) \<and>
    function_input_values (gn_env G) (gn_strategies G) fis [] r' = Inr (ins, r'') \<and>
    es = LogCompilation i entry # map (\<lambda>q. Publish (snd q) m) (gn_queues G) @ [InsertEntry i] \<and>
    m_id m = i \<and>
    m_results m = [(''generation_result_nagini'', source), (''generation_result_adder'', source_diff)] \<and>
    decode (gn_text G) (m_inputs m) = Inr (inputs_obj ins) \<and> fst ` set ins \<subseteq> fst ` set fis \<and>
    (\<forall>(name, types) \<in> set fis. list_all2 (drawn_by (gn_env G) types) (gn_strategies G) (dget ins name []) \<and>
      (\<forall>args \<in> set (dget ins name []). list_all2 (inhabits (gn_env G)) types args))"
proof -
  obtain source fis source_diff
    where conv: "convert_contract \<lparr>penv = gn_env G, conv_class = NaginiConverter\<rparr> (stack_depth G) r contract = Inr (source, fis)"
    and conv': "convert_contract \<lparr>penv = gn_env G, conv_class = TypedConverter\<rparr> (stack_depth G) r_diff contract = Inr (source_diff, fis)"
    and run: "log_and_publish G i [(''generation_result_nagini'', source), (''generation_result_adder'', source_diff)]
      source fis r' contract = (es, Inr ())"
    using assms(1) by (rule run_diffE)
  note fit = published_fit [OF run conv assms(2-4)]
  show ?thesis
    by (rule exI [of _ source], rule exI [of _ source_diff], rule exI [of _ fis]) (use fit conv conv' in fastforce)
qed

lemma run_diff_run: "\<exists>es. run_diff sample_generator ''0'' [] [] [7] init_contract = (es, Inr ())"
proof -
  obtain s t where "convert_contract \<lparr>penv = gn_env sample_generator, conv_class = NaginiConverter\<rparr>
      (stack_depth sample_generator) [] init_contract = Inr (s, [(''__init__'', [IntT 256 False])])"
    "convert_contract \<lparr>penv = gn_env sample_generator, conv_class = TypedConverter\<rparr>
      (stack_depth sample_generator) [] init_contract = Inr (t, [(''__init__'', [IntT 256 False])])"
    using run_init_any by blast
  with run_log_and_publish [of "''0''" "[(''generation_result_nagini'', s), (''generation_result_adder'', t)]" s init_contract]
  show ?thesis by (auto simp: run_diff_def test_one_diff_def generate_source_def returnE_def)
qed

theorem diff_arguments_witness:
  "\<exists>es m source source_diff. run_diff sample_generator ''0'' [] [] [7] init_contract = (es, Inr ()) \<and>
     Publish (broker ''localhost'' 5672) m \<in> set es \<and>
     m_results m = [(''generation_result_nagini'', source), (''generation_result_adder'', source_diff)]"
proof -
  obtain es where run: "run_diff sample_generator ''0'' [] [] [7] init_contract = (es, Inr ())"
    using run_diff_run by blast
  from diff_arguments [OF run sample_generator_facts] run show ?thesis
    by (force simp: sample_generator_def)
qed

text \<open>
  Claim C22. Nothing leaves a generator for a message it cannot convert: no document is logged as
  generated, nothing is published and no entry is created; the failure is logged once, with the error
  that is raised again. The differential generator needs both conversions.
\<close>

theorem failed_conversion:
  assumes "convert_contract \<lparr>penv = gn_env G, conv_class = cls\<rparr> (stack_depth G) r contract = Inl e"
  shows "test_one_input G cls i r r' contract =
      ([LogFailure \<lparr>fl_error = e, fl_json_msg = message_to_json G contract\<rparr>], Inl e) \<and>
    (\<forall>r_other. \<exists>e'. run_diff G i (if cls = NaginiConverter then r else r_other)
        (if cls = NaginiConverter then r_other else r) r' contract =
      ([LogFailure \<lparr>fl_error = e', fl_json_msg = message_to_json G contract\<rparr>], Inl e'))"
proof -
  have fail: "generate_source G cls r contract =
      ([LogFailure \<lparr>fl_error = e, fl_json_msg = message_to_json G contract\<rparr>], Inl e)"
    using assms by (simp add: generate_source_def)
  have "\<exists>e'. run_diff G i (if cls = NaginiConverter then r else r_other)
        (if cls = NaginiConverter then r_other else r) r' contract =
      ([LogFailure \<lparr>fl_error = e', fl_json_msg = message_to_json G contract\<rparr>], Inl e')" for r_other
  proof (cases cls)
    case NaginiConverter
    then show ?thesis using fail by (simp add: run_diff_def test_one_diff_def)
  next
    case TypedConverter
    show ?thesis
    proof (cases "convert_contract \<lparr>penv = gn_env G, conv_class = NaginiConverter\<rparr> (stack_depth G) r_other contract")
      case (Inl e')
      then show ?thesis using TypedConverter by (simp add: run_diff_def test_one_diff_def generate_source_def)
    next
      case (Inr p)
      then have "generate_source G NaginiConverter r_other contract = ([], Inr p)"
        by (simp add: generate_source_def returnE_def)
      then show ?thesis using TypedConverter fail by (cases p) (simp add: run_diff_def test_one_diff_def)
    qed
  qed
  then show ?thesis using fail by (simp add: test_one_input_def)
qed

text \<open>A constant with an expression, and a stack that is too small for it.\<close>

definition constant_contract :: msg where
  "constant_contract = Msg ''Contract'' [(''decls'', VRep [Msg ''VarDecl'' [int_type_field, (''mut'', VInt CONSTANT)]])]"

lemma constant_decl_type:
  "extract_vy_type (Suc (Suc (Suc 0))) True False (Msg ''VarDecl'' [(''i'', VMsg (Msg ''Int'' [(''n'', VInt 255)])), (''mut'', VInt k)])
    = Inr (IntT 256 False)"
  by (simp add: extract_vy_type.simps py_has_field_def HasField_def schema_eval type_messages
      field_int_def get_msg_def get_int_def get_bool_def present_def is_int_kind_def get_nearest_multiple_def mk_Int_def)

lemma run_constant_contract:
  "convert_contract \<lparr>penv = sample_penv, conv_class = cls\<rparr> 0 [] constant_contract = Inl RecursionError"
  by (cases cls) (simp_all add: sample_run Let_def constant_contract_def convert_contract_def MAX_STORAGE_VARIABLES_def
      CONSTANT_def REGULAR_def constant_decl_type)

definition shallow_generator :: generator where
  "shallow_generator = sample_generator\<lparr>stack_depth := 0\<rparr>"

theorem failed_conversion_witness:
  "test_one_input shallow_generator TypedConverter ''0'' [] [] constant_contract =
     ([LogFailure \<lparr>fl_error = RecursionError, fl_json_msg = ''{}''\<rparr>], Inl RecursionError)"
proof -
  have "convert_contract \<lparr>penv = gn_env shallow_generator, conv_class = TypedConverter\<rparr> (stack_depth shallow_generator) []
      constant_contract = Inl RecursionError"
    using run_constant_contract by (simp add: shallow_generator_def sample_generator_def)
  from failed_conversion [OF this] show ?thesis by (simp add: shallow_generator_def sample_generator_def)
qed

section \<open>Messages and runners\<close>

lemma map_of_arguments: "map_of (arguments_of ins) f = map_option (map (map obj_of)) (map_of ins f)"
  by (induction ins) (auto simp: arguments_of_def)

text \<open>Handling a message with inputs that were drawn for the functions it names.\<close>

lemma handle_drawn:
  assumes ins: "function_input_values E sts fis [] r = Inr (ins, r')" and "sts \<noteq> []" and "distinct (map fst fis)"
    and dec: "decode (decimals_text I) (m_inputs m) = Inr (inputs_obj ins)"
    and ext: "\<And>iv c. load_contract I R m iv = Inr c \<Longrightarrow> set (externals I c) \<subseteq> fst ` set fis"
    and "inputs_per_function R \<le> length sts"
  shows "\<exists>ds. handle_compilation I R m = Inr ds \<and>
    length ds = (if ''__init__'' \<in> fst ` set fis then length sts else 1) \<and>
    list_all (well_shaped (map fst fis) (inputs_per_function R)) ds"
proof -
  have got: "(\<forall>f \<in> set fis. \<exists>xss. map_of ins (fst f) = Some xss \<and> length xss = length sts) \<and>
      (\<forall>n. n \<notin> fst ` set fis \<longrightarrow> map_of ins n = map_of [] n)"
    using function_input_values_length [OF assms(1-3)] by simp
  have "\<exists>argss. map_of (arguments_of ins) (fst f) = Some argss \<and> inputs_per_function R \<le> length argss"
    if f: "f \<in> set fis" for f
  proof -
    obtain xss where "map_of ins (fst f) = Some xss" "length xss = length sts" using got f by blast
    then show ?thesis using assms(6) by (simp add: map_of_arguments)
  qed
  then have args: "\<forall>fn \<in> set (map fst fis). \<exists>argss. map_of (arguments_of ins) fn = Some argss \<and>
      inputs_per_function R \<le> length argss" by simp
  have "set (externals I c) \<subseteq> set (map fst fis)" if "load_contract I R m iv = Inr c" for iv c
    using ext [OF that] by simp
  then have "\<exists>ds. handle_deployments I R m (arguments_of ins) ivs = Inr ds \<and> length ds = length ivs \<and>
      list_all (well_shaped (map fst fis) (inputs_per_function R)) ds" for ivs
    using args by (rule handle_deployments_total)
  moreover have "handle_compilation I R m = run_deployments I R m (arguments_of ins)"
    using dec by (simp add: handle_compilation_def decoded_arguments_def arguments_from_inputs)
  ultimately obtain ds where ds: "handle_compilation I R m = Inr ds"
    "length ds = length (dget (arguments_of ins) ''__init__'' [[]])"
    "list_all (well_shaped (map fst fis) (inputs_per_function R)) ds"
    unfolding run_deployments_def by metis
  have "length (dget (arguments_of ins) ''__init__'' [[]]) = (if ''__init__'' \<in> fst ` set fis then length sts else 1)"
  proof (cases "''__init__'' \<in> fst ` set fis")
    case True
    then obtain xss where "map_of ins ''__init__'' = Some xss" "length xss = length sts" using got by force
    then show ?thesis using True by (simp add: dget_def map_of_arguments)
  next
    case False
    then have "map_of ins ''__init__'' = None" using got by simp
    then show ?thesis using False by (simp add: dget_def map_of_arguments)
  qed
  then show ?thesis using ds by simp
qed

text \<open>
  Claim C19. A runner handles every message of a generator with the same configuration to the end: it
  finds the arguments of every external function in every deployment, so that each deployment ends as a
  failure or with one result per function and input set. There is one deployment per strategy when the
  constructor has parameters, and one otherwise.
\<close>

theorem runner_finishes:
  assumes "test_one_input G cls i r r' contract = (es, Inr ())" and "Publish q m \<in> set es"
    and "mtype contract = ''Contract''" and "conforms (decimals (gn_env G)) contract" and "exact_text (gn_text G)"
    and "init_runner from_string rc name conf = Inr (R, queue)"
    and "gn_strategies G = input_strategies conf" and "input_strategies conf \<noteq> []"
    and "decimals_text I = gn_text G"
    and "contract_inputs (decimals (gn_env G)) contract = Inr fis"
    and "\<And>iv c. load_contract I R m iv = Inr c \<Longrightarrow> set (externals I c) \<subseteq> fst ` set fis"
  shows "\<exists>ds. handle_compilation I R m = Inr ds \<and>
    length ds = (if ''__init__'' \<in> fst ` set fis then length (input_strategies conf) else 1) \<and>
    list_all (well_shaped (map fst fis) (length (input_strategies conf))) ds"
proof -
  obtain source fis' where conv: "convert_contract \<lparr>penv = gn_env G, conv_class = cls\<rparr> (stack_depth G) r contract = Inr (source, fis')"
    and "log_and_publish G i [(''generation_result'', source)] source fis' r' contract = (es, Inr ())"
    using assms(1) by (rule test_one_inputE)
  then obtain ins r'' where ins: "function_input_values (gn_env G) (gn_strategies G) fis' [] r' = Inr (ins, r'')"
    and m: "m_inputs m = encoded_inputs (gn_text G) ins"
    using log_and_publish_effects assms(2) by (fastforce simp: publish_multi_def)
  note drawn = drawn_fit [OF conv assms(3), unfolded cenv.simps, OF assms(4) ins]
  have fis: "fis' = fis" using drawn(1) assms(10) by simp
  have dec: "decode (decimals_text I) (m_inputs m) = Inr (inputs_obj ins)"
    using drawn(3) [OF assms(5)] m assms(9) by simp
  have R: "inputs_per_function R = length (gn_strategies G)" using runner_queue [OF assms(6)] assms(7) by auto
  have ne: "gn_strategies G \<noteq> []" and dist: "distinct (map fst fis')" and le: "inputs_per_function R \<le> length (gn_strategies G)"
    using assms(7,8) R fis contract_inputs_distinct [OF assms(10)] by simp_all
  have "\<exists>ds. handle_compilation I R m = Inr ds \<and>
      length ds = (if ''__init__'' \<in> fst ` set fis' then length (gn_strategies G) else 1) \<and>
      list_all (well_shaped (map fst fis') (inputs_per_function R)) ds"
    by (rule handle_drawn [OF ins ne dist dec _ le]) (use assms(11) fis in blast)
  then show ?thesis by (simp only: R fis assms(7))
qed

definition two_strategies :: config where
  "two_strategies = config_diff\<lparr>input_strategies := [DEFAULT, ZEROS]\<rparr>"

definition empty_interpreter :: "unit interpreter" where
  "empty_interpreter =
     \<lparr>boa_loads = (\<lambda>st src args. Inr ()), contract_dir = (\<lambda>_. [''address'']),
      contract_call = (\<lambda>c fn args. (Inl ''revert'', c)), json_text = (\<lambda>_. ''''), decimals_text = sample_text\<rparr>"

theorem runner_finishes_witness:
  "\<exists>es m R queue ds. test_one_input sample_generator TypedConverter ''0'' [] [7] init_contract = (es, Inr ()) \<and>
     Publish (broker ''localhost'' 5672) m \<in> set es \<and>
     init_runner (\<lambda>_. Inr 0) RunnerBase ''nagini'' two_strategies = Inr (R, queue) \<and>
     handle_compilation empty_interpreter R m = Inr ds \<and> length ds = 2"
proof -
  obtain es where run: "test_one_input sample_generator TypedConverter ''0'' [] [7] init_contract = (es, Inr ())"
    using run_test_one by blast
  from test_one_inputE [OF this] success_publishes obtain m where m: "Publish (broker ''localhost'' 5672) m \<in> set es"
    by (metis (no_types, lifting) sample_queue)
  obtain R queue where R: "init_runner (\<lambda>_. Inr 0) RunnerBase ''nagini'' two_strategies = Inr (R, queue)"
    by (simp add: init_runner_def config_run config_diff_def two_strategies_def)
  obtain source where "convert_contract \<lparr>penv = gn_env sample_generator, conv_class = TypedConverter\<rparr> (stack_depth sample_generator) []
     init_contract = Inr (source, [(''__init__'', [IntT 256 False])])" using run_init_any by blast
  from contract_inputs_run [OF this]
  have fis: "contract_inputs (decimals (gn_env sample_generator)) init_contract = Inr [(''__init__'', [IntT 256 False])]" by simp
  have ext: "set (externals empty_interpreter c) \<subseteq> fst ` set [(''__init__'', [IntT 256 False])]" for c
    by (simp add: externals_def empty_interpreter_def starts_with_def)
  have "gn_strategies sample_generator = input_strategies two_strategies" "input_strategies two_strategies \<noteq> []"
    "decimals_text empty_interpreter = gn_text sample_generator" "length (input_strategies two_strategies) = 2"
    by (simp_all add: sample_generator_def two_strategies_def empty_interpreter_def)
  then have "\<exists>ds. handle_compilation empty_interpreter R m = Inr ds \<and> length ds = 2"
    using runner_finishes [OF run m sample_generator_facts R _ _ _ fis ext] by auto
  then show ?thesis using run m R by blast
qed

text \<open>
  Claim C20. Every differential runner compiles the source that was generated for it: the one of its
  own converter, under its own settings. A runner of any other name finds no source, and reports a
  failed deployment for every constructor input.
\<close>

theorem diff_runner_source:
  assumes "run_diff G i r r_diff r' contract = (es, Inr ())" and "Publish q m \<in> set es"
    and "init_runner from_string RunnerDiff name conf = Inr (R, queue)"
  shows "(name = ''nagini'' \<longrightarrow> (\<exists>source fis.
        convert_contract \<lparr>penv = gn_env G, conv_class = NaginiConverter\<rparr> (stack_depth G) r contract = Inr (source, fis) \<and>
        (\<forall>iv. load_contract I R m iv = boa_loads I (comp_settings R) source iv))) \<and>
    (name = ''adder'' \<longrightarrow> (\<exists>source fis.
        convert_contract \<lparr>penv = gn_env G, conv_class = TypedConverter\<rparr> (stack_depth G) r_diff contract = Inr (source, fis) \<and>
        (\<forall>iv. load_contract I R m iv = boa_loads I (comp_settings R) source iv))) \<and>
    (name \<notin> {''nagini'', ''adder''} \<longrightarrow> handle_deployments I R m args ivs =
        Inr (map (\<lambda>_. DeployError ([CHR 39] @ ''generation_result_'' @ name @ [CHR 39])) ivs))"
proof -
  obtain source fis source_diff
    where conv: "convert_contract \<lparr>penv = gn_env G, conv_class = NaginiConverter\<rparr> (stack_depth G) r contract = Inr (source, fis)"
    and conv': "convert_contract \<lparr>penv = gn_env G, conv_class = TypedConverter\<rparr> (stack_depth G) r_diff contract = Inr (source_diff, fis)"
    and run: "log_and_publish G i [(''generation_result_nagini'', source), (''generation_result_adder'', source_diff)]
      source fis r' contract = (es, Inr ())"
    using assms(1) by (rule run_diffE)
  have m: "m_results m = [(''generation_result_nagini'', source), (''generation_result_adder'', source_diff)]"
    using log_and_publish_effects [OF run] assms(2) by (auto simp: publish_multi_def)
  have R: "source_field R = ''generation_result_'' @ name" using runner_queue [OF assms(3)] by auto
  have "handle_deployments I R m args ivs =
      Inr (map (\<lambda>_. DeployError ([CHR 39] @ ''generation_result_'' @ name @ [CHR 39])) ivs)"
    if "name \<notin> {''nagini'', ''adder''}"
  proof -
    have "load_contract I R m iv = Inl ([CHR 39] @ ''generation_result_'' @ name @ [CHR 39])" for iv
      using that m R by (simp add: load_contract_def)
    then show ?thesis by (induction ivs) simp_all
  qed
  then show ?thesis using conv conv' m R by (simp add: load_contract_def)
qed

theorem diff_runner_source_witness:
  "\<exists>es m R queue source. run_diff sample_generator ''0'' [] [] [7] init_contract = (es, Inr ()) \<and>
     Publish (broker ''localhost'' 5672) m \<in> set es \<and>
     init_runner (\<lambda>_. Inr 0) RunnerDiff ''adder'' config_diff = Inr (R, queue) \<and> comp_settings R = Optimize 0 \<and>
     load_contract empty_interpreter R m [] = boa_loads empty_interpreter (Optimize 0) source []"
proof -
  obtain es where run: "run_diff sample_generator ''0'' [] [] [7] init_contract = (es, Inr ())"
    using run_diff_run by blast
  from run_diffE [OF this] success_publishes obtain m where m: "Publish (broker ''localhost'' 5672) m \<in> set es"
    by (metis (no_types, lifting) sample_queue)
  obtain R queue where R: "init_runner (\<lambda>_. Inr 0) RunnerDiff ''adder'' config_diff = Inr (R, queue)"
    "comp_settings R = Optimize 0"
    by (simp add: init_runner_def config_run config_diff_def optimize_settings_def)
  have "\<exists>source fis.
      convert_contract \<lparr>penv = gn_env sample_generator, conv_class = TypedConverter\<rparr> (stack_depth sample_generator) [] init_contract =
        Inr (source, fis) \<and> (\<forall>iv. load_contract empty_interpreter R m iv = boa_loads empty_interpreter (comp_settings R) source iv)"
    using diff_runner_source [OF run m R(1), of empty_interpreter] by blast
  then show ?thesis using run m R by auto
qed

section \<open>A generator among the services\<close>

text \<open>
  Claim C21. What a generator does, effect by effect, is what the service model has it do. Each prefix
  of its effects leaves the world of the model: first the number is given out, then the message is in
  one queue after the other, and only after all of them the entry is created. So a complete run is a
  publication followed by the creation of the entry, and a generator that stops after any number of
  effects has taken no step or made a crash step of the model. This holds for the plain and the
  differential generator.
\<close>

theorem generator_refines_steps:
  assumes "test_one_input G cls (gen_id (next_gen w)) r r' contract = (es, Inr ()) \<or>
      run_diff G (gen_id (next_gen w)) r r_diff r' contract = (es, Inr ())"
    and "compiler_queues (cf_queues conf) (cf_compilers conf) [] = Inr (gn_queues G)" and "topology_of conf = Inr T"
    and "pending w = None"
  shows "length es = length (published T) + 2 \<and>
    (\<forall>k \<le> length (published T). fold (perform (next_gen w)) (take (Suc k) es) w =
       (publish_some k T w)\<lparr>pending := Some (next_gen w)\<rparr>) \<and>
    step T w (publish_all T w) \<and> step T (publish_all T w) (fold (perform (next_gen w)) es w) \<and>
    (\<forall>k < length es. let stopped = (fold (perform (next_gen w)) (take k es) w)\<lparr>pending := None\<rparr>
       in stopped = w \<or> crash T w stopped)"
proof -
  let ?n = "next_gen w"
  obtain results source fis where run: "log_and_publish G (gen_id ?n) results source fis r' contract = (es, Inr ())"
    using assms(1) test_one_inputE run_diffE by metis
  from log_and_publish_effects [OF run] obtain entry m where
    es: "es = LogCompilation (gen_id ?n) entry # publish_multi G m @ [InsertEntry (gen_id ?n)]"
    and m: "m_id m = gen_id ?n" by fastforce
  have pub: "published T = map snd (gn_queues G)" using assms(2,3) by (auto simp: topology_of_def)
  have len: "length es = length (published T) + 2" using pub by (simp add: es publish_multi_def)
  have prefix: "fold (perform ?n) (take (Suc k) es) w = (publish_some k T w)\<lparr>pending := Some ?n\<rparr>"
    if "k \<le> length (published T)" for k
    using perform_prefix [OF pub m that] by (simp add: es publish_some_def)
  have whole: "fold (perform ?n) es w = insert_entry ?n (publish_all T w)"
    using perform_generation [OF pub m] es by simp
  have steps: "step T w (publish_all T w)" "step T (publish_all T w) (insert_entry ?n (publish_all T w))"
    using step.publish [OF assms(4)] by (auto intro: step.entry simp: publish_all_def)
  have stop: "let stopped = (fold (perform ?n) (take k es) w)\<lparr>pending := None\<rparr> in stopped = w \<or> crash T w stopped"
    if "k < length es" for k
  proof (cases k)
    case 0
    then show ?thesis using assms(4) by simp
  next
    case (Suc j)
    then have "j \<le> length (published T)" using that len by simp
    moreover have "(publish_some j T w)\<lparr>pending := None\<rparr> = publish_some j T w"
      using assms(4) by (simp add: publish_some_def)
    ultimately show ?thesis using prefix [of j] crash.publishing [OF assms(4), of T j] Suc by (simp add: Let_def)
  qed
  show ?thesis using len prefix steps stop whole by simp
qed

theorem generator_refines_steps_witness:
  "\<exists>T es. topology_of config_diff = Inr T \<and>
     test_one_input sample_generator TypedConverter ''0'' [] [7] init_contract = (es, Inr ()) \<and> length es = 4 \<and>
     fold (perform 0) (take 2 es) initial_world = (publish_some 1 T initial_world)\<lparr>pending := Some 0\<rparr> \<and>
     step T (publish_all T initial_world) (fold (perform 0) es initial_world)"
proof -
  have id: "gen_id (next_gen initial_world) = ''0''" "next_gen initial_world = 0" "pending initial_world = None"
    by (simp_all add: gen_id_def initial_world_def nat_str.simps [of 0] digit_char_def)
  obtain es where run: "test_one_input sample_generator TypedConverter ''0'' [] [7] init_contract = (es, Inr ())"
    using run_test_one by blast
  then have or: "test_one_input sample_generator TypedConverter (gen_id (next_gen initial_world)) [] [7] init_contract = (es, Inr ()) \<or>
      run_diff sample_generator (gen_id (next_gen initial_world)) [] [] [7] init_contract = (es, Inr ())"
    by (simp only: id(1) simp_thms)
  obtain T where T: "topology_of config_diff = Inr T" "published T = [broker ''localhost'' 5672, broker ''localhost'' 5673]"
    by (rule config_diff_topology)
  have queues: "compiler_queues (cf_queues config_diff) (cf_compilers config_diff) [] = Inr (gn_queues sample_generator)"
    by (simp add: config_run config_diff_def broker_def sample_generator_def)
  from generator_refines_steps [OF or queues T(1) id(3)]
  have "length es = 4" "step T (publish_all T initial_world) (fold (perform 0) es initial_world)"
    "\<forall>k \<le> 2. fold (perform 0) (take (Suc k) es) initial_world = (publish_some k T initial_world)\<lparr>pending := Some 0\<rparr>"
    by (simp_all add: T(2) id(2))
  then show ?thesis using T(1) run by (metis Suc_1 one_le_numeral)
qed

end
