(* ===== verification/Msg_Schema.thy ===== *)
theory Msg_Schema imports Type_Extract begin

text \<open>
  The schema as the converter's methods use it: the kind of every field they read, how deep a message
  is nested, and the message type an expression of a Vyper type is stored in.
\<close>

section \<open>Fields\<close>

named_theorems schema "the kinds of the fields"

lemma map_of_filter_hit: "map_of xs k = Some v \<Longrightarrow> P (k, v) \<Longrightarrow> map_of (filter P xs) k = Some v"
  by (induction xs) (auto split: if_splits)

lemma field_kindI:
  "map_of (proto_message t) f = Some k \<Longrightarrow>
     d \<or> t \<notin> set decimal_messages \<and> \<not> is_decimal_field (f, k) \<Longrightarrow> field_kind d t f = Some k"
  unfolding field_kind_def proto_fields_def by (auto intro: map_of_filter_hit)

lemmas message_fields =
  proto_message_def [of "''BoolBinOp''", simplified]
  proto_message_def [of "''IntBoolBinOp''", simplified]
  proto_message_def [of "''DecimalBoolBinOp''", simplified]
  proto_message_def [of "''BoolUnOp''", simplified]
  proto_message_def [of "''BoolExpression''", simplified]
  proto_message_def [of "''AddressExpression''", simplified]
  proto_message_def [of "''IntBinOp''", simplified]
  proto_message_def [of "''IntUnOp''", simplified]
  proto_message_def [of "''DecimalBinOp''", simplified]
  proto_message_def [of "''DecimalUnOp''", simplified]
  proto_message_def [of "''IntExpression''", simplified]
  proto_message_def [of "''ConvertFromInt''", simplified]
  proto_message_def [of "''ConvertFromBytesM''", simplified]
  proto_message_def [of "''BytesMExpression''", simplified]
  proto_message_def [of "''BytesExpression''", simplified]
  proto_message_def [of "''StringExpression''", simplified]
  proto_message_def [of "''DecimalExpression''", simplified]
  proto_message_def [of "''Literal''", simplified]
  proto_message_def [of "''CreateMinimalProxy''", simplified]
  proto_message_def [of "''CreateCopyOf''", simplified]
  proto_message_def [of "''EcRecover''", simplified]
  proto_message_def [of "''RawArgs''", simplified]
  proto_message_def [of "''CreateFromBlueprint''", simplified]
  proto_message_def [of "''Sha256''", simplified]
  proto_message_def [of "''Keccak256''", simplified]
  proto_message_def [of "''PopArray''", simplified]
  proto_message_def [of "''RawCall''", simplified]
  proto_message_def [of "''EcAdd''", simplified]
  proto_message_def [of "''EcMul''", simplified]
  proto_message_def [of "''ConcatString''", simplified]
  proto_message_def [of "''StringTypeSize''", simplified]
  proto_message_def [of "''ConcatBytes''", simplified]
  proto_message_def [of "''BytesTypesSize''", simplified]
  proto_message_def [of "''TypedExpression''", simplified]
  proto_message_def [of "''FixedListAddress''", simplified]
  proto_message_def [of "''FixedListBool''", simplified]
  proto_message_def [of "''FixedListBytesM''", simplified]
  proto_message_def [of "''FixedListInt''", simplified]
  proto_message_def [of "''FixedListDecimal''", simplified]
  proto_message_def [of "''DynArrayAddress''", simplified]
  proto_message_def [of "''DynArrayBool''", simplified]
  proto_message_def [of "''DynArrayBytesM''", simplified]
  proto_message_def [of "''DynArrayInt''", simplified]
  proto_message_def [of "''DynArrayDecimal''", simplified]
  proto_message_def [of "''DynArrayString''", simplified]
  proto_message_def [of "''DynArrayByteArray''", simplified]
  proto_message_def [of "''DynArrayListAddress''", simplified]
  proto_message_def [of "''DynArrayListDecimal''", simplified]
  proto_message_def [of "''DynArrayListBool''", simplified]
  proto_message_def [of "''DynArrayListBytesM''", simplified]
  proto_message_def [of "''DynArrayListInt''", simplified]
  proto_message_def [of "''IfStmtCase''", simplified]
  proto_message_def [of "''IfStmt''", simplified]
  proto_message_def [of "''ForStmtRanged''", simplified]
  proto_message_def [of "''ForStmtVariable''", simplified]
  proto_message_def [of "''ForStmt''", simplified]
  proto_message_def [of "''VarDecl''", simplified]
  proto_message_def [of "''AssignmentStatement''", simplified]
  proto_message_def [of "''FuncCall''", simplified]
  proto_message_def [of "''Statement''", simplified]
  proto_message_def [of "''RawLog''", simplified]
  proto_message_def [of "''Block''", simplified]
  proto_message_def [of "''SendStatement''", simplified]
  proto_message_def [of "''Selfdestruct''", simplified]
  proto_message_def [of "''ExitStatement''", simplified]
  proto_message_def [of "''RaiseStatement''", simplified]
  proto_message_def [of "''RawRevert''", simplified]
  proto_message_def [of "''ReturnPayload''", simplified]
  proto_message_def [of "''AssertStatement''", simplified]
  proto_message_def [of "''AppendArray''", simplified]
  proto_message_def [of "''Reentrancy''", simplified]
  proto_message_def [of "''Func''", simplified]
  proto_message_def [of "''ContractInit''", simplified]
  proto_message_def [of "''DefaultFunc''", simplified]
  proto_message_def [of "''Contract''", simplified]

text \<open>Expressions and the operators and calls in them.\<close>

lemma expression_fields [schema]:
  "field_kind d ''BoolBinOp'' ''op'' = Some (KEnum 4)"
  "field_kind d ''BoolBinOp'' ''left'' = Some (KMsg ''BoolExpression'')"
  "field_kind d ''BoolBinOp'' ''right'' = Some (KMsg ''BoolExpression'')"
  "field_kind d ''IntBoolBinOp'' ''op'' = Some (KEnum 6)"
  "field_kind d ''IntBoolBinOp'' ''left'' = Some (KMsg ''IntExpression'')"
  "field_kind d ''IntBoolBinOp'' ''right'' = Some (KMsg ''IntExpression'')"
  "d \<Longrightarrow> field_kind d ''DecimalBoolBinOp'' ''op'' = Some (KEnum 6)"
  "d \<Longrightarrow> field_kind d ''DecimalBoolBinOp'' ''left'' = Some (KMsg ''DecimalExpression'')"
  "d \<Longrightarrow> field_kind d ''DecimalBoolBinOp'' ''right'' = Some (KMsg ''DecimalExpression'')"
  "field_kind d ''BoolUnOp'' ''expr'' = Some (KMsg ''BoolExpression'')"
  "field_kind d ''BoolExpression'' ''boolBinOp'' = Some (KMsg ''BoolBinOp'')"
  "field_kind d ''BoolExpression'' ''boolUnOp'' = Some (KMsg ''BoolUnOp'')"
  "field_kind d ''BoolExpression'' ''intBoolBinOp'' = Some (KMsg ''IntBoolBinOp'')"
  "d \<Longrightarrow> field_kind d ''BoolExpression'' ''decBoolBinOp'' = Some (KMsg ''DecimalBoolBinOp'')"
  "field_kind d ''BoolExpression'' ''lit'' = Some (KMsg ''Literal'')"
  "field_kind d ''BoolExpression'' ''varRef'' = Some (KMsg ''VarRef'')"
  "field_kind d ''BoolExpression'' ''raw_call'' = Some (KMsg ''RawCall'')"
  "field_kind d ''AddressExpression'' ''cmp'' = Some (KMsg ''CreateMinimalProxy'')"
  "field_kind d ''AddressExpression'' ''cfb'' = Some (KMsg ''CreateFromBlueprint'')"
  "field_kind d ''AddressExpression'' ''lit'' = Some (KMsg ''Literal'')"
  "field_kind d ''AddressExpression'' ''varRef'' = Some (KMsg ''VarRef'')"
  "field_kind d ''AddressExpression'' ''cco'' = Some (KMsg ''CreateCopyOf'')"
  "field_kind d ''AddressExpression'' ''ecRec'' = Some (KMsg ''EcRecover'')"
  "field_kind d ''IntBinOp'' ''op'' = Some (KEnum 11)"
  "field_kind d ''IntBinOp'' ''left'' = Some (KMsg ''IntExpression'')"
  "field_kind d ''IntBinOp'' ''right'' = Some (KMsg ''IntExpression'')"
  "field_kind d ''IntUnOp'' ''expr'' = Some (KMsg ''IntExpression'')"
  "d \<Longrightarrow> field_kind d ''DecimalBinOp'' ''op'' = Some (KEnum 5)"
  "d \<Longrightarrow> field_kind d ''DecimalBinOp'' ''left'' = Some (KMsg ''DecimalExpression'')"
  "d \<Longrightarrow> field_kind d ''DecimalBinOp'' ''right'' = Some (KMsg ''DecimalExpression'')"
  "d \<Longrightarrow> field_kind d ''DecimalUnOp'' ''expr'' = Some (KMsg ''DecimalExpression'')"
  "field_kind d ''IntExpression'' ''lit'' = Some (KMsg ''Literal'')"
  "field_kind d ''IntExpression'' ''binOp'' = Some (KMsg ''IntBinOp'')"
  "field_kind d ''IntExpression'' ''unOp'' = Some (KMsg ''IntUnOp'')"
  "field_kind d ''IntExpression'' ''varRef'' = Some (KMsg ''VarRef'')"
  "field_kind d ''ConvertFromInt'' ''exp'' = Some (KMsg ''IntExpression'')"
  "field_kind d ''ConvertFromInt'' ''i'' = Some (KMsg ''Int'')"
  "field_kind d ''ConvertFromBytesM'' ''exp'' = Some (KMsg ''BytesMExpression'')"
  "field_kind d ''ConvertFromBytesM'' ''bM'' = Some (KMsg ''BytesM'')"
  "field_kind d ''BytesMExpression'' ''sha'' = Some (KMsg ''Sha256'')"
  "field_kind d ''BytesMExpression'' ''varRef'' = Some (KMsg ''VarRef'')"
  "field_kind d ''BytesMExpression'' ''lit'' = Some (KMsg ''Literal'')"
  "field_kind d ''BytesMExpression'' ''keccak'' = Some (KMsg ''Keccak256'')"
  "field_kind d ''BytesExpression'' ''varRef'' = Some (KMsg ''VarRef'')"
  "field_kind d ''BytesExpression'' ''raw_call'' = Some (KMsg ''RawCall'')"
  "field_kind d ''BytesExpression'' ''lit'' = Some (KMsg ''Literal'')"
  "field_kind d ''BytesExpression'' ''concat'' = Some (KMsg ''ConcatBytes'')"
  "field_kind d ''StringExpression'' ''varRef'' = Some (KMsg ''VarRef'')"
  "field_kind d ''StringExpression'' ''concat'' = Some (KMsg ''ConcatString'')"
  "field_kind d ''StringExpression'' ''lit'' = Some (KMsg ''Literal'')"
  "d \<Longrightarrow> field_kind d ''DecimalExpression'' ''binOp'' = Some (KMsg ''DecimalBinOp'')"
  "d \<Longrightarrow> field_kind d ''DecimalExpression'' ''unOp'' = Some (KMsg ''DecimalUnOp'')"
  "d \<Longrightarrow> field_kind d ''DecimalExpression'' ''lit'' = Some (KMsg ''Literal'')"
  "d \<Longrightarrow> field_kind d ''DecimalExpression'' ''varRef'' = Some (KMsg ''VarRef'')"
  "field_kind d ''Literal'' ''intval'' = Some (KUInt 64)"
  "field_kind d ''Literal'' ''boolval'' = Some KBool"
  "d \<Longrightarrow> field_kind d ''Literal'' ''decimalval'' = Some (KUInt 64)"
  "field_kind d ''Literal'' ''bMval'' = Some KBytes"
  "field_kind d ''Literal'' ''strval'' = Some KString"
  "field_kind d ''Literal'' ''addval'' = Some (KUInt 64)"
  "field_kind d ''Literal'' ''barrval'' = Some (KUInt 64)"
  "field_kind d ''CreateMinimalProxy'' ''target'' = Some (KMsg ''AddressExpression'')"
  "field_kind d ''CreateMinimalProxy'' ''value'' = Some (KMsg ''IntExpression'')"
  "field_kind d ''CreateMinimalProxy'' ''salt'' = Some (KMsg ''BytesMExpression'')"
  "field_kind d ''CreateCopyOf'' ''target'' = Some (KMsg ''AddressExpression'')"
  "field_kind d ''CreateCopyOf'' ''value'' = Some (KMsg ''IntExpression'')"
  "field_kind d ''CreateCopyOf'' ''salt'' = Some (KMsg ''BytesMExpression'')"
  "field_kind d ''EcRecover'' ''hash'' = Some (KMsg ''BytesMExpression'')"
  "field_kind d ''EcRecover'' ''v8'' = Some (KMsg ''IntExpression'')"
  "field_kind d ''EcRecover'' ''vi'' = Some (KMsg ''IntExpression'')"
  "field_kind d ''EcRecover'' ''rb'' = Some (KMsg ''BytesMExpression'')"
  "field_kind d ''EcRecover'' ''ri'' = Some (KMsg ''IntExpression'')"
  "field_kind d ''EcRecover'' ''sb'' = Some (KMsg ''BytesMExpression'')"
  "field_kind d ''EcRecover'' ''si'' = Some (KMsg ''IntExpression'')"
  "field_kind d ''RawArgs'' ''arg'' = Some (KMsg ''BytesExpression'')"
  "field_kind d ''RawArgs'' ''flag'' = Some (KMsg ''Literal'')"
  "field_kind d ''CreateFromBlueprint'' ''target'' = Some (KMsg ''AddressExpression'')"
  "field_kind d ''CreateFromBlueprint'' ''rawArgs'' = Some (KMsg ''RawArgs'')"
  "field_kind d ''CreateFromBlueprint'' ''value'' = Some (KMsg ''IntExpression'')"
  "field_kind d ''CreateFromBlueprint'' ''code_offset'' = Some (KMsg ''IntExpression'')"
  "field_kind d ''CreateFromBlueprint'' ''salt'' = Some (KMsg ''BytesMExpression'')"
  "field_kind d ''Sha256'' ''strVal'' = Some (KMsg ''StringExpression'')"
  "field_kind d ''Sha256'' ''bVal'' = Some (KMsg ''BytesExpression'')"
  "field_kind d ''Sha256'' ''bmVal'' = Some (KMsg ''BytesMExpression'')"
  "field_kind d ''Keccak256'' ''strVal'' = Some (KMsg ''StringExpression'')"
  "field_kind d ''Keccak256'' ''bVal'' = Some (KMsg ''BytesExpression'')"
  "field_kind d ''Keccak256'' ''bmVal'' = Some (KMsg ''BytesMExpression'')"
  "field_kind d ''PopArray'' ''varRef'' = Some (KMsg ''VarRef'')"
  "field_kind d ''RawCall'' ''to'' = Some (KMsg ''AddressExpression'')"
  "field_kind d ''RawCall'' ''data'' = Some (KMsg ''BytesExpression'')"
  "field_kind d ''RawCall'' ''max_out'' = Some (KMsg ''Literal'')"
  "field_kind d ''RawCall'' ''gas'' = Some (KMsg ''IntExpression'')"
  "field_kind d ''RawCall'' ''value'' = Some (KMsg ''IntExpression'')"
  "field_kind d ''RawCall'' ''delegate'' = Some (KMsg ''Literal'')"
  "field_kind d ''RawCall'' ''static'' = Some (KMsg ''Literal'')"
  "field_kind d ''RawCall'' ''revert'' = Some (KMsg ''Literal'')"
  "field_kind d ''EcAdd'' ''x'' = Some (KMsg ''FixedListInt'')"
  "field_kind d ''EcAdd'' ''y'' = Some (KMsg ''FixedListInt'')"
  "field_kind d ''EcMul'' ''point'' = Some (KMsg ''FixedListInt'')"
  "field_kind d ''EcMul'' ''scalar'' = Some (KMsg ''IntExpression'')"
  "field_kind d ''ConcatString'' ''a'' = Some (KMsg ''StringTypeSize'')"
  "field_kind d ''ConcatString'' ''b'' = Some (KMsg ''StringTypeSize'')"
  "field_kind d ''ConcatString'' ''c'' = Some (KRep ''StringTypeSize'')"
  "field_kind d ''StringTypeSize'' ''s'' = Some (KMsg ''StringExpression'')"
  "field_kind d ''StringTypeSize'' ''s_size'' = Some (KUInt 32)"
  "field_kind d ''ConcatBytes'' ''a'' = Some (KMsg ''BytesTypesSize'')"
  "field_kind d ''ConcatBytes'' ''b'' = Some (KMsg ''BytesTypesSize'')"
  "field_kind d ''ConcatBytes'' ''c'' = Some (KRep ''BytesTypesSize'')"
  "field_kind d ''BytesTypesSize'' ''b_bm'' = Some (KMsg ''BytesMExpression'')"
  "field_kind d ''BytesTypesSize'' ''b_bs'' = Some (KMsg ''BytesExpression'')"
  "field_kind d ''BytesTypesSize'' ''s_size'' = Some (KUInt 32)"
  by (rule field_kindI; simp add: message_fields decimal_messages_def is_decimal_field_def)+

text \<open>Typed expressions and lists.\<close>

lemma list_fields [schema]:
  "field_kind d ''TypedExpression'' ''addrExp'' = Some (KMsg ''AddressExpression'')"
  "field_kind d ''TypedExpression'' ''boolExp'' = Some (KMsg ''BoolExpression'')"
  "field_kind d ''TypedExpression'' ''bmExp'' = Some (KMsg ''BytesMExpression'')"
  "field_kind d ''TypedExpression'' ''bExp'' = Some (KMsg ''BytesExpression'')"
  "field_kind d ''TypedExpression'' ''strExp'' = Some (KMsg ''StringExpression'')"
  "d \<Longrightarrow> field_kind d ''TypedExpression'' ''decExpression'' = Some (KMsg ''DecimalExpression'')"
  "field_kind d ''TypedExpression'' ''intExp'' = Some (KMsg ''IntExpression'')"
  "field_kind d ''TypedExpression'' ''addrList'' = Some (KMsg ''FixedListAddress'')"
  "field_kind d ''TypedExpression'' ''boolList'' = Some (KMsg ''FixedListBool'')"
  "field_kind d ''TypedExpression'' ''bmList'' = Some (KMsg ''FixedListBytesM'')"
  "field_kind d ''TypedExpression'' ''intList'' = Some (KMsg ''FixedListInt'')"
  "d \<Longrightarrow> field_kind d ''TypedExpression'' ''decList'' = Some (KMsg ''FixedListDecimal'')"
  "field_kind d ''TypedExpression'' ''addrDyn'' = Some (KMsg ''DynArrayAddress'')"
  "field_kind d ''TypedExpression'' ''boolDyn'' = Some (KMsg ''DynArrayBool'')"
  "field_kind d ''TypedExpression'' ''bmDyn'' = Some (KMsg ''DynArrayBytesM'')"
  "field_kind d ''TypedExpression'' ''intDyn'' = Some (KMsg ''DynArrayInt'')"
  "d \<Longrightarrow> field_kind d ''TypedExpression'' ''decDyn'' = Some (KMsg ''DynArrayDecimal'')"
  "field_kind d ''TypedExpression'' ''strDyn'' = Some (KMsg ''DynArrayString'')"
  "field_kind d ''TypedExpression'' ''bytesDyn'' = Some (KMsg ''DynArrayByteArray'')"
  "field_kind d ''TypedExpression'' ''ladrDyn'' = Some (KMsg ''DynArrayListAddress'')"
  "d \<Longrightarrow> field_kind d ''TypedExpression'' ''ldecDyn'' = Some (KMsg ''DynArrayListDecimal'')"
  "field_kind d ''TypedExpression'' ''lboolByn'' = Some (KMsg ''DynArrayListBool'')"
  "field_kind d ''TypedExpression'' ''lbmDyn'' = Some (KMsg ''DynArrayListBytesM'')"
  "field_kind d ''TypedExpression'' ''lintDyn'' = Some (KMsg ''DynArrayListInt'')"
  "field_kind d ''FixedListAddress'' ''rexp'' = Some (KMsg ''AddressExpression'')"
  "field_kind d ''FixedListAddress'' ''exp'' = Some (KRep ''AddressExpression'')"
  "field_kind d ''FixedListAddress'' ''varRef'' = Some (KMsg ''VarRef'')"
  "field_kind d ''FixedListBool'' ''rexp'' = Some (KMsg ''BoolExpression'')"
  "field_kind d ''FixedListBool'' ''exp'' = Some (KRep ''BoolExpression'')"
  "field_kind d ''FixedListBool'' ''varRef'' = Some (KMsg ''VarRef'')"
  "field_kind d ''FixedListBytesM'' ''rexp'' = Some (KMsg ''BytesMExpression'')"
  "field_kind d ''FixedListBytesM'' ''exp'' = Some (KRep ''BytesMExpression'')"
  "field_kind d ''FixedListBytesM'' ''varRef'' = Some (KMsg ''VarRef'')"
  "field_kind d ''FixedListInt'' ''rexp'' = Some (KMsg ''IntExpression'')"
  "field_kind d ''FixedListInt'' ''exp'' = Some (KRep ''IntExpression'')"
  "field_kind d ''FixedListInt'' ''varRef'' = Some (KMsg ''VarRef'')"
  "field_kind d ''FixedListInt'' ''ecadd'' = Some (KMsg ''EcAdd'')"
  "field_kind d ''FixedListInt'' ''ecmul'' = Some (KMsg ''EcMul'')"
  "d \<Longrightarrow> field_kind d ''FixedListDecimal'' ''rexp'' = Some (KMsg ''DecimalExpression'')"
  "d \<Longrightarrow> field_kind d ''FixedListDecimal'' ''exp'' = Some (KRep ''DecimalExpression'')"
  "d \<Longrightarrow> field_kind d ''FixedListDecimal'' ''varRef'' = Some (KMsg ''VarRef'')"
  "field_kind d ''DynArrayAddress'' ''rexp'' = Some (KMsg ''AddressExpression'')"
  "field_kind d ''DynArrayAddress'' ''exp'' = Some (KRep ''AddressExpression'')"
  "field_kind d ''DynArrayAddress'' ''varRef'' = Some (KMsg ''VarRef'')"
  "field_kind d ''DynArrayBool'' ''rexp'' = Some (KMsg ''BoolExpression'')"
  "field_kind d ''DynArrayBool'' ''exp'' = Some (KRep ''BoolExpression'')"
  "field_kind d ''DynArrayBool'' ''varRef'' = Some (KMsg ''VarRef'')"
  "field_kind d ''DynArrayBytesM'' ''rexp'' = Some (KMsg ''BytesMExpression'')"
  "field_kind d ''DynArrayBytesM'' ''exp'' = Some (KRep ''BytesMExpression'')"
  "field_kind d ''DynArrayBytesM'' ''varRef'' = Some (KMsg ''VarRef'')"
  "field_kind d ''DynArrayInt'' ''rexp'' = Some (KMsg ''IntExpression'')"
  "field_kind d ''DynArrayInt'' ''exp'' = Some (KRep ''IntExpression'')"
  "field_kind d ''DynArrayInt'' ''varRef'' = Some (KMsg ''VarRef'')"
  "d \<Longrightarrow> field_kind d ''DynArrayDecimal'' ''rexp'' = Some (KMsg ''DecimalExpression'')"
  "d \<Longrightarrow> field_kind d ''DynArrayDecimal'' ''exp'' = Some (KRep ''DecimalExpression'')"
  "d \<Longrightarrow> field_kind d ''DynArrayDecimal'' ''varRef'' = Some (KMsg ''VarRef'')"
  "field_kind d ''DynArrayString'' ''rexp'' = Some (KMsg ''StringExpression'')"
  "field_kind d ''DynArrayString'' ''exp'' = Some (KRep ''StringExpression'')"
  "field_kind d ''DynArrayString'' ''varRef'' = Some (KMsg ''VarRef'')"
  "field_kind d ''DynArrayByteArray'' ''rexp'' = Some (KMsg ''BytesExpression'')"
  "field_kind d ''DynArrayByteArray'' ''exp'' = Some (KRep ''BytesExpression'')"
  "field_kind d ''DynArrayByteArray'' ''varRef'' = Some (KMsg ''VarRef'')"
  "field_kind d ''DynArrayListAddress'' ''rexp'' = Some (KMsg ''FixedListAddress'')"
  "field_kind d ''DynArrayListAddress'' ''exp'' = Some (KRep ''FixedListAddress'')"
  "field_kind d ''DynArrayListAddress'' ''varRef'' = Some (KMsg ''VarRef'')"
  "d \<Longrightarrow> field_kind d ''DynArrayListDecimal'' ''rexp'' = Some (KMsg ''FixedListDecimal'')"
  "d \<Longrightarrow> field_kind d ''DynArrayListDecimal'' ''exp'' = Some (KRep ''FixedListDecimal'')"
  "d \<Longrightarrow> field_kind d ''DynArrayListDecimal'' ''varRef'' = Some (KMsg ''VarRef'')"
  "field_kind d ''DynArrayListBool'' ''rexp'' = Some (KMsg ''FixedListBool'')"
  "field_kind d ''DynArrayListBool'' ''exp'' = Some (KRep ''FixedListBool'')"
  "field_kind d ''DynArrayListBool'' ''varRef'' = Some (KMsg ''VarRef'')"
  "field_kind d ''DynArrayListBytesM'' ''rexp'' = Some (KMsg ''FixedListBytesM'')"
  "field_kind d ''DynArrayListBytesM'' ''exp'' = Some (KRep ''FixedListBytesM'')"
  "field_kind d ''DynArrayListBytesM'' ''varRef'' = Some (KMsg ''VarRef'')"
  "field_kind d ''DynArrayListInt'' ''rexp'' = Some (KMsg ''FixedListInt'')"
  "field_kind d ''DynArrayListInt'' ''exp'' = Some (KRep ''FixedListInt'')"
  "field_kind d ''DynArrayListInt'' ''varRef'' = Some (KMsg ''VarRef'')"
  by (rule field_kindI; simp add: message_fields decimal_messages_def is_decimal_field_def)+

text \<open>Statements and blocks.\<close>

lemma statement_fields [schema]:
  "field_kind d ''IfStmtCase'' ''cond'' = Some (KMsg ''BoolExpression'')"
  "field_kind d ''IfStmtCase'' ''if_body'' = Some (KMsg ''Block'')"
  "field_kind d ''IfStmt'' ''cases'' = Some (KRep ''IfStmtCase'')"
  "field_kind d ''IfStmt'' ''else_case'' = Some (KMsg ''Block'')"
  "field_kind d ''ForStmtRanged'' ''start'' = Some (KSInt 32)"
  "field_kind d ''ForStmtRanged'' ''stop'' = Some (KSInt 32)"
  "field_kind d ''ForStmtVariable'' ''ref_id'' = Some (KMsg ''VarRef'')"
  "field_kind d ''ForStmtVariable'' ''length'' = Some (KUInt 32)"
  "field_kind d ''ForStmt'' ''ranged'' = Some (KMsg ''ForStmtRanged'')"
  "field_kind d ''ForStmt'' ''variable'' = Some (KMsg ''ForStmtVariable'')"
  "field_kind d ''ForStmt'' ''body'' = Some (KMsg ''Block'')"
  "field_kind d ''VarDecl'' ''expr'' = Some (KMsg ''TypedExpression'')"
  "field_kind d ''VarDecl'' ''mut'' = Some (KEnum 3)"
  "field_kind d ''AssignmentStatement'' ''ref_id'' = Some (KMsg ''VarRef'')"
  "field_kind d ''AssignmentStatement'' ''expr'' = Some (KMsg ''TypedExpression'')"
  "field_kind d ''FuncCall'' ''func_num'' = Some (KUInt 32)"
  "field_kind d ''FuncCall'' ''params'' = Some (KMsg ''ReturnPayload'')"
  "field_kind d ''Statement'' ''decl'' = Some (KMsg ''VarDecl'')"
  "field_kind d ''Statement'' ''assignment'' = Some (KMsg ''AssignmentStatement'')"
  "field_kind d ''Statement'' ''for_stmt'' = Some (KMsg ''ForStmt'')"
  "field_kind d ''Statement'' ''if_stmt'' = Some (KMsg ''IfStmt'')"
  "field_kind d ''Statement'' ''func_call'' = Some (KMsg ''FuncCall'')"
  "field_kind d ''Statement'' ''cont_stmt'' = Some (KMsg ''ContinueStatement'')"
  "field_kind d ''Statement'' ''break_stmt'' = Some (KMsg ''BreakStatement'')"
  "field_kind d ''Statement'' ''assert_stmt'' = Some (KMsg ''AssertStatement'')"
  "field_kind d ''Statement'' ''append_stmt'' = Some (KMsg ''AppendArray'')"
  "field_kind d ''Statement'' ''pop_stmt'' = Some (KMsg ''PopArray'')"
  "field_kind d ''Statement'' ''send_stmt'' = Some (KMsg ''SendStatement'')"
  "field_kind d ''Statement'' ''raw_call'' = Some (KMsg ''RawCall'')"
  "field_kind d ''Statement'' ''raw_log'' = Some (KMsg ''RawLog'')"
  "field_kind d ''RawLog'' ''topics'' = Some (KMsg ''FixedListBytesM'')"
  "field_kind d ''RawLog'' ''topic_amount'' = Some (KUInt 32)"
  "field_kind d ''RawLog'' ''data_bs'' = Some (KMsg ''BytesExpression'')"
  "field_kind d ''RawLog'' ''data_bm'' = Some (KMsg ''BytesMExpression'')"
  "field_kind d ''Block'' ''statements'' = Some (KRep ''Statement'')"
  "field_kind d ''Block'' ''exit_d'' = Some (KMsg ''ExitStatement'')"
  "field_kind d ''SendStatement'' ''to'' = Some (KMsg ''AddressExpression'')"
  "field_kind d ''SendStatement'' ''amount'' = Some (KMsg ''IntExpression'')"
  "field_kind d ''SendStatement'' ''gas'' = Some (KMsg ''IntExpression'')"
  "field_kind d ''Selfdestruct'' ''to'' = Some (KMsg ''AddressExpression'')"
  "field_kind d ''ExitStatement'' ''flag'' = Some KBool"
  "field_kind d ''ExitStatement'' ''payload'' = Some (KMsg ''ReturnPayload'')"
  "field_kind d ''ExitStatement'' ''selfd'' = Some (KMsg ''Selfdestruct'')"
  "field_kind d ''ExitStatement'' ''raise_st'' = Some (KMsg ''RaiseStatement'')"
  "field_kind d ''ExitStatement'' ''raw_revert'' = Some (KMsg ''RawRevert'')"
  "field_kind d ''RaiseStatement'' ''errval'' = Some (KMsg ''StringExpression'')"
  "field_kind d ''RawRevert'' ''data'' = Some (KMsg ''BytesExpression'')"
  "field_kind d ''ReturnPayload'' ''one'' = Some (KMsg ''TypedExpression'')"
  "field_kind d ''ReturnPayload'' ''two'' = Some (KMsg ''TypedExpression'')"
  "field_kind d ''ReturnPayload'' ''three'' = Some (KMsg ''TypedExpression'')"
  "field_kind d ''ReturnPayload'' ''four'' = Some (KMsg ''TypedExpression'')"
  "field_kind d ''ReturnPayload'' ''five'' = Some (KMsg ''TypedExpression'')"
  "field_kind d ''AssertStatement'' ''cond'' = Some (KMsg ''BoolExpression'')"
  "field_kind d ''AssertStatement'' ''reason'' = Some (KMsg ''StringExpression'')"
  "field_kind d ''AppendArray'' ''expr'' = Some (KMsg ''TypedExpression'')"
  by (rule field_kindI; simp add: message_fields decimal_messages_def is_decimal_field_def)+

text \<open>Functions and contracts.\<close>

lemma contract_fields [schema]:
  "field_kind d ''Reentrancy'' ''key'' = Some KString"
  "field_kind d ''Func'' ''vis'' = Some (KEnum 2)"
  "field_kind d ''Func'' ''mut'' = Some (KEnum 4)"
  "field_kind d ''Func'' ''ret'' = Some (KMsg ''Reentrancy'')"
  "field_kind d ''Func'' ''input_params'' = Some (KRep ''FuncParam'')"
  "field_kind d ''Func'' ''output_params'' = Some (KRep ''FuncParam'')"
  "field_kind d ''Func'' ''block'' = Some (KMsg ''Block'')"
  "field_kind d ''ContractInit'' ''mut'' = Some (KEnum 2)"
  "field_kind d ''ContractInit'' ''input_params'' = Some (KRep ''FuncParam'')"
  "field_kind d ''ContractInit'' ''block'' = Some (KMsg ''Block'')"
  "field_kind d ''ContractInit'' ''flag'' = Some KBool"
  "field_kind d ''DefaultFunc'' ''mut'' = Some (KEnum 4)"
  "field_kind d ''DefaultFunc'' ''ret'' = Some (KMsg ''Reentrancy'')"
  "field_kind d ''DefaultFunc'' ''output_params'' = Some (KRep ''FuncParam'')"
  "field_kind d ''DefaultFunc'' ''block'' = Some (KMsg ''Block'')"
  "field_kind d ''Contract'' ''decls'' = Some (KRep ''VarDecl'')"
  "field_kind d ''Contract'' ''functions'' = Some (KRep ''Func'')"
  "field_kind d ''Contract'' ''init'' = Some (KMsg ''ContractInit'')"
  "field_kind d ''Contract'' ''def_func'' = Some (KMsg ''DefaultFunc'')"
  by (rule field_kindI; simp add: message_fields decimal_messages_def is_decimal_field_def)+

end
