(* ===== verification/Conv_Safe.thy ===== *)
theory Conv_Safe imports Conv_Contract Msg_Schema begin

text \<open>
  A logic for the exceptions of the converter. \<open>safe P m\<close> says that from a state with
  \<open>P\<close> the method \<open>m\<close> either returns to such a state or raises one of the expected
  errors. The rules push the claim through the monad; a rule that reads a field of a conforming
  message gives the rest of the method a conforming message of the declared type.
\<close>

section \<open>Nesting of messages\<close>

fun nesting :: "msg \<Rightarrow> nat" and nesting_val :: "fval \<Rightarrow> nat" where
  "nesting (Msg t fs) = fold (\<lambda>p n. max (nesting_val (snd p)) n) fs 0"
| "nesting_val (VMsg m) = Suc (nesting m)"
| "nesting_val (VRep ms) = fold (\<lambda>m n. max (Suc (nesting m)) n) ms 0"
| "nesting_val v = 0"

lemma fold_max_ge: "a \<le> fold (\<lambda>x n. max (f x) n) xs a" for f :: "'a \<Rightarrow> nat"
proof (induction xs arbitrary: a)
  case (Cons x xs)
  have "a \<le> max (f x) a" by simp
  also have "\<dots> \<le> fold (\<lambda>x n. max (f x) n) xs (max (f x) a)" by (rule Cons.IH)
  finally show ?case by simp
qed simp

lemma fold_max_mem: "x \<in> set xs \<Longrightarrow> f x \<le> fold (\<lambda>x n. max (f x) n) xs a" for f :: "'a \<Rightarrow> nat"
proof (induction xs arbitrary: a)
  case (Cons y ys)
  show ?case
  proof (cases "x = y")
    case True
    then show ?thesis using fold_max_ge [of "max (f y) a" f ys] by simp
  qed (use Cons in simp)
qed simp

lemma nesting_present: "present m f = Some v \<Longrightarrow> nesting_val v \<le> nesting m"
  using fold_max_mem [of "(f, v)" "mfields m" "nesting_val \<circ> snd" 0]
  by (cases m) (auto simp: present_def dest: map_of_SomeD)

lemma nesting_rep: "x \<in> set xs \<Longrightarrow> nesting x < nesting_val (VRep xs)"
  using fold_max_mem [of x xs "Suc \<circ> nesting" 0] by (simp add: Suc_le_eq)

text \<open>
  The message of a list is read even when it is absent; such messages form chains of at most two.
\<close>

definition list_rank :: "string \<Rightarrow> nat" where
  "list_rank t =
     (if take 12 t = ''DynArrayList'' then 2
      else if take 8 t = ''DynArray'' \<or> take 9 t = ''FixedList'' then 1 else 0)"

definition weight :: "msg \<Rightarrow> nat" where
  "weight m = 3 * nesting m + list_rank (mtype m)"

text \<open>\<open>n\<close> frames are enough for the messages that are nested no deeper than this one.\<close>

definition deep :: "nat \<Rightarrow> msg \<Rightarrow> bool" where
  "deep n m \<longleftrightarrow> 3 * nesting m + 2 < n"

lemma list_rank_le: "list_rank t \<le> 2"
  by (simp add: list_rank_def)

lemma deepD: "deep n m \<Longrightarrow> nesting x \<le> nesting m \<Longrightarrow> weight x < n"
  using list_rank_le [of "mtype x"] by (simp add: deep_def weight_def)

lemma deep_le: "deep n m \<Longrightarrow> nesting x \<le> nesting m \<Longrightarrow> deep n x"
  by (simp add: deep_def)

lemma deep_sub: "weight m \<le> n \<Longrightarrow> nesting x < nesting m \<Longrightarrow> deep n x"
  by (simp add: deep_def weight_def)

lemma weight_sub: "weight m \<le> n \<Longrightarrow> nesting x < nesting m \<Longrightarrow> weight x < n"
  using deep_sub deepD by blast

lemma weight_rank:
  "weight m \<le> n \<Longrightarrow> nesting x \<le> nesting m \<Longrightarrow> list_rank (mtype x) < list_rank (mtype m) \<Longrightarrow> weight x < n"
  by (simp add: weight_def)

section \<open>Conforming messages of a type\<close>

definition good :: "cenv \<Rightarrow> string \<Rightarrow> msg \<Rightarrow> bool" where
  "good C t m \<longleftrightarrow> mtype m = t \<and> conforms (decimals (penv C)) m"

abbreviation kind_of :: "cenv \<Rightarrow> string \<Rightarrow> string \<Rightarrow> fkind option" where
  "kind_of C t f \<equiv> field_kind (decimals (penv C)) t f"

lemma good_sub:
  assumes "good C t m" and "kind_of C t f = Some (KMsg u)"
  obtains x where "get_msg (decimals (penv C)) m f = Inr x" and "good C u x" and "nesting x \<le> nesting m"
    and "present m f \<noteq> None \<Longrightarrow> nesting x < nesting m"
proof (cases "present m f")
  case None
  then show thesis using assms that [of "Msg u []"] by (simp add: good_def get_msg_def)
next
  case (Some v)
  then obtain x where "v = VMsg x" "mtype x = u" "conforms (decimals (penv C)) x"
    using assms conforms_present [of "decimals (penv C)" m f v]
    by (auto simp: good_def conforms_val_KMsg)
  then show thesis using assms Some nesting_present [OF Some] that [of x] by (simp add: good_def get_msg_def)
qed

lemma good_rep:
  assumes "good C t m" and "kind_of C t f = Some (KRep u)"
  obtains xs where "get_rep (decimals (penv C)) m f = Inr xs"
    and "\<And>x. x \<in> set xs \<Longrightarrow> good C u x \<and> nesting x < nesting m"
proof (cases "present m f")
  case None
  then show thesis using assms that [of "[]"] by (simp add: good_def get_rep_def)
next
  case (Some v)
  then obtain xs where xs: "v = VRep xs" "\<forall>x \<in> set xs. mtype x = u \<and> conforms (decimals (penv C)) x"
    using assms conforms_present [of "decimals (penv C)" m f v]
    by (auto simp: good_def conforms_val_KRep)
  have "nesting x < nesting m" if "x \<in> set xs" for x
    using nesting_rep [OF that] nesting_present [OF Some] xs(1) by simp
  then show thesis using assms Some xs that [of xs] by (simp add: good_def get_rep_def)
qed

definition int_of_kind :: "fkind \<Rightarrow> int \<Rightarrow> bool" where
  "int_of_kind k i =
     (case k of KUInt w \<Rightarrow> 0 \<le> i | KEnum c \<Rightarrow> 0 \<le> i \<and> (i < int c \<or> i = 0) | _ \<Rightarrow> True)"

lemma good_num:
  assumes "good C t m" and "kind_of C t f = Some k" and "is_int_kind k"
  obtains i where "get_int (decimals (penv C)) m f = Inr i" and "int_of_kind k i"
proof (cases "present m f")
  case None
  then show thesis using assms that [of 0]
    by (simp add: good_def get_int_def int_of_kind_def split: fkind.split)
next
  case (Some v)
  then have "conforms_val (decimals (penv C)) k v"
    using assms conforms_present [of "decimals (penv C)" m f v] by (auto simp: good_def)
  then obtain i where "v = VInt i" "int_of_kind k i"
    using assms(3) by (cases k; cases v) (auto simp: is_int_kind_def int_of_kind_def)
  then show thesis using assms Some that [of i] by (simp add: good_def get_int_def)
qed

lemma good_flag:
  assumes "good C t m" and "kind_of C t f = Some KBool"
  obtains b where "get_bool (decimals (penv C)) m f = Inr b"
  using assms get_bool_conforms [of "decimals (penv C)" m f] by (auto simp: good_def)

lemma good_HasField:
  "good C t m \<Longrightarrow> kind_of C t f = Some (KMsg u) \<Longrightarrow>
     HasField (decimals (penv C)) m f = Inr (present m f \<noteq> None)"
  by (simp add: good_def HasField_def)

section \<open>The logic\<close>

text \<open>
  What a conversion of a conforming message may raise: the pair of a dynamic array is asked for a
  field it does not have, a cyclic call was removed before, a complex power or a float shift is
  compared, and a random decimal does not fit into a float.
\<close>

definition expected_error :: "py_error \<Rightarrow> bool" where
  "expected_error e \<longleftrightarrow>
     e \<in> {ValueError ''ecadd'', ValueError ''list.remove(x): x not in list'', TypeError ''<'',
          TypeError ''>'', TypeError ''%'', OverflowError}"

definition safe :: "('s \<Rightarrow> bool) \<Rightarrow> ('s, 'a) stm \<Rightarrow> bool" where
  "safe P m \<longleftrightarrow> (\<forall>s. P s \<longrightarrow> (case m s of Inl e \<Rightarrow> expected_error e | Inr (x, t) \<Rightarrow> P t))"

named_theorems safe_rules "rules of the logic that need no choice"

lemma safeI:
  assumes "\<And>s e. P s \<Longrightarrow> m s = Inl e \<Longrightarrow> expected_error e" and "\<And>s x t. P s \<Longrightarrow> m s = Inr (x, t) \<Longrightarrow> P t"
  shows "safe P m"
  using assms by (auto simp: safe_def split: sum.split)

lemma safe_error: "safe P m \<Longrightarrow> P s \<Longrightarrow> m s = Inl e \<Longrightarrow> expected_error e"
  by (auto simp: safe_def)

lemma safe_post: "safe P m \<Longrightarrow> P s \<Longrightarrow> m s = Inr (x, t) \<Longrightarrow> P t"
  by (force simp: safe_def)

lemma safe_return [safe_rules]: "safe P (returnM x)"
  by (simp add: safe_def)

lemma safe_get [safe_rules]: "safe P (getM f)"
  by (simp add: safe_def)

lemma safe_mod: "(\<And>s. P s \<Longrightarrow> P (f s)) \<Longrightarrow> safe P (modM f)"
  by (simp add: safe_def)

lemma safe_lift: "(\<And>e. r = Inl e \<Longrightarrow> expected_error e) \<Longrightarrow> safe P (liftR r)"
  by (cases r) (simp_all add: safe_def)

lemma safe_bind:
  assumes "safe P m" and "\<And>x. safe P (k x)"
  shows "safe P (bindM m k)"
proof (rule safeI)
  fix s e
  assume P: "P s" and run: "bindM m k s = Inl e"
  show "expected_error e"
  proof (cases "m s")
    case (Inl e')
    then show ?thesis using safe_error [OF assms(1) P Inl] run by (simp add: bindM_def)
  next
    case (Inr p)
    obtain x t where p: "p = (x, t)" by (cases p)
    have "P t" using safe_post [OF assms(1) P] Inr p by simp
    then show ?thesis using safe_error [OF assms(2)] run Inr p by (simp add: bindM_def)
  qed
next
  fix s y u
  assume P: "P s" and run: "bindM m k s = Inr (y, u)"
  obtain x t where m: "m s = Inr (x, t)" and k: "k x t = Inr (y, u)" using run by (rule bindM_InrE)
  show "P u" by (rule safe_post [OF assms(2) _ k]) (rule safe_post [OF assms(1) P m])
qed

lemma safe_bind_get [safe_rules]: "(\<And>s. P s \<Longrightarrow> safe P (k (f s))) \<Longrightarrow> safe P (bindM (getM f) k)"
  by (simp add: safe_def bindM_def)

lemma safe_bind_lift:
  assumes "\<And>e. r = Inl e \<Longrightarrow> expected_error e" and "\<And>x. r = Inr x \<Longrightarrow> safe P (k x)"
  shows "safe P (bindM (liftR r) k)"
  using assms by (cases r) (simp_all add: safe_def bindM_def)

lemma bind_liftR [simp]: "bindM (liftR (Inr x)) k = k x"
  by (simp add: bindM_def fun_eq_iff)

lemma safe_if [safe_rules]: "(b \<Longrightarrow> safe P m) \<Longrightarrow> (\<not> b \<Longrightarrow> safe P n) \<Longrightarrow> safe P (if b then m else n)"
  by simp

lemma safe_option [safe_rules]:
  "safe P n \<Longrightarrow> (\<And>x. safe P (f x)) \<Longrightarrow> safe P (case z of None \<Rightarrow> n | Some x \<Rightarrow> f x)"
  by (simp split: option.split)

lemma safe_prod [safe_rules]: "(\<And>a b. safe P (f a b)) \<Longrightarrow> safe P (case p of (a, b) \<Rightarrow> f a b)"
  by (simp split: prod.split)

lemma safe_or_else [safe_rules]: "safe P m \<Longrightarrow> safe P k \<Longrightarrow> safe P (or_else m k)"
  unfolding or_else_def by (intro safe_bind safe_option safe_return)

lemma safe_first_of [safe_rules]:
  "safe P (first_of [])" "safe P m \<Longrightarrow> safe P (first_of ms) \<Longrightarrow> safe P (first_of (m # ms))"
  by (auto intro!: safe_bind safe_option safe_return)

text \<open>The same between different states, for methods that leave something behind.\<close>

definition safe_to :: "('s \<Rightarrow> bool) \<Rightarrow> ('s \<Rightarrow> bool) \<Rightarrow> ('s, 'a) stm \<Rightarrow> bool" where
  "safe_to P R m \<longleftrightarrow> (\<forall>s. P s \<longrightarrow> (case m s of Inl e \<Rightarrow> expected_error e | Inr (x, t) \<Rightarrow> R t))"

lemma safe_toI: "safe P m \<Longrightarrow> (\<And>s. A s \<Longrightarrow> P s) \<Longrightarrow> (\<And>s. P s \<Longrightarrow> R s) \<Longrightarrow> safe_to A R m"
  unfolding safe_to_def safe_def by (fastforce split: sum.split)

lemma safe_to_get: "(\<And>s. A s \<Longrightarrow> safe_to A R (k (f s))) \<Longrightarrow> safe_to A R (bindM (getM f) k)"
  by (simp add: safe_to_def bindM_def)

lemma safe_to_bind:
  assumes "safe_to A B m" and "\<And>x. safe_to B R (k x)"
  shows "safe_to A R (bindM m k)"
  unfolding safe_to_def
proof (intro allI impI)
  fix s
  assume A: "A s"
  show "case bindM m k s of Inl e \<Rightarrow> expected_error e | Inr (x, t) \<Rightarrow> R t"
  proof (cases "m s")
    case (Inl e)
    then show ?thesis using assms(1) A unfolding safe_to_def by (force simp: bindM_def)
  next
    case (Inr p)
    obtain x t where p: "p = (x, t)" by (cases p)
    then have "B t" using assms(1) A Inr unfolding safe_to_def by force
    then have "case k x t of Inl e \<Rightarrow> expected_error e | Inr (y, u) \<Rightarrow> R u"
      using assms(2) [of x] unfolding safe_to_def by blast
    then show ?thesis by (simp add: bindM_def Inr p)
  qed
qed

text \<open>A fact about the value a method returned and the state after it.\<close>

lemma safe_bind_post:
  assumes "safe P m" and "\<And>s x t. P s \<Longrightarrow> m s = Inr (x, t) \<Longrightarrow> S x t"
    and "\<And>x. safe_to (\<lambda>t. P t \<and> S x t) P (k x)"
  shows "safe P (bindM m k)"
proof (rule safeI)
  fix s e
  assume P: "P s" and run: "bindM m k s = Inl e"
  show "expected_error e"
  proof (cases "m s")
    case (Inl e')
    then show ?thesis using safe_error [OF assms(1) P Inl] run by (simp add: bindM_def)
  next
    case (Inr p)
    obtain x t where p: "p = (x, t)" by (cases p)
    have "P t \<and> S x t" using safe_post [OF assms(1) P] assms(2) [OF P] Inr p by blast
    then have "case k x t of Inl e \<Rightarrow> expected_error e | Inr (y, u) \<Rightarrow> P u"
      using assms(3) [of x] unfolding safe_to_def by blast
    then show ?thesis using run Inr p by (simp add: bindM_def)
  qed
next
  fix s y u
  assume P: "P s" and run: "bindM m k s = Inr (y, u)"
  obtain x t where m: "m s = Inr (x, t)" and k: "k x t = Inr (y, u)" using run by (rule bindM_InrE)
  have "P t \<and> S x t" using safe_post [OF assms(1) P m] assms(2) [OF P m] by blast
  then have "case k x t of Inl e \<Rightarrow> expected_error e | Inr (y, u) \<Rightarrow> P u"
    using assms(3) [of x] unfolding safe_to_def by blast
  then show "P u" using k by simp
qed

section \<open>Fields\<close>

lemma safe_sub [safe_rules]:
  assumes "good C t m" and "kind_of C t f = Some (KMsg u)"
    and "\<And>x. good C u x \<Longrightarrow> nesting x \<le> nesting m \<Longrightarrow> safe P (k x)"
  shows "safe P (bindM (sub C m f) k)"
proof -
  obtain x where "get_msg (decimals (penv C)) m f = Inr x" "good C u x" "nesting x \<le> nesting m"
    using good_sub [OF assms(1,2)] by metis
  then show ?thesis using assms(3) by (simp add: sub_def)
qed

lemma safe_to_sub:
  assumes "good C t m" and "kind_of C t f = Some (KMsg u)"
    and "\<And>x. good C u x \<Longrightarrow> nesting x \<le> nesting m \<Longrightarrow> safe_to A R (k x)"
  shows "safe_to A R (bindM (sub C m f) k)"
proof -
  obtain x where "get_msg (decimals (penv C)) m f = Inr x" "good C u x" "nesting x \<le> nesting m"
    using good_sub [OF assms(1,2)] by metis
  then show ?thesis using assms(3) by (simp add: sub_def)
qed

lemma safe_rep [safe_rules]:
  assumes "good C t m" and "kind_of C t f = Some (KRep u)"
    and "\<And>xs. (\<And>x. x \<in> set xs \<Longrightarrow> good C u x \<and> nesting x < nesting m) \<Longrightarrow> safe P (k xs)"
  shows "safe P (bindM (rep C m f) k)"
proof -
  obtain xs where xs: "get_rep (decimals (penv C)) m f = Inr xs"
    and el: "\<And>x. x \<in> set xs \<Longrightarrow> good C u x \<and> nesting x < nesting m"
    using good_rep [OF assms(1,2)] by blast
  have "safe P (k xs)" using assms(3) el by blast
  then show ?thesis by (simp add: rep_def xs)
qed

lemma safe_num [safe_rules]:
  assumes "good C t m" and "kind_of C t f = Some q" and "is_int_kind q"
    and "\<And>i. int_of_kind q i \<Longrightarrow> safe P (k i)"
  shows "safe P (bindM (num C m f) k)"
proof -
  obtain i where "get_int (decimals (penv C)) m f = Inr i" "int_of_kind q i"
    using good_num [OF assms(1-3)] by metis
  then show ?thesis using assms(4) by (simp add: num_def)
qed

lemma safe_flag [safe_rules]:
  assumes "good C t m" and "kind_of C t f = Some KBool" and "\<And>b. safe P (k b)"
  shows "safe P (bindM (flag C m f) k)"
proof -
  obtain b where "get_bool (decimals (penv C)) m f = Inr b" using good_flag [OF assms(1,2)] by metis
  then show ?thesis using assms(3) by (simp add: flag_def)
qed

lemma safe_has [safe_rules]:
  assumes "good C t m" and "kind_of C t f = Some (KMsg u)" and "\<And>b. safe P (k b)"
  shows "safe P (bindM (has C m f) k)"
  using assms by (simp add: has_def good_HasField)

text \<open>The message of a field that is set is nested less deep.\<close>

lemma safe_has_sub:
  assumes "good C t m" and "kind_of C t f = Some (KMsg u)" and "safe P n"
    and "\<And>x. good C u x \<Longrightarrow> nesting x < nesting m \<Longrightarrow> safe P (k x)"
  shows "safe P (bindM (has C m f) (\<lambda>b. if b then bindM (sub C m f) k else n))"
proof -
  obtain x where "get_msg (decimals (penv C)) m f = Inr x" "good C u x"
    "present m f \<noteq> None \<Longrightarrow> nesting x < nesting m" using good_sub [OF assms(1,2)] by metis
  then show ?thesis
    using assms(3) assms(4) [of x] good_HasField [OF assms(1,2)]
    by (simp add: sub_def has_def)
qed

lemma safe_when_has [safe_rules]:
  assumes "good C t m" and "kind_of C t f = Some (KMsg u)"
    and "\<And>x. good C u x \<Longrightarrow> nesting x < nesting m \<Longrightarrow> safe P (k x)"
  shows "safe P (when_has C m f (bindM (sub C m f) k))"
  unfolding when_has_def bind_assocM
  by (rule safe_has_sub [OF assms(1,2)], rule safe_return, rule safe_bind [OF assms(3)], assumption+)
    (rule safe_return)

lemma safe_when_variable [safe_rules]:
  assumes "good C t m" and "kind_of C t f = Some (KMsg u)"
    and "\<And>x. good C u x \<Longrightarrow> nesting x < nesting m \<Longrightarrow> safe P (k x)"
  shows "safe P (when_variable C m f (bindM (sub C m f) k))"
proof -
  obtain x where "get_msg (decimals (penv C)) m f = Inr x" "good C u x"
    "present m f \<noteq> None \<Longrightarrow> nesting x < nesting m" using good_sub [OF assms(1,2)] by metis
  then show ?thesis
    using safe_bind [OF assms(3) [of x] safe_return [of P "Some _"]] good_HasField [OF assms(1,2)]
    by (simp add: when_variable_def sub_def has_def) (intro safe_rules; simp)
qed

text \<open>The same when the rest reads the field elsewhere, or not at all.\<close>

lemma safe_when_set:
  "good C t m \<Longrightarrow> kind_of C t f = Some (KMsg u) \<Longrightarrow> safe P k \<Longrightarrow> safe P (when_has C m f k)"
  unfolding when_has_def by (rule safe_has, assumption+) (intro safe_bind safe_rules)

lemma safe_when_set_option:
  "good C t m \<Longrightarrow> kind_of C t f = Some (KMsg u) \<Longrightarrow> safe P k \<Longrightarrow> safe P (when_has_option C m f k)"
  unfolding when_has_option_def by (rule safe_has, assumption+) (intro safe_rules)

lemma safe_when_has_option:
  assumes "good C t m" and "kind_of C t f = Some (KMsg u)"
    and "\<And>x. good C u x \<Longrightarrow> nesting x < nesting m \<Longrightarrow> safe P (k x)"
  shows "safe P (when_has_option C m f (bindM (sub C m f) k))"
  unfolding when_has_option_def by (rule safe_has_sub [OF assms(1,2) safe_return assms(3)])

end
