(* ===== verification/Conv_Typed.thy ===== *)
theory Conv_Typed imports Conv_Safe begin

text \<open>
  The types the converter works with, the message an expression of a type is stored in, the
  invariant of the converter's state, and the primitive steps: they keep the invariant and raise
  nothing.
\<close>

section \<open>Types with their messages\<close>

text \<open>
  Shapes only, since the sizes do not matter for exceptions. Decimals are there when the loaded
  schema has them.
\<close>

fun scalar_typed :: "bool \<Rightarrow> vy_type \<Rightarrow> bool" where
  "scalar_typed d Decimal = d"
| "scalar_typed d (FixedList k b) = False"
| "scalar_typed d (DynArray k b cur) = False"
| "scalar_typed d NoneType = False"
| "scalar_typed d t = True"

definition element_typed :: "bool \<Rightarrow> vy_type \<Rightarrow> bool" where
  "element_typed d t \<longleftrightarrow> scalar_typed d t \<and> byte_class t = None"

fun typed :: "bool \<Rightarrow> vy_type \<Rightarrow> bool" where
  "typed d (FixedList k b) = element_typed d b"
| "typed d (DynArray k b cur) =
     (case b of FixedList k' b' \<Rightarrow> element_typed d b' | _ \<Rightarrow> scalar_typed d b)"
| "typed d t = scalar_typed d t"

fun element_name :: "vy_type \<Rightarrow> string" where
  "element_name (IntT n sgd) = ''Int''"
| "element_name (BytesM m) = ''BytesM''"
| "element_name Bool = ''Bool''"
| "element_name Decimal = ''Decimal''"
| "element_name Address = ''Address''"
| "element_name (String m) = ''String''"
| "element_name (Bytes m) = ''ByteArray''"
| "element_name t = ''''"

fun expr_message :: "vy_type \<Rightarrow> string" where
  "expr_message (FixedList k b) = ''FixedList'' @ element_name b"
| "expr_message (DynArray k (FixedList k' b) cur) = ''DynArrayList'' @ element_name b"
| "expr_message (DynArray k b cur) = ''DynArray'' @ element_name b"
| "expr_message (Bytes m) = ''BytesExpression''"
| "expr_message t = element_name t @ ''Expression''"

fun handler_of :: "vy_type \<Rightarrow> handler" where
  "handler_of (IntT n sgd) = H_int"
| "handler_of (BytesM m) = H_bytes_m"
| "handler_of Bool = H_bool"
| "handler_of Decimal = H_decimal"
| "handler_of Address = H_address"
| "handler_of (String m) = H_string"
| "handler_of (Bytes m) = H_bytes"
| "handler_of t = H_list"

lemma typed_list_elem:
  "typed d (DynArray k b cur) \<Longrightarrow> typed d b"
  "typed d (FixedList k b) \<Longrightarrow> typed d b"
  by (cases b; simp add: element_typed_def)+

lemma handler_typed:
  assumes "typed d t"
  obtains a where "expression_handler t = Inr (handler_of t, a)"
    and "field_kind d ''TypedExpression'' a = Some (KMsg (expr_message t))"
proof -
  have "\<exists>a. map_of expression_handlers (type_name t) = Some (handler_of t, a) \<and>
      field_kind d ''TypedExpression'' a = Some (KMsg (expr_message t))"
  proof (cases t)
    case (FixedList k b)
    then show ?thesis using assms
      by (cases b) (simp_all add: expression_handlers_def schema element_typed_def byte_class_def)
  next
    case (DynArray k b cur)
    show ?thesis
    proof (cases b)
      case (FixedList k' b')
      then show ?thesis using assms DynArray
        by (cases b') (simp_all add: expression_handlers_def schema element_typed_def byte_class_def)
    qed (use assms DynArray in \<open>simp_all add: expression_handlers_def schema\<close>)
  qed (use assms in \<open>simp_all add: expression_handlers_def schema\<close>)
  moreover have "t \<noteq> NoneType" using assms by auto
  ultimately show thesis using that by (auto simp: expression_handler_def)
qed

text \<open>
  What a conforming message describes has this shape; without decimals in the schema, no decimal is
  described.
\<close>

fun undecimal :: "vy_type \<Rightarrow> bool" where
  "undecimal Decimal = False"
| "undecimal (FixedList k b) = undecimal b"
| "undecimal (DynArray k b cur) = undecimal b"
| "undecimal t = True"

lemma scalar_ok_typed: "scalar_ok var b \<Longrightarrow> d \<or> undecimal b \<Longrightarrow> scalar_typed d b"
  by (cases b) simp_all

lemma scalar_ok_element: "scalar_ok False b \<Longrightarrow> d \<or> undecimal b \<Longrightarrow> element_typed d b"
  by (cases b) (simp_all add: element_typed_def byte_class_def)

lemma fixed_ok_typed:
  assumes "fixed_ok t" and "d \<or> undecimal t"
  obtains k b where "t = FixedList k b" and "element_typed d b"
  using assms scalar_ok_element [of _ d] by (cases t) (simp_all add: fixed_ok_def)

lemma dyn_ok_typed:
  assumes "dyn_ok t" and "d \<or> undecimal t"
  shows "typed d t"
proof -
  obtain k b cur where t: "t = DynArray k b cur" and b: "scalar_ok True b \<or> fixed_ok b"
    using assms(1) by (cases t) (simp_all add: dyn_ok_def)
  have u: "d \<or> undecimal b" using assms(2) by (simp add: t)
  show ?thesis
  proof (cases "fixed_ok b")
    case True
    then obtain k' b' where "b = FixedList k' b'" "element_typed d b'" using u by (rule fixed_ok_typed)
    then show ?thesis by (simp add: t)
  next
    case False
    then have sc: "scalar_ok True b" using b by simp
    then have "scalar_typed d b" using u by (rule scalar_ok_typed)
    then show ?thesis using sc by (cases b) (simp_all add: t)
  qed
qed

lemma declarable_typed:
  assumes "declarable t" and "d \<or> undecimal t"
  shows "typed d t"
proof -
  consider (scalar) "scalar_ok True t" | (fixed) "fixed_ok t" | (dyn) "dyn_ok t"
    using assms(1) by (auto simp: declarable_def)
  then show ?thesis
  proof cases
    case scalar
    then have "typed d t = scalar_typed d t" by (cases t) simp_all
    then show ?thesis using scalar_ok_typed [OF scalar assms(2)] by simp
  next
    case fixed
    then show ?thesis using assms(2) by (rule fixed_ok_typed) simp
  next
    case dyn
    then show ?thesis using assms(2) by (rule dyn_ok_typed)
  qed
qed

definition type_message :: "string \<Rightarrow> bool" where
  "type_message t \<longleftrightarrow> t \<in> {''FixedList'', ''DynArray'', ''VarRef'', ''VarDecl'', ''FuncParam''}"

lemma no_decimal_field: "type_message t \<Longrightarrow> field_kind False t ''d'' = None"
  unfolding type_message_def
  by (elim insertE emptyE; simp add: schema_eval type_messages)

lemma type_message_parts:
  "type_message t \<Longrightarrow> field_kind d t ''list'' = Some (KMsg u) \<Longrightarrow> u = ''FixedList''"
  "type_message t \<Longrightarrow> field_kind d t ''dyn'' = Some (KMsg u) \<Longrightarrow> u = ''DynArray''"
  unfolding type_message_def using describes_facts [of d]
  by (auto simp: describes_def split: if_splits)

lemma get_msg_type:
  assumes "conforms d m" and "get_msg d m f = Inr x"
  obtains u where "field_kind d (mtype m) f = Some (KMsg u)" and "mtype x = u" and "conforms d x"
proof -
  obtain u where u: "field_kind d (mtype m) f = Some (KMsg u)"
    using assms(2) by (auto simp: get_msg_def split: option.splits fkind.splits)
  show thesis using get_msg_conforms [OF assms(1) u] that [OF u] assms(2) by auto
qed

lemma mk_undecimal:
  "mk_Bytes k = Inr t \<Longrightarrow> undecimal t" "mk_BytesM k = Inr t \<Longrightarrow> undecimal t"
  "mk_String k = Inr t \<Longrightarrow> undecimal t" "mk_Int k sgd = Inr t \<Longrightarrow> undecimal t"
  by (auto simp: mk_Bytes_def mk_BytesM_def mk_String_def mk_Int_def split: if_splits)

lemma extract_undecimal:
  assumes "conforms False m" and "type_message (mtype m)" and "extract_vy_type fuel False False m = Inr t"
  shows "undecimal t"
  using assms
proof (induction fuel arbitrary: m t)
  case (Suc fuel)
  let ?has = "py_has_field False False m"
  have d: "\<not> ?has ''d''" using no_decimal_field [OF Suc.prems(2)] by (simp add: py_has_field_def HasField_def)
  have sub: "undecimal u" if x: "get_msg False m f = Inr x" "extract_vy_type fuel False False x = Inr u"
    and f: "f = ''list'' \<or> f = ''dyn''" for f x u
  proof -
    obtain v where v: "field_kind False (mtype m) f = Some (KMsg v)" "mtype x = v" "conforms False x"
      using get_msg_type [OF Suc.prems(1) x(1)] .
    then have "v = ''FixedList'' \<or> v = ''DynArray''" using f type_message_parts [OF Suc.prems(2)] by blast
    then have "type_message (mtype x)" using v(2) by (auto simp: type_message_def)
    then show ?thesis using Suc.IH v(3) x(2) by blast
  qed
  show ?case
    using Suc.prems(3) d sub mk_undecimal
    by (simp add: extract_vy_type.simps Let_def bindR_Inr_iff split: if_splits) (auto; blast)+
qed (simp add: extract_vy_type.simps)

text \<open>The type a declaration, a parameter or a reference describes.\<close>

lemma extract_typed:
  assumes "conforms d m" and "mtype m \<in> {''VarRef'', ''VarDecl'', ''FuncParam''}"
  obtains t where "extract_vy_type TYPE_DEPTH d False m = Inr t" and "typed d t"
proof -
  obtain t where t: "extract_vy_type TYPE_DEPTH d False m = Inr t" "declarable t"
    using extract_top [OF assms] .
  have "d \<or> undecimal t"
    using extract_undecimal [of m TYPE_DEPTH t] assms t(1) by (cases d) (auto simp: type_message_def)
  then show thesis using that t declarable_typed by blast
qed

text \<open>The input type of a conversion, whose message has every field it declares.\<close>

lemma wrapped_int:
  assumes "conforms d m" and "mtype m = ''ConvertFromInt''"
  obtains n sgd where "extract_vy_type TYPE_DEPTH d True m = Inr (IntT n sgd)"
proof -
  have none: "\<not> py_has_field d True m f" if "f \<noteq> ''exp''" "f \<noteq> ''i''" for f
    using assms(2) that by (simp add: py_has_field_def hasattr_def schema_eval message_fields)
  obtain n sgd where "bindR (field_int d m ''i'' ''n'') (\<lambda>k. bindR (get_msg d m ''i'') (\<lambda>x.
       bindR (get_bool d x ''sign'') (\<lambda>sgd. mk_Int (get_nearest_multiple (k mod 256 + 1) 8) sgd)))
     = Inr (IntT n sgd)"
    using extract_int [OF assms(1)] assms(2) expression_fields by metis
  then show thesis using that none by (simp add: TYPE_DEPTH_def numeral_3_eq_3 extract_vy_type.simps Let_def)
qed

lemma wrapped_bytesm:
  assumes "conforms d m" and "mtype m = ''ConvertFromBytesM''"
  obtains k where "extract_vy_type TYPE_DEPTH d True m = Inr (BytesM k)"
proof -
  have has: "py_has_field d True m ''bM''" "\<not> py_has_field d True m ''b''" "\<not> py_has_field d True m ''d''"
    using assms(2) by (simp_all add: py_has_field_def hasattr_def schema_eval message_fields)
  obtain k where "field_int d m ''bM'' ''m'' = Inr k"
    using field_int_conforms [OF assms(1) _ size_field_kinds(3)] assms(2) expression_fields by metis
  then show thesis using that has mk_BytesM_ok [of k]
    by (auto simp: TYPE_DEPTH_def numeral_3_eq_3 extract_vy_type.simps Let_def)
qed

end
