(* ===== verification/Conv_Steps.thy ===== *)
theory Conv_Steps imports Conv_Typed begin

text \<open>
  The invariant of the converter's state and the primitive steps, which keep it and raise nothing
  unexpected: the stacks, random choices, the tracker, variable references and literals.
\<close>

section \<open>The tracker\<close>

text \<open>Every variable has a name, and the element types of the dynamic arrays are types.\<close>

definition tracker_ok :: "bool \<Rightarrow> var_tracker \<Rightarrow> bool" where
  "tracker_ok d tr \<longleftrightarrow>
     (\<exists>D. tracks D tr \<and> (\<forall>x \<in> set D. d_name x \<noteq> [])) \<and>
     (\<forall>k. \<forall>t \<in> fst ` set (tr_dyns tr k). typed d t)"

lemma update_keys: "fst ` set (AList.update k v xs) = insert k (fst ` set xs)"
  by (induction xs) auto

lemma register_dyns_keys: "fst ` set (register_dyns ty sz n l xs) \<subseteq> insert ty (fst ` set xs)"
proof -
  have put: "fst ` set (sized_put ty l sz ns ys) \<subseteq> insert ty (fst ` set ys)" for ns ys
    by (simp add: sized_put_def Let_def update_keys)
  have type: "fst ` set (init_dyn_type ty l ys) \<subseteq> insert ty (fst ` set ys)" for ys :: "'a sized_dict"
    by (simp add: init_dyn_type_def update_keys subset_insertI)
  have level: "fst ` set (init_dyn_level ty l sz ys) \<subseteq> insert ty (fst ` set ys)" for ys :: "'a sized_dict"
    by (simp add: init_dyn_level_def update_keys subset_insertI)
  have size: "fst ` set (init_dyn_size ty l sz ys) \<subseteq> insert ty (fst ` set ys)" for ys
    using put by (simp add: init_dyn_size_def subset_insertI)
  have step: "A \<subseteq> insert ty B \<Longrightarrow> B \<subseteq> insert ty C \<Longrightarrow> A \<subseteq> insert ty C" for A B C by blast
  show ?thesis unfolding register_dyns_def Let_def by (rule step [OF put step [OF size step [OF level type]]])
qed

lemma items_dyns: "tr_dyns (fold (\<lambda>i. register_list_items (f i) l b k key) xs tr) = tr_dyns tr"
  by (induction xs arbitrary: tr) (simp_all add: register_list_items_def)

lemma bump_dyns: "tr_dyns (bump_id t l tr) = tr_dyns tr"
  by (simp add: bump_id_def next_id_def current_id_def Let_def split_beta)

lemma register_array_dyns:
  "tr_dyns (register_dyn_array n l b k cur key tr) = (tr_dyns tr)(key := register_dyns b k n l (tr_dyns tr key))"
  by (cases b) (simp_all add: register_dyn_array_def items_dyns Let_def)

lemma register_dyns_of:
  "fst ` set (tr_dyns (register_function_variable n l t mutable tr) k) \<subseteq>
     (case t of DynArray s b c \<Rightarrow> {b} | _ \<Rightarrow> {}) \<union> fst ` set (tr_dyns tr k)"
proof (cases t)
  case (DynArray s b c)
  have "tr_dyns (register_function_variable n l t mutable tr) =
      (tr_dyns tr)(key_of mutable := register_dyns b s (full_name n l mutable) l (tr_dyns tr (key_of mutable)))"
    by (simp add: DynArray register_function_variable_def register_array_dyns register_list_items_def
        bump_dyns Let_def)
  then show ?thesis using register_dyns_keys [of b s]
    by (cases "k = key_of mutable") (simp_all add: DynArray subset_insertI)
qed (simp_all add: register_function_variable_def register_list_items_def byte_class_def
      register_bytes_or_string_def bump_dyns Let_def)

lemma tracker_ok_new: "tracker_ok d new_tracker"
  unfolding tracker_ok_def using tracks_new by (auto simp: new_tracker_def intro!: exI [of _ "[]"])

lemma tracker_ok_next_id: "tracker_ok d tr \<Longrightarrow> tracker_ok d (snd (next_id t tr))"
proof -
  have "tr_dyns (snd (next_id t tr)) = tr_dyns tr"
    by (simp add: next_id_def current_id_def Let_def split_beta)
  then show "tracker_ok d tr \<Longrightarrow> tracker_ok d (snd (next_id t tr))" by (simp add: tracker_ok_def)
qed

lemma tracker_ok_register:
  assumes "tracker_ok d tr" and "typed d t" and "n \<noteq> []"
  shows "tracker_ok d (register_function_variable n l t mutable tr)"
proof -
  obtain D where D: "tracks D tr" "\<forall>x \<in> set D. d_name x \<noteq> []" using assms(1) by (auto simp: tracker_ok_def)
  have "tracks (D @ [Decl (full_name n l mutable) l t (key_of mutable)]) (register_function_variable n l t mutable tr)"
    by (rule register_function_variable_tracks [OF D(1)])
  moreover have "full_name n l mutable \<noteq> []" using assms(3) by (simp add: full_name_def)
  moreover have "typed d u" if "u \<in> fst ` set (tr_dyns (register_function_variable n l t mutable tr) k)" for k u
  proof -
    from that register_dyns_of have "u \<in> (case t of DynArray s b c \<Rightarrow> {b} | _ \<Rightarrow> {}) \<union> fst ` set (tr_dyns tr k)"
      by blast
    moreover have "u \<in> (case t of DynArray s b c \<Rightarrow> {b} | _ \<Rightarrow> {}) \<Longrightarrow> typed d u"
      using typed_list_elem(1) assms(2) by (cases t) (simp_all del: typed.simps)
    ultimately show ?thesis using assms(1) by (auto simp: tracker_ok_def)
  qed
  ultimately show ?thesis
    unfolding tracker_ok_def using D(2)
    by (intro conjI exI [of _ "D @ [Decl (full_name n l mutable) l t (key_of mutable)]"]) auto
qed

lemma tracker_ok_remove:
  assumes "tracker_ok d tr"
  shows "tracker_ok d (remove_function_level l mutable tr)"
proof -
  obtain D where D: "tracks D tr" "\<forall>x \<in> set D. d_name x \<noteq> []" using assms by (auto simp: tracker_ok_def)
  have "fst ` set (tr_dyns (remove_function_level l mutable tr) k) = fst ` set (tr_dyns tr k)" for k
    by (auto simp: remove_function_level_def remove_dyns_level_def Let_def image_image split_beta)
  moreover have "\<forall>x \<in> set (filter P D). d_name x \<noteq> []" for P using D(2) by simp
  ultimately show ?thesis
    using remove_function_level_tracks [OF D(1)] assms unfolding tracker_ok_def by (metis (no_types, lifting))
qed

lemma tracker_ok_create:
  assumes "tracker_ok d tr" and "typed d t"
    and "create_and_register_variable t l mut tr = Inr (n, tr')"
  shows "tracker_ok d tr'"
proof -
  obtain pre where "n = var_name pre t (fst (next_id t tr))"
    and tr': "tr' = register_function_variable n l t (mut = REGULAR) (snd (next_id t tr))"
    using assms(3) by (auto simp: create_and_register_variable_def split_beta bindR_Inr_iff
        Let_def register_global_variable_def split: if_splits)
  then have "n \<noteq> []" by (simp add: var_name_def)
  then show ?thesis
    unfolding tr' by (rule tracker_ok_register [OF tracker_ok_next_id [OF assms(1)] assms(2)])
qed

lemma create_returns:
  assumes "0 < l \<or> mut \<in> {REGULAR, CONSTANT, IMMUTABLE}"
  obtains n tr' where "create_and_register_variable t l mut tr = Inr (n, tr')"
proof -
  have "\<exists>pre. var_prefix l mut = Inr pre" using assms by (auto simp: var_prefix_def)
  then obtain pre where "var_prefix l mut = Inr pre" by blast
  then show thesis using that
    by (cases "l = 0 \<and> mut = REGULAR") (simp_all add: create_and_register_variable_def split_beta Let_def)
qed

text \<open>A lookup offers names that are not empty.\<close>

lemma offers_named:
  assumes "x \<in> set (offers t assignee y)" and "d_name y \<noteq> []"
  shows "x \<noteq> []"
proof -
  have "x = d_name y \<or> (\<exists>l i. x = item_name l i)"
    using assms(1) by (auto simp: offers_def var_entries_def split: vy_type.splits option.splits if_splits)
  then show ?thesis using assms(2) by (auto simp: item_name_def)
qed

lemma lookup_named:
  assumes "tracker_ok d tr" and "x \<in> set (get_vars t level mutable assignee tr)"
  shows "x \<noteq> []"
proof -
  obtain D where D: "tracks D tr" "\<forall>x \<in> set D. d_name x \<noteq> []" using assms(1) by (auto simp: tracker_ok_def)
  obtain y where "y \<in> set D" "x \<in> set (offers t assignee y)"
    using assms(2) get_vars_visible [OF D(1)] in_scope_iff by blast
  then show ?thesis using offers_named D(2) by blast
qed

text \<open>An array that is offered has an element type.\<close>

lemma dget_mem: "x \<in> set (dget xs k []) \<Longrightarrow> (k, dget xs k []) \<in> set xs"
  by (auto simp: dget_def dest: map_of_SomeD split: option.splits)

lemma array_element_type:
  assumes "tracker_ok d tr" and "x \<in> set (get_vars any_dyn_array level True assignee tr)"
  obtains t where "get_dyn_array_base_type x True tr = Some t" and "typed d t"
proof -
  let ?d = "tr_dyns tr (key_of True)"
  let ?P = "\<lambda>(t :: vy_type, lv). \<exists>(l :: nat, sz) \<in> set lv. \<exists>(s :: nat, names) \<in> set sz. x \<in> set names"
  obtain t l s where "x \<in> set (sized_at ?d t l s)"
    using assms(2) by (auto simp: get_vars_def any_dyn_array_def get_dyn_arrays_def Let_def set_get_dyns)
  then have x: "x \<in> set (dget (dget (dget ?d t []) l []) s [])" by (simp add: sized_at_def)
  then have s: "(s, dget (dget (dget ?d t []) l []) s []) \<in> set (dget (dget ?d t []) l [])" by (rule dget_mem)
  then have l: "(l, dget (dget ?d t []) l []) \<in> set (dget ?d t [])" by (rule dget_mem)
  then have t: "(t, dget ?d t []) \<in> set ?d" by (rule dget_mem)
  have "?P (t, dget ?d t [])" using x s l by fastforce
  then obtain p where p: "find ?P ?d = Some p" using t by (cases "find ?P ?d") (auto simp: find_None_iff)
  then obtain i where "i < length ?d" "p = ?d ! i" unfolding find_Some_iff by blast
  then have "p \<in> set ?d" by simp
  then have "typed d (fst p)" using assms(1) by (auto simp: tracker_ok_def)
  moreover have "get_dyn_array_base_type x True tr = Some (fst p)"
    unfolding get_dyn_array_base_type_def p by simp
  ultimately show thesis using that by blast
qed

section \<open>The invariant\<close>

definition func_ok :: "bool \<Rightarrow> func_obj \<Rightarrow> bool" where
  "func_ok d f \<longleftrightarrow>
     0 \<le> f_mutability f \<and> f_mutability f \<le> PAYABLE \<and>
     (\<forall>t \<in> set (f_inputs f) \<union> set (f_outputs f). typed d t)"

definition inv :: "cenv \<Rightarrow> conv_state \<Rightarrow> bool" where
  "inv C s \<longleftrightarrow>
     tracker_ok (decimals (penv C)) (tracker s) \<and> 0 \<le> mut_level s \<and> mut_level s \<le> PAYABLE \<and>
     (\<forall>t \<in> set (function_output s). typed (decimals (penv C)) t) \<and>
     (\<forall>f \<in> set (ft_functions (funcs s)). func_ok (decimals (penv C)) f)"

text \<open>
  What a method may rely on besides: the stacks, whether a constant is converted, whether the
  contract has no functions yet and whether one of them is being converted.
\<close>

type_synonym state_view = "vy_type list \<times> string list \<times> bool \<times> bool \<times> bool"

definition view_of :: "conv_state \<Rightarrow> state_view" where
  "view_of s = (type_stack s, op_stack s, is_constant s, ft_functions (funcs s) = [], current_func s \<noteq> None)"

definition state_ok :: "cenv \<Rightarrow> (state_view \<Rightarrow> bool) \<Rightarrow> conv_state \<Rightarrow> bool" where
  "state_ok C Q s \<longleftrightarrow> inv C s \<and> Q (view_of s)"

abbreviation in_type :: "cenv \<Rightarrow> vy_type \<Rightarrow> state_view \<Rightarrow> conv_state \<Rightarrow> bool" where
  "in_type C t z \<equiv> state_ok C (\<lambda>y. y = (t # fst z, snd z))"

lemma state_okI: "state_ok C Q s \<Longrightarrow> inv C s' \<Longrightarrow> view_of s' = view_of s \<Longrightarrow> state_ok C Q s'"
  by (simp add: state_ok_def)

lemma state_ok_inv: "state_ok C Q s \<Longrightarrow> inv C s"
  by (simp add: state_ok_def)

lemma state_ok_rng: "state_ok C Q s \<Longrightarrow> state_ok C Q (s\<lparr>rng := r\<rparr>)"
  by (simp add: state_ok_def inv_def view_of_def)

lemma state_ok_mut: "state_ok C Q s \<Longrightarrow> 0 \<le> k \<Longrightarrow> k \<le> PAYABLE \<Longrightarrow> state_ok C Q (s\<lparr>mut_level := k\<rparr>)"
  by (simp add: state_ok_def inv_def view_of_def)

lemma state_ok_tracker:
  "state_ok C Q s \<Longrightarrow> tracker_ok (decimals (penv C)) tr \<Longrightarrow> state_ok C Q (s\<lparr>tracker := tr\<rparr>)"
  by (simp add: state_ok_def inv_def view_of_def)

lemma state_ok_tracked: "state_ok C Q s \<Longrightarrow> tracker_ok (decimals (penv C)) (tracker s)"
  by (simp add: state_ok_def inv_def)

section \<open>Stacks\<close>

lemma safe_with_type_in:
  assumes "\<And>z. Q z \<Longrightarrow> safe (in_type C t z) m"
  shows "safe (state_ok C Q) (with_type t m)"
proof (rule safeI)
  fix s e
  assume s: "state_ok C Q s" and run: "with_type t m s = Inl e"
  let ?s = "s\<lparr>type_stack := t # type_stack s\<rparr>" and ?z = "(type_stack s, snd (view_of s))"
  have Q: "Q ?z" using s by (simp add: state_ok_def view_of_def)
  have s': "in_type C t ?z ?s" using s by (simp add: state_ok_def inv_def view_of_def)
  show "expected_error e"
  proof (cases "m ?s")
    case (Inl e')
    then show ?thesis using safe_error [OF assms [OF Q] s'] run by (simp add: with_type_def push_type_def bindM_def)
  next
    case (Inr p)
    then have "in_type C t ?z (snd p)" using safe_post [OF assms [OF Q] s'] by (metis prod.collapse)
    then show ?thesis using run Inr
      by (cases p) (simp add: with_type_def push_type_def pop_type_def bindM_def state_ok_def view_of_def)
  qed
next
  fix s x u
  assume s: "state_ok C Q s" and run: "with_type t m s = Inr (x, u)"
  let ?s = "s\<lparr>type_stack := t # type_stack s\<rparr>" and ?z = "(type_stack s, snd (view_of s))"
  have Q: "Q ?z" using s by (simp add: state_ok_def view_of_def)
  have s': "in_type C t ?z ?s" using s by (simp add: state_ok_def inv_def view_of_def)
  obtain v where v: "m ?s = Inr (x, v)" and u: "pop_type v = Inr ((), u)"
    using run by (auto simp: with_type_def push_type_def bindM_Inr_iff)
  have "in_type C t ?z v" by (rule safe_post [OF assms [OF Q] s' v])
  then show "state_ok C Q u"
    using u s by (auto simp: pop_type_def state_ok_def inv_def view_of_def)
qed

lemma safe_with_type [safe_rules]:
  "(\<And>z. safe (in_type C t z) m) \<Longrightarrow> safe (state_ok C Q) (with_type t m)"
  by (rule safe_with_type_in)

lemma safe_with_op [safe_rules]:
  assumes "\<And>z. safe (in_type C t z) m"
  shows "safe (in_type C t z) (with_op opr m)"
proof (rule safeI)
  fix s e
  assume s: "in_type C t z s" and run: "with_op opr m s = Inl e"
  let ?s = "s\<lparr>op_stack := opr # op_stack s\<rparr>" and ?z = "(fst z, opr # op_stack s, snd (snd z))"
  have s': "in_type C t ?z ?s" using s by (cases z) (auto simp: state_ok_def inv_def view_of_def)
  show "expected_error e"
  proof (cases "m ?s")
    case (Inl e')
    then show ?thesis using safe_error [OF assms s'] run by (simp add: with_op_def push_op_def bindM_def)
  next
    case (Inr p)
    then have "in_type C t ?z (snd p)" using safe_post [OF assms s'] by (metis prod.collapse)
    then show ?thesis using run Inr
      by (cases p) (simp add: with_op_def push_op_def pop_op_def bindM_def state_ok_def view_of_def)
  qed
next
  fix s x u
  assume s: "in_type C t z s" and run: "with_op opr m s = Inr (x, u)"
  let ?s = "s\<lparr>op_stack := opr # op_stack s\<rparr>" and ?z = "(fst z, opr # op_stack s, snd (snd z))"
  have s': "in_type C t ?z ?s" using s by (cases z) (auto simp: state_ok_def inv_def view_of_def)
  obtain v where v: "m ?s = Inr (x, v)" and u: "pop_op v = Inr ((), u)"
    using run by (auto simp: with_op_def push_op_def bindM_Inr_iff)
  have "in_type C t ?z v" by (rule safe_post [OF assms s' v])
  then show "in_type C t z u"
    using u s by (cases z) (auto simp: pop_op_def state_ok_def inv_def view_of_def)
qed

lemma safe_top [safe_rules]: "safe (in_type C t z) (k t) \<Longrightarrow> safe (in_type C t z) (bindM top_type k)"
  by (simp add: safe_def bindM_def top_type_def state_ok_def view_of_def)

section \<open>Steps\<close>

lemma safe_raise_mut: "0 \<le> k \<Longrightarrow> k \<le> PAYABLE \<Longrightarrow> safe (state_ok C Q) (raise_mut k)"
  unfolding raise_mut_def by (rule safe_mod) (simp add: state_ok_mut)

lemma safe_raise_mut_levels [safe_rules]:
  "safe (state_ok C Q) (raise_mut NON_PAYABLE)" "safe (state_ok C Q) (raise_mut VIEW)"
  by (rule safe_raise_mut; simp add: NON_PAYABLE_def VIEW_def PAYABLE_def)+

lemma safe_choice:
  assumes "xs \<noteq> []" and "\<And>x. x \<in> set xs \<Longrightarrow> safe (state_ok C Q) (k x)"
  shows "safe (state_ok C Q) (bindM (choice xs) k)"
proof (rule safeI)
  fix s e
  assume "state_ok C Q s" and run: "bindM (choice xs) k s = Inl e"
  obtain j r where j: "draw (rng s) = (j, r)" by (cases "draw (rng s)")
  have "state_ok C Q (s\<lparr>rng := r\<rparr>)" using \<open>state_ok C Q s\<close> by (rule state_ok_rng)
  moreover have "xs ! (j mod length xs) \<in> set xs" using assms(1) by simp
  moreover have "k (xs ! (j mod length xs)) (s\<lparr>rng := r\<rparr>) = Inl e"
    using run assms(1) by (simp add: bindM_def choice_def j)
  ultimately show "expected_error e" using safe_error [OF assms(2)] by blast
next
  fix s y u
  assume "state_ok C Q s" and run: "bindM (choice xs) k s = Inr (y, u)"
  obtain j r where j: "draw (rng s) = (j, r)" by (cases "draw (rng s)")
  have "state_ok C Q (s\<lparr>rng := r\<rparr>)" using \<open>state_ok C Q s\<close> by (rule state_ok_rng)
  moreover have "xs ! (j mod length xs) \<in> set xs" using assms(1) by simp
  moreover have "k (xs ! (j mod length xs)) (s\<lparr>rng := r\<rparr>) = Inr (y, u)"
    using run assms(1) by (simp add: bindM_def choice_def j)
  ultimately show "state_ok C Q u" using safe_post [OF assms(2)] by blast
qed

lemma safe_create_var:
  assumes "typed (decimals (penv C)) t" and "0 < l \<or> mut \<in> {REGULAR, CONSTANT, IMMUTABLE}"
  shows "safe (state_ok C Q) (create_var t l mut)"
proof (rule safeI)
  fix s e
  assume run: "create_var t l mut s = Inl e"
  obtain n tr where "create_and_register_variable t l mut (tracker s) = Inr (n, tr)"
    using create_returns [OF assms(2)] .
  then show "expected_error e" using run by (simp add: create_var_def)
next
  fix s n u
  assume s: "state_ok C Q s" and "create_var t l mut s = Inr (n, u)"
  then obtain tr where tr: "create_and_register_variable t l mut (tracker s) = Inr (n, tr)"
    and u: "u = s\<lparr>tracker := tr\<rparr>" by (auto simp: create_var_def bindR_Inr_iff)
  show "state_ok C Q u"
    unfolding u by (rule state_ok_tracker [OF s tracker_ok_create [OF state_ok_tracked [OF s] assms(1) tr]])
qed

lemma safe_code_offset [safe_rules]: "safe P code_offset" "safe P (parens txt)"
  unfolding code_offset_def parens_def by (rule safe_get)+

section \<open>References\<close>

lemma safe_note_global [safe_rules]: "safe (state_ok C Q) (note_global assignment v t)"
  unfolding note_global_def by (intro safe_bind safe_rules)

lemma safe_constant_ref: "safe (state_ok C Q) (constant_ref level t)"
  unfolding constant_ref_def
proof (rule safe_bind_get, rule safe_if, rule safe_return, erule safe_choice)
  fix s v
  assume "state_ok C Q s" and "v \<in> set (get_readonly_variables level t (tracker s))"
  then have "v \<noteq> []" using lookup_named [OF state_ok_tracked] unfolding get_readonly_variables_def by blast
  then show "safe (state_ok C Q) (case v of
         [] \<Rightarrow> raiseM (IndexError ''string index out of range'')
       | c # _ \<Rightarrow> (if c \<noteq> CHR ''C'' then returnM None else returnM (Some v)))"
    by (cases v) (simp_all add: safe_return)
qed

lemma safe_var_ref [safe_rules]: "safe (in_type C t z) (visit_var_ref level assignment)"
  unfolding visit_var_ref_def
proof (rule safe_top, rule safe_bind_get, rule safe_if, rule safe_constant_ref, rule safe_bind_get,
    rule safe_if, rule safe_return, erule safe_choice)
  show "safe (in_type C t z) (seqM (note_global assignment v t) (returnM (Some v)))" for v
    by (intro safe_bind safe_rules)
qed

lemma safe_var_ref_field [safe_rules]:
  "good C u m \<Longrightarrow> kind_of C u ''varRef'' = Some (KMsg ''VarRef'') \<Longrightarrow> safe (in_type C t z) (var_ref_field C m)"
  unfolding var_ref_field_def by (rule safe_has, assumption+) (intro safe_rules)

section \<open>Literals and random values\<close>

lemma good_str:
  assumes "good C t m" and "kind_of C t f = Some KString"
  obtains cs where "get_str (decimals (penv C)) m f = Inr cs"
proof (cases "present m f")
  case (Some v)
  then have "conforms_val (decimals (penv C)) KString v"
    using assms conforms_present [of "decimals (penv C)" m f v] by (auto simp: good_def)
  then show thesis using assms Some that by (cases v) (simp_all add: good_def get_str_def)
qed (use assms that [of "[]"] in \<open>simp add: good_def get_str_def\<close>)

lemma good_bytes:
  assumes "good C t m" and "kind_of C t f = Some KBytes"
  obtains bs where "get_bytes (decimals (penv C)) m f = Inr bs"
proof (cases "present m f")
  case (Some v)
  then have "conforms_val (decimals (penv C)) KBytes v"
    using assms conforms_present [of "decimals (penv C)" m f v] by (auto simp: good_def)
  then show thesis using assms Some that by (cases v) (simp_all add: good_def get_bytes_def)
qed (use assms that [of "[]"] in \<open>simp add: good_def get_bytes_def\<close>)

text \<open>The literal of a scalar type.\<close>

lemma safe_literal [safe_rules]:
  assumes "scalar_typed (decimals (penv C)) t" and "good C ''Literal'' lit"
  shows "safe (in_type C t z) (create_literal C lit)"
proof -
  have num: "safe P (liftR (bindR (get_int (decimals (penv C)) lit f) (\<lambda>v. Inr (g v))))"
    if "kind_of C ''Literal'' f = Some (KUInt w)" for P :: "conv_state \<Rightarrow> bool" and f w and g :: "int \<Rightarrow> string"
    by (rule good_num [OF assms(2) that]) (simp_all add: is_int_kind_def safe_def)
  have flag: "safe P (liftR (bindR (get_bool (decimals (penv C)) lit f) (\<lambda>v. Inr (g v))))"
    if "kind_of C ''Literal'' f = Some KBool" for P :: "conv_state \<Rightarrow> bool" and f and g :: "bool \<Rightarrow> string"
    by (rule good_flag [OF assms(2) that]) (simp add: safe_def)
  have str: "safe P (liftR (bindR (get_str (decimals (penv C)) lit f) (\<lambda>v. Inr (g v))))"
    if "kind_of C ''Literal'' f = Some KString" for P :: "conv_state \<Rightarrow> bool" and f and g :: "nat list \<Rightarrow> string"
    by (rule good_str [OF assms(2) that]) (simp add: safe_def)
  have bytes: "safe P (liftR (bindR (get_bytes (decimals (penv C)) lit f) (\<lambda>v. Inr (g v))))"
    if "kind_of C ''Literal'' f = Some KBytes" for P :: "conv_state \<Rightarrow> bool" and f and g :: "8 word list \<Rightarrow> string"
    by (rule good_bytes [OF assms(2) that]) (simp add: safe_def)
  have dec: "safe (in_type C t z) (liftR (bindR (get_int (decimals (penv C)) lit ''decimalval'') (\<lambda>v. Inr (decimal_literal v))))"
    if "decimals (penv C)"
    by (rule num) (simp add: that expression_fields)
  show ?thesis
    unfolding create_literal_def Let_def
    by (rule safe_top, cases t)
      (use assms(1) dec in \<open>simp_all add: num flag str bytes expression_fields\<close>)
qed

text \<open>\<^verbatim>\<open>generate\<close> of an element of a list; only a decimal may overflow.\<close>

lemma safe_generate [safe_rules]:
  assumes "scalar_typed d t"
  shows "safe (state_ok C Q) (generate_text C t)"
proof (rule safeI)
  fix s e
  assume "generate_text C t s = Inl e"
  then have "generate (penv C) t (rng s) = Inl e"
    by (cases "generate (penv C) t (rng s)") (auto simp: generate_text_def)
  then have "e = OverflowError" using assms
    by (cases t) (auto simp: decimal_random_def Let_def split: prod.splits option.splits pyval.splits)
  then show "expected_error e" by (simp add: expected_error_def)
next
  fix s x u
  assume "state_ok C Q s" and "generate_text C t s = Inr (x, u)"
  then show "state_ok C Q u" by (auto simp: generate_text_def bindR_Inr_iff state_ok_rng)
qed

end
