(* ===== verification/Conv_Safe_Expr.thy ===== *)
theory Conv_Safe_Expr imports Conv_Steps begin

text \<open>
  The expression methods raise nothing unexpected when the visitor of the sub-expressions does not.
  The visitor is asked for a message of the type on top of the stack, nested less deep than the
  frames that are left allow.
\<close>

section \<open>The fields of conversions\<close>

definition scalar_messages :: "string list" where
  "scalar_messages = [''IntExpression'', ''BytesMExpression'', ''BoolExpression'', ''DecimalExpression'',
     ''AddressExpression'', ''StringExpression'', ''BytesExpression'']"

definition conversion_fields :: "(string \<times> string) list" where
  "conversion_fields =
     [(''convert_int'', ''ConvertFromInt''), (''convert_decimal'', ''DecimalExpression''),
      (''convert_bool'', ''BoolExpression''), (''convert_address'', ''AddressExpression''),
      (''convert_bytesm'', ''ConvertFromBytesM''), (''convert_bytes'', ''BytesExpression''),
      (''convert_string'', ''StringExpression'')]"

lemma conversion_kind:
  assumes "t \<in> set scalar_messages" and "(f, u) \<in> set conversion_fields"
  shows "field_kind d t f = None \<or> field_kind d t f = Some (KMsg u) \<and> (f = ''convert_decimal'' \<longrightarrow> d)"
proof -
  have "list_all (\<lambda>t. list_all (\<lambda>(f, u).
      field_kind d t f = None \<or> field_kind d t f = Some (KMsg u) \<and> (f \<noteq> ''convert_decimal'' \<or> d))
      conversion_fields) scalar_messages"
    by (cases d; simp only:; code_simp)
  then show ?thesis using assms by (fastforce simp: list_all_iff)
qed

lemma scalar_message: "scalar_typed d t \<Longrightarrow> expr_message t \<in> set scalar_messages"
  by (cases t) (simp_all add: scalar_messages_def)

text \<open>A conversion that is set, whatever its field.\<close>

lemma safe_conversion_sub:
  assumes "has_soft C m f" and "good C t m" and "t \<in> set scalar_messages" and "(f, u) \<in> set conversion_fields"
    and "\<And>x. good C u x \<Longrightarrow> nesting x < nesting m \<Longrightarrow> (f = ''convert_decimal'' \<longrightarrow> decimals (penv C)) \<Longrightarrow>
      safe P (k x)"
  shows "safe P (bindM (sub C m f) k)"
proof -
  have kind: "kind_of C t f = Some (KMsg u) \<and> (f = ''convert_decimal'' \<longrightarrow> decimals (penv C))"
    and "present m f \<noteq> None"
    using conversion_kind [OF assms(3,4), of "decimals (penv C)"] assms(1,2)
    by (auto simp: has_soft_def py_has_field_def HasField_def good_def split: sum.splits)
  then obtain x where "get_msg (decimals (penv C)) m f = Inr x" "good C u x" "nesting x < nesting m"
    using good_sub [OF assms(2)] by metis
  then show ?thesis using assms(5) kind by (simp add: sub_def)
qed

section \<open>The visitor of sub-expressions\<close>

locale safe_visitor =
  fixes C :: cenv and visitor :: visitor and n :: nat
  assumes visitor_safe:
    "typed (decimals (penv C)) t \<Longrightarrow> good C (expr_message t) m \<Longrightarrow> weight m < n \<Longrightarrow>
       safe (in_type C t z) (visitor (handler_of t) m)"
begin

lemma safe_visit [safe_rules]:
  "h = handler_of t \<Longrightarrow> good C u m \<Longrightarrow> u = expr_message t \<Longrightarrow> typed (decimals (penv C)) t \<Longrightarrow> weight m < n \<Longrightarrow>
     safe (in_type C t z) (visitor h m)"
  by (simp add: visitor_safe)

lemma safe_typed_expression:
  assumes "typed (decimals (penv C)) t" and "good C ''TypedExpression'' e" and "deep n e"
  shows "safe (in_type C t z) (visit_typed_expression C visitor e t)"
proof -
  obtain a where "expression_handler t = Inr (handler_of t, a)"
    and "kind_of C ''TypedExpression'' a = Some (KMsg (expr_message t))" using handler_typed [OF assms(1)] .
  then show ?thesis
    unfolding visit_typed_expression_def
    by simp (rule safe_sub [OF assms(2)], assumption, rule visitor_safe [OF assms(1)], assumption,
      rule deepD [OF assms(3)])
qed

section \<open>Conversions\<close>

lemma safe_conversion_of:
  assumes "typed (decimals (penv C)) u" and "good C (expr_message u) m" and "weight m < n"
    and "b \<Longrightarrow> isinstance_Int t"
  shows "safe (state_ok C Q) (conversion_of C visitor m t u b)"
proof -
  obtain a where h: "expression_handler u = Inr (handler_of u, a)" using handler_typed [OF assms(1)] .
  have "safe (state_ok C Q) (if b then liftR (check_bounds_of C t acc) else returnM acc)" for acc
    using assms(4) by (cases t) (auto simp: check_bounds_of_def isinstance_Int_def safe_def)
  then show ?thesis
    unfolding conversion_of_def h bind_liftR prod.case
    by (intro safe_bind safe_with_type visitor_safe assms(1-3) safe_return)
qed

lemma safe_convert_int:
  assumes "good C t m" and "t \<in> set scalar_messages" and "weight m \<le> n"
  shows "safe (state_ok C Q) (convert_int_field C visitor m ty)"
  unfolding convert_int_field_def
proof (rule safe_if [OF safe_conversion_sub [OF _ assms(1,2)] safe_return], assumption)
  show "(''convert_int'', ''ConvertFromInt'') \<in> set conversion_fields" by (simp add: conversion_fields_def)
  fix ci
  assume ci: "good C ''ConvertFromInt'' ci" "nesting ci < nesting m"
  then obtain w sgd where w: "extract_vy_type TYPE_DEPTH (decimals (penv C)) True ci = Inr (IntT w sgd)"
    using wrapped_int [of "decimals (penv C)" ci] unfolding good_def by blast
  have cv: "int_converts ty (IntT w sgd) = Inr (case int_converts ty (IntT w sgd) of Inr b \<Rightarrow> b)"
    by (cases ty) (simp_all add: int_converts_def)
  have operand: "safe (state_ok C Q) (bindM (conversion_of C visitor x ty (IntT w sgd) b) (\<lambda>x. returnM (Some x)))"
    if "good C ''IntExpression'' x" "nesting x \<le> nesting ci" "b \<Longrightarrow> isinstance_Int ty" for x b
  proof (rule safe_bind [OF safe_conversion_of safe_return])
    show "weight x < n" using weight_sub [OF assms(3)] ci(2) that(2) by simp
  qed (use that in simp_all)
  show "safe (state_ok C Q) (bindM (visit_wrapped_type C ci) (\<lambda>input_type.
        bindM (sub C ci ''exp'') (\<lambda>x.
        if isinstance_Int ty \<and> \<not> py_eq input_type ty then
          bindM (conversion_of C visitor x ty input_type True) (\<lambda>x. returnM (Some x))
        else bindM (liftR (int_converts ty input_type)) (\<lambda>ok.
          if ok then bindM (conversion_of C visitor x ty input_type False) (\<lambda>x. returnM (Some x))
          else returnM None))))"
    unfolding visit_wrapped_type_def w bind_liftR
    by (rule safe_sub [OF ci(1)], rule schema) (subst cv, simp add: operand safe_return)
qed

lemma safe_convert_decimal:
  assumes "good C t m" and "t \<in> set scalar_messages" and "weight m \<le> n"
  shows "safe (state_ok C Q) (convert_decimal_field C visitor m ty)"
  unfolding convert_decimal_field_def
proof (rule safe_if [OF safe_conversion_sub [OF _ assms(1,2)] safe_return], assumption)
  show "(''convert_decimal'', ''DecimalExpression'') \<in> set conversion_fields" by (simp add: conversion_fields_def)
  fix x
  assume x: "good C ''DecimalExpression'' x" "nesting x < nesting m"
    "''convert_decimal'' = ''convert_decimal'' \<longrightarrow> decimals (penv C)"
  have operand: "safe (state_ok C Q) (bindM (conversion_of C visitor x ty Decimal b) (\<lambda>x. returnM (Some x)))"
    if "b \<Longrightarrow> isinstance_Int ty" for b
    by (rule safe_bind [OF safe_conversion_of safe_return])
      (use x that weight_sub [OF assms(3) x(2)] in simp_all)
  show "safe (state_ok C Q) (case ty of
          IntT w sgd \<Rightarrow> bindM (conversion_of C visitor x ty Decimal True) (\<lambda>x. returnM (Some x))
        | BytesM k \<Rightarrow>
            (if 21 \<le> k then bindM (conversion_of C visitor x ty Decimal False) (\<lambda>x. returnM (Some x))
             else returnM None)
        | _ \<Rightarrow> bindM (conversion_of C visitor x ty Decimal False) (\<lambda>x. returnM (Some x)))"
    using operand by (cases ty) (simp_all add: isinstance_Int_def safe_return)
qed

lemma safe_convert_bytesm:
  assumes "good C t m" and "t \<in> set scalar_messages" and "weight m \<le> n"
  shows "safe (state_ok C Q) (convert_bytesm_field C visitor m ty)"
  unfolding convert_bytesm_field_def
proof (rule safe_if [OF safe_conversion_sub [OF _ assms(1,2)] safe_return], assumption)
  show "(''convert_bytesm'', ''ConvertFromBytesM'') \<in> set conversion_fields" by (simp add: conversion_fields_def)
  fix cm
  assume cm: "good C ''ConvertFromBytesM'' cm" "nesting cm < nesting m"
  then obtain k where k: "extract_vy_type TYPE_DEPTH (decimals (penv C)) True cm = Inr (BytesM k)"
    using wrapped_bytesm [of "decimals (penv C)" cm] unfolding good_def by blast
  have operand: "safe (state_ok C Q) (bindM (conversion_of C visitor x ty (BytesM k) False) (\<lambda>x. returnM (Some x)))"
    if "good C ''BytesMExpression'' x" "nesting x \<le> nesting cm" for x
  proof (rule safe_bind [OF safe_conversion_of safe_return])
    show "weight x < n" using weight_sub [OF assms(3)] cm(2) that(2) by simp
  qed (use that in simp_all)
  show "safe (state_ok C Q) (bindM (visit_wrapped_type C cm) (\<lambda>input_type.
        bindM (sub C cm ''exp'') (\<lambda>x.
        bindM (conversion_of C visitor x ty input_type False) (\<lambda>x. returnM (Some x)))))"
    unfolding visit_wrapped_type_def k bind_liftR
    by (rule safe_sub [OF cm(1)], rule schema, rule operand)
qed

lemma safe_convert_field:
  assumes "good C t m" and "t \<in> set scalar_messages" and "weight m \<le> n"
    and "(f, expr_message u) \<in> set conversion_fields" and "typed (decimals (penv C)) u"
  shows "safe (state_ok C Q) (convert_field C visitor m f ty u ok)"
  unfolding convert_field_def
proof (rule safe_if [OF safe_conversion_sub [OF _ assms(1,2,4)] safe_return])
  fix x
  assume "good C (expr_message u) x" "nesting x < nesting m"
  then show "safe (state_ok C Q) (bindM (conversion_of C visitor x ty u False) (\<lambda>x. returnM (Some x)))"
    by (intro safe_bind safe_return safe_conversion_of assms(5) weight_sub [OF assms(3)]) simp_all
qed simp

lemma safe_conversion:
  assumes "good C t m" and "t \<in> set scalar_messages" and "weight m \<le> n"
  shows "safe (state_ok C Q) (visit_conversion C visitor m ty)"
proof -
  obtain j where byte: "bytes_input ty = Bytes j" by (cases "attr_m ty") (auto simp: bytes_input_def)
  obtain k where str: "string_input ty = String k" by (cases "attr_m ty") (auto simp: string_input_def)
  note convs = safe_convert_int [OF assms] safe_convert_decimal [OF assms] safe_convert_bytesm [OF assms]
    safe_convert_field [OF assms]
  show ?thesis
    unfolding visit_conversion_def byte str
    by (intro safe_first_of convs) (simp_all add: conversion_fields_def)
qed

lemma safe_convert_or_literal:
  assumes "good C (expr_message t) m" and "scalar_typed (decimals (penv C)) t" and "weight m \<le> n"
  shows "safe (in_type C t z) (convert_or_literal C visitor m)"
proof -
  have "kind_of C (expr_message t) ''lit'' = Some (KMsg ''Literal'')"
    using assms(2) by (cases t) (simp_all add: schema)
  then show ?thesis
    unfolding convert_or_literal_def literal_field_def
    by (intro safe_top safe_or_else safe_conversion [OF assms(1) scalar_message [OF assms(2)] assms(3)]
        safe_sub [OF assms(1)] safe_literal [OF assms(2)])
qed

end

end
