(* ===== verification/Conv_Safe_Handlers.thy ===== *)
theory Conv_Safe_Handlers imports Conv_Safe_Expr begin

text \<open>
  The handlers, and by induction on the depth the recursion over all of them: with as many frames as
  the weight of the message, an expression raises nothing unexpected, \<open>RecursionError\<close>
  included.
\<close>

section \<open>Calls\<close>

context safe_visitor begin

lemma safe_optional_arg [safe_rules]:
  assumes "good C u m" and "kind_of C u f = Some (KMsg (expr_message t))" and "h = handler_of t"
    and "typed (decimals (penv C)) t" and "deep n m"
  shows "safe (state_ok C Q) (optional_arg C visitor m f t h keyword acc)"
  unfolding optional_arg_def
  by (rule assms safe_rules safe_bind refl | erule deepD [OF assms(5)] | assumption)+

lemma safe_min_proxy [safe_rules]:
  assumes "good C u m" and "u = ''CreateMinimalProxy'' \<or> u = ''CreateCopyOf''" and "deep n m"
  shows "safe (in_type C Address z) (visit_create_min_proxy_or_copy_of C visitor m name)"
proof -
  have kinds: "kind_of C u ''target'' = Some (KMsg (expr_message Address))"
    "kind_of C u ''value'' = Some (KMsg (expr_message (IntT 256 False)))"
    "kind_of C u ''salt'' = Some (KMsg (expr_message (BytesM 32)))"
    using assms(2) by (auto simp: schema)
  show ?thesis
    unfolding visit_create_min_proxy_or_copy_of_def
    by (rule assms(1,3) kinds safe_rules safe_bind | erule deepD [OF assms(3)] | assumption | (simp; fail))+
qed

lemma safe_blueprint_raw_args [safe_rules]:
  assumes "good C ''CreateFromBlueprint'' m" and "deep n m"
  shows "safe (state_ok C Q) (blueprint_raw_args C visitor m acc)"
  unfolding blueprint_raw_args_def
  by (rule assms safe_rules schema safe_bind | erule deepD [OF deep_le [OF assms(2)]] | assumption | (simp; fail))+

lemma safe_create_from_blueprint [safe_rules]:
  assumes "good C ''CreateFromBlueprint'' m" and "deep n m"
  shows "safe (in_type C Address z) (visit_create_from_blueprint C visitor m)"
  unfolding visit_create_from_blueprint_def
  by (rule assms safe_rules safe_bind | rule schema | erule deepD [OF assms(2)] | assumption | (simp add: schema; fail))+

lemma safe_ecrecover [safe_rules]:
  assumes "good C ''EcRecover'' m" and "deep n m"
  shows "safe (state_ok C Q) (visit_ecrecover C visitor m)"
proof -
  have part: "safe (in_type C t z) (bindM (sub C m f) (visitor h))"
    if "kind_of C ''EcRecover'' f = Some (KMsg (expr_message t))" "h = handler_of t" "typed (decimals (penv C)) t"
    for t z f h
    by (rule safe_sub [OF assms(1) that(1)], rule safe_visit [OF that(2) _ refl that(3)], assumption)
      (rule deepD [OF assms(2)])
  have int_part: "safe (in_type C (IntT 256 False) z) (ec_int C visitor m f r)"
    if "kind_of C ''EcRecover'' f = Some (KMsg ''IntExpression'')" for z f r
    unfolding ec_int_def by (rule safe_option safe_return part | (simp add: that; fail))+
  have bytes_part: "safe (in_type C (BytesM 32) z) (ec_part C visitor m f H_bytes_m)"
    if "kind_of C ''EcRecover'' f = Some (KMsg ''BytesMExpression'')" for z f
    unfolding ec_part_def by (rule safe_when_set [OF assms(1)] part that | (simp add: that; fail))+
  show ?thesis
    unfolding visit_ecrecover_def ecrecover_bytes_def
    by (rule safe_with_type safe_prod safe_return int_part bytes_part part safe_when_set [OF assms(1)] schema safe_bind
        | (simp add: schema; fail))+
qed

end

section \<open>raw_call\<close>

lemma py_int_nat: "py_int (nat_str k) = Inr (int k)"
proof -
  have "take 1 (nat_str k) \<noteq> ''-''" by (cases "nat_str k") (auto simp: nat_str_not_minus)
  moreover have "list_all is_digit (nat_str k)" by (simp add: list_all_iff nat_str_digits)
  ultimately show ?thesis by (simp add: py_int_def Let_def)
qed

text \<open>The literal of an unsigned integer reads back as a natural number.\<close>

lemma safe_int_literal:
  assumes "good C ''Literal'' lit"
    and "\<And>acc w. py_int acc = Inr w \<Longrightarrow> 0 \<le> w \<Longrightarrow> safe (in_type C (IntT k False) z) (q acc)"
  shows "safe (in_type C (IntT k False) z) (bindM (create_literal C lit) q)"
proof -
  obtain v where v: "get_int (decimals (penv C)) lit ''intval'' = Inr v"
    by (rule good_num [OF assms(1)], rule schema) (simp_all add: is_int_kind_def)
  have neg: "\<not> v mod 2 ^ k < 0" by (simp add: not_less)
  have "int_literal k False v = nat_str (nat (v mod 2 ^ k))"
    by (simp add: int_literal_def get_value_boundaries_def py_str_def neg)
  then have "py_int (int_literal k False v) = Inr (v mod 2 ^ k)" by (simp add: py_int_nat)
  then have "safe (in_type C (IntT k False) z) (q (int_literal k False v))" by (rule assms(2)) simp
  moreover have "create_literal C lit s = Inr (int_literal k False v, s)" if "in_type C (IntT k False) z s" for s
    using that by (simp add: create_literal_def bindM_def top_type_def state_ok_def view_of_def v)
  ultimately show ?thesis by (simp add: safe_def bindM_def)
qed

lemma safe_result_variable:
  assumes "typed (decimals (penv C)) t"
  shows "safe (state_ok C Q) (result_variable t)"
  unfolding result_variable_def
  by (rule safe_rules safe_create_var [OF assms] safe_bind | (simp; fail))+

lemma safe_raw_call_output:
  assumes "0 \<le> max_out"
  shows "safe (state_ok C Q) (raw_call_output max_out expr_size expr_bool)"
proof -
  have "mk_Bytes k = Inr (Bytes (nat k))" if "0 \<le> k" for k using that by (simp add: mk_Bytes_def)
  then have step: "safe (state_ok C Q) (bindM (liftR (mk_Bytes k)) (\<lambda>t. bindM (result_variable t) (\<lambda>(response, bytes_decl).
      returnM (k, acc, response, bytes_decl))))" if "0 \<le> k" for k acc
    using that by (simp, intro safe_bind safe_result_variable safe_prod safe_return) simp
  show ?thesis
    unfolding raw_call_output_def Let_def
    by (rule safe_if safe_return step | (use assms in simp; fail))+
qed

lemma safe_raw_call_status: "safe (state_ok C Q) (raw_call_status revert expr_size expr_bool)"
  unfolding raw_call_status_def
  by (rule safe_rules safe_result_variable safe_bind | (simp; fail))+

lemma safe_raw_call_mutability: "safe (state_ok C Q) (raw_call_mutability static)"
  unfolding raw_call_mutability_def
  by (rule safe_mod) (simp add: state_ok_mut VIEW_def NON_PAYABLE_def PAYABLE_def)

context safe_visitor begin

lemma safe_raw_call_arg:
  assumes "good C t m" and "kind_of C t f = Some (KMsg ''IntExpression'')" and "deep n m"
  shows "safe (in_type C (IntT 256 False) z) (raw_call_arg C visitor m f)"
  unfolding raw_call_arg_def
  by (rule assms(1,2) safe_rules safe_bind | erule deepD [OF assms(3)] | assumption | (simp; fail))+

lemma safe_raw_call_outputs:
  assumes "good C ''RawCall'' m" and "deep n m"
  shows "safe (in_type C (IntT 256 False) z) (raw_call_outputs C visitor m expr_size expr_bool)"
proof -
  have rest: "safe (in_type C (IntT 256 False) z)
      (bindM (raw_call_output max_out expr_size expr_bool) (\<lambda>(max_out, acc, response, bytes_decl).
       bindM (raw_call_arg C visitor m ''gas'') (\<lambda>gas.
       bindM (raw_call_arg C visitor m ''value'') (\<lambda>v.
         returnM (max_out, acc @ gas @ v, response, bytes_decl)))))" if "0 \<le> max_out" for max_out
    by (intro safe_bind safe_raw_call_output that safe_prod safe_raw_call_arg [OF assms(1) _ assms(2)] safe_return schema)
  show ?thesis
    unfolding raw_call_outputs_def bind_assocM
    by (rule safe_sub [OF assms(1)], rule schema, erule safe_int_literal) (simp add: rest)
qed

lemma safe_raw_call_flags:
  assumes "good C ''RawCall'' m"
  shows "safe (in_type C Bool z) (raw_call_flags C m expr_size expr_bool)"
  unfolding raw_call_flags_def Let_def
  by (rule assms safe_rules safe_raw_call_status safe_bind | rule schema | assumption | (simp; fail))+

lemma safe_raw_call [safe_rules]:
  assumes "good C ''RawCall'' m" and "deep n m"
  shows "safe (state_ok C Q) (visit_raw_call C visitor m expr_size expr_bool)"
  unfolding visit_raw_call_def Let_def
  by (rule assms safe_raw_call_outputs safe_raw_call_flags safe_raw_call_mutability safe_rules safe_bind
      | rule schema | erule deepD [OF assms(2)] | assumption | (simp; fail))+

section \<open>Hashes, curve operations, concatenations\<close>

lemma safe_hash256:
  assumes "good C u m" and "u = ''Sha256'' \<or> u = ''Keccak256''" and "deep n m"
  shows "safe (state_ok C Q) (visit_hash256 C visitor m name)"
proof -
  have kinds: "kind_of C u ''strVal'' = Some (KMsg (expr_message (String 100)))"
    "kind_of C u ''bVal'' = Some (KMsg (expr_message (Bytes 100)))"
    "kind_of C u ''bmVal'' = Some (KMsg (expr_message (BytesM 32)))"
    using assms(2) by (auto simp: schema)
  show ?thesis
    unfolding visit_hash256_def
    by (rule assms(1) kinds safe_when_set [OF assms(1)] safe_rules safe_bind refl | erule deepD [OF assms(3)]
        | assumption | (simp; fail))+
qed

lemma safe_hash_value:
  assumes "good C u m" and "u = ''Sha256'' \<or> u = ''Keccak256''" and "deep n m" and "attr_m t = Inr k"
  shows "safe (state_ok C Q) (hash_value C visitor name t m)"
  unfolding hash_value_def assms(4) bind_liftR
  by (intro safe_bind safe_hash256 [OF assms(1-3)] safe_return)

lemma safe_ecadd:
  assumes "good C ''EcAdd'' m" and "deep n m"
  shows "safe (state_ok C Q) (visit_ecadd C visitor m)"
  unfolding visit_ecadd_def
  by (rule assms safe_rules safe_bind | rule schema | erule deepD [OF assms(2)] | assumption
      | (simp add: element_typed_def byte_class_def; fail))+

lemma safe_ecmul:
  assumes "good C ''EcMul'' m" and "deep n m"
  shows "safe (state_ok C Q) (visit_ecmul C visitor m)"
  unfolding visit_ecmul_def
  by (rule assms safe_rules safe_bind | rule schema | erule deepD [OF assms(2)] | assumption
      | (simp add: element_typed_def byte_class_def; fail))+

end

text \<open>The sizes of the parts stay natural when they are scaled.\<close>

lemma scale_sizes_nonneg:
  assumes "0 \<le> max_size" "0 \<le> a" "0 \<le> b" and "scale_sizes max_size a b = (x, y)"
  shows "0 \<le> x" and "0 \<le> y"
  using assms by (auto simp: scale_sizes_def Let_def pos_imp_zdiv_nonneg_iff split: if_splits)

text \<open>The fields of the message of a list, and that its elements are nearer to scalars.\<close>

definition list_message :: "bool \<Rightarrow> vy_type \<Rightarrow> vy_type \<Rightarrow> bool" where
  "list_message d t b \<longleftrightarrow>
     field_kind d (expr_message t) ''rexp'' = Some (KMsg (expr_message b)) \<and>
     field_kind d (expr_message t) ''exp'' = Some (KRep (expr_message b)) \<and>
     field_kind d (expr_message t) ''varRef'' = Some (KMsg ''VarRef'') \<and>
     list_rank (expr_message b) < list_rank (expr_message t)"

lemma list_message:
  assumes "typed d t" and "attr_base_type t = Inr b"
  shows "list_message d t b"
proof -
  have fixed: "typed d (FixedList k b') \<Longrightarrow> list_message d (FixedList k b') b'" for k b'
    by (cases b') (simp_all add: list_message_def schema element_typed_def byte_class_def list_rank_def)
  have nested: "typed d (DynArray k (FixedList k' b') cur) \<Longrightarrow>
      list_message d (DynArray k (FixedList k' b') cur) (FixedList k' b')" for k k' b' cur
    by (cases b') (simp_all add: list_message_def schema element_typed_def byte_class_def list_rank_def)
  have dyn: "typed d (DynArray k b' cur) \<Longrightarrow> list_message d (DynArray k b' cur) b'" for k b' cur
    using nested by (cases b') (simp_all add: list_message_def schema list_rank_def)
  show ?thesis using assms fixed dyn
    by (cases t) (simp_all add: attr_base_type_def del: typed.simps expr_message.simps)
qed

context safe_visitor begin

lemma safe_concat_rest:
  assumes "\<And>x. x \<in> set es \<Longrightarrow> good C u x \<and> nesting x < nesting m" and "kind_of C u ''s_size'' = Some (KUInt 32)"
    and "\<And>x k. good C u x \<Longrightarrow> nesting x \<le> nesting m \<Longrightarrow> 0 \<le> k \<Longrightarrow> safe P (part x k)"
  shows "safe P (concat_rest C part max_size es sz acc)"
  using assms(1)
proof (induction es arbitrary: sz acc)
  case (Cons e es)
  have e: "good C u e" "nesting e \<le> nesting m" and es: "\<And>x. x \<in> set es \<Longrightarrow> good C u x \<and> nesting x < nesting m"
    using Cons.prems by force+
  show ?case
    unfolding concat_rest.simps
    by (rule safe_num [OF e(1) assms(2)], simp add: is_int_kind_def)
      (intro safe_if safe_bind assms(3) e safe_prod Cons.IH es; simp add: int_of_kind_def)
qed (simp add: safe_return)

lemma safe_concat:
  assumes "good C t m" and "attr_m ty = Inr k"
    and "kind_of C t ''a'' = Some (KMsg u)" and "kind_of C t ''b'' = Some (KMsg u)"
    and "kind_of C t ''c'' = Some (KRep u)" and "kind_of C u ''s_size'' = Some (KUInt 32)"
    and "\<And>x k. good C u x \<Longrightarrow> nesting x \<le> nesting m \<Longrightarrow> 0 \<le> k \<Longrightarrow> safe (in_type C ty z) (part x k)"
  shows "safe (in_type C ty z) (visit_concat C part m)"
proof -
  have parts: "safe (in_type C ty z) (bindM (part ma i) (\<lambda>(a, a_size). bindM (part mb j) (\<lambda>(b, b_size).
      bindM (rep C m ''c'') (\<lambda>cs.
      bindM (concat_rest C part (int k) cs (a_size + b_size) (''concat('' @ a @ '', '' @ b)) (\<lambda>acc.
        returnM (acc @ '')''))))))"
    if "good C u ma" "good C u mb" "nesting ma \<le> nesting m" "nesting mb \<le> nesting m" "0 \<le> i" "0 \<le> j" for ma mb i j
    by (rule safe_prod safe_rep [OF assms(1,5)] safe_return that safe_bind safe_concat_rest [OF _ assms(6)] assms(7)
        | assumption)+
  show ?thesis
    unfolding visit_concat_def
  proof (rule safe_top, unfold assms(2) bind_liftR, rule safe_sub [OF assms(1,3)], rule safe_sub [OF assms(1,4)],
      rule safe_num [OF _ assms(6)], assumption, simp add: is_int_kind_def,
      rule safe_num [OF _ assms(6)], assumption, simp add: is_int_kind_def)
    fix ma mb i j
    assume sub: "good C u ma" "nesting ma \<le> nesting m" "good C u mb" "nesting mb \<le> nesting m"
      and size: "int_of_kind (KUInt 32) i" "int_of_kind (KUInt 32) j"
    obtain x y where xy: "scale_sizes (int k) i j = (x, y)" by (cases "scale_sizes (int k) i j")
    have "0 \<le> x" "0 \<le> y" using scale_sizes_nonneg [OF _ _ _ xy] size by (simp_all add: int_of_kind_def)
    then show "safe (in_type C ty z) (let (a_size, b_size) = scale_sizes (int k) i j in
        bindM (part ma a_size) (\<lambda>(a, a_size). bindM (part mb b_size) (\<lambda>(b, b_size).
        bindM (rep C m ''c'') (\<lambda>cs.
        bindM (concat_rest C part (int k) cs (a_size + b_size) (''concat('' @ a @ '', '' @ b)) (\<lambda>acc.
          returnM (acc @ '')''))))))"
      unfolding xy Let_def prod.case using parts sub by blast
  qed
qed

lemma safe_string_part:
  assumes "good C ''StringTypeSize'' x" and "deep n x" and "0 \<le> k"
  shows "safe (state_ok C Q) (string_part C visitor x k)"
proof -
  have "mk_String k = Inr (String (nat k))" using assms(3) by (simp add: mk_String_def)
  then show ?thesis
    unfolding string_part_def
    by simp (rule assms(1) safe_rules safe_bind schema | erule deepD [OF assms(2)] | (simp; fail))+
qed

lemma safe_bytes_part:
  assumes "good C ''BytesTypesSize'' x" and "deep n x" and "0 \<le> k"
  shows "safe (state_ok C Q) (bytes_part C visitor x k)"
proof -
  have bm: "mk_BytesM j = Inr (BytesM (nat j))" if "0 < j" "j \<le> 32" for j using that by (simp add: mk_BytesM_def)
  have bs: "mk_Bytes k = Inr (Bytes (nat k))" using assms(3) by (simp add: mk_Bytes_def)
  have small: "safe (state_ok C Q) (bindM (liftR (mk_BytesM j)) (\<lambda>t.
       bindM (with_type t (bindM (sub C x ''b_bm'') (visitor H_bytes_m))) (\<lambda>v. returnM (v, j))))"
    if "0 < j" "j \<le> 32" for j
    by (simp add: bm [OF that]) (rule assms(1) safe_rules safe_bind schema | erule deepD [OF assms(2)] | (simp; fail))+
  have large: "safe (state_ok C Q) (bindM (liftR (mk_Bytes k)) (\<lambda>t.
       bindM (with_type t (bindM (sub C x ''b_bs'') (visitor H_bytes))) (\<lambda>v. returnM (v, k))))"
    by (simp add: bs) (rule assms(1) safe_rules safe_bind schema | erule deepD [OF assms(2)] | (simp; fail))+
  show ?thesis
    unfolding bytes_part_def Let_def
    by (rule safe_has [OF assms(1)], rule schema, rule safe_if, rule small)
      (use assms(3) large in \<open>auto simp: Let_def\<close>)
qed

section \<open>Lists\<close>

lemma safe_pad_list:
  "scalar_typed (decimals (penv C)) t \<Longrightarrow> safe (state_ok C Q) (pad_list C t k acc)"
proof (induction k arbitrary: acc)
  case (Suc k)
  then show ?case unfolding pad_list.simps by (intro safe_bind safe_generate)
qed (simp add: safe_return)

lemma safe_list_items:
  assumes "\<And>x. x \<in> set es \<Longrightarrow> safe P (visit_item x)"
  shows "safe P (list_items visit_item size_max es i acc)"
  using assms
proof (induction es arbitrary: i acc)
  case (Cons e es)
  then show ?case unfolding list_items.simps by (intro safe_if safe_return safe_bind) simp_all
qed (simp add: safe_return)

text \<open>
  A dynamic array of two 256-bit integers is asked for a field only fixed lists have.
\<close>

lemma safe_curve_value:
  assumes "typed (decimals (penv C)) t" and "attr_base_type t = Inr b" and "good C (expr_message t) m"
    and "weight m \<le> n"
  shows "safe (state_ok C Q) (curve_value C visitor m b k)"
proof (cases "is_point b k")
  case True
  then obtain w sgd where b: "b = IntT w sgd" by (cases b) (auto simp: is_point_def)
  have "expr_message t = ''FixedListInt'' \<or> expr_message t = ''DynArrayInt''"
    using assms(2) b by (cases t) (auto simp: attr_base_type_def)
  then show ?thesis
  proof
    assume fixed: "expr_message t = ''FixedListInt''"
    have m: "good C ''FixedListInt'' m" using assms(3) fixed by simp
    show ?thesis
      unfolding curve_value_def
      by (rule m safe_rules safe_ecadd safe_ecmul | rule schema | erule deep_sub [OF assms(4)] | assumption)+
  next
    assume dyn: "expr_message t = ''DynArrayInt''"
    have "field_kind d ''DynArrayInt'' ''ecadd'' = None" for d by (simp add: schema_eval message_fields)
    then have "when_has C m ''ecadd'' q s = Inl (ValueError ''ecadd'')" for q :: "string conv" and s
      using assms(3) dyn by (simp add: when_has_def has_def bindM_def HasField_def good_def)
    then have run: "first_of (when_has C m ''ecadd'' q # ms) s = Inl (ValueError ''ecadd'')" for q :: "string conv" and ms s
      by (simp add: bindM_def)
    have "safe (state_ok C Q) (first_of (when_has C m ''ecadd'' q # ms))" for q :: "string conv" and ms
      unfolding safe_def run by (simp add: expected_error_def)
    then show ?thesis unfolding curve_value_def by (intro safe_if safe_return)
  qed
qed (simp add: curve_value_def safe_return)

lemma safe_list_values:
  assumes "typed (decimals (penv C)) t" and "attr_base_type t = Inr b" and "good C (expr_message t) m"
    and "weight m \<le> n"
  shows "safe (in_type C t z) (list_values C visitor m t b k)"
proof -
  have b: "typed (decimals (penv C)) b"
    using assms(1,2) by (cases t) (simp_all add: attr_base_type_def del: typed.simps, (metis typed_list_elem)+)
  obtain a where h: "expression_handler b = Inr (handler_of b, a)" using handler_typed [OF b] .
  note kinds = list_message [OF assms(1,2), unfolded list_message_def]
  have rank: "weight x < n" if "good C (expr_message b) x" "nesting x \<le> nesting m" for x
    using weight_rank [OF assms(4) that(2)] kinds that(1) assms(3) by (simp add: good_def)
  have items: "safe (in_type C b y)
      (bindM (bindM (sub C m ''rexp'') (visitor (handler_of b))) (\<lambda>v.
       bindM (rep C m ''exp'') (\<lambda>es. list_items (visitor (handler_of b)) k es 1 v)))" for y
    by (rule safe_sub [OF assms(3)] safe_rep [OF assms(3)] safe_list_items visitor_safe [OF b] safe_bind
        | (simp add: kinds; fail) | (rule rank; simp add: less_imp_le_nat; fail) | assumption)+
  have pad: "safe (in_type C t y) (if \<not> isinstance_DynArray t \<and> i < k \<and> \<not> isinstance_FixedList b
            then pad_list C b (k - i) acc else returnM acc)" for i acc y
  proof (rule safe_if [OF safe_pad_list safe_return])
    assume "\<not> isinstance_DynArray t \<and> i < k \<and> \<not> isinstance_FixedList b"
    then show "scalar_typed (decimals (penv C)) b" using b by (cases b) (simp_all add: isinstance_FixedList_def)
  qed
  show ?thesis
    unfolding list_values_def h bind_liftR prod.case
    by (rule safe_bind [OF safe_with_type [OF items]], rule safe_prod, rule safe_bind [OF pad safe_return])
qed

lemma safe_list_expression:
  assumes "typed (decimals (penv C)) t" and "handler_of t = H_list" and "good C (expr_message t) m"
    and "weight m \<le> n"
  shows "safe (in_type C t z) (visit_list_expression C visitor m)"
proof -
  obtain b k where b: "attr_base_type t = Inr b" "attr_size t = Inr k"
    using assms(1,2) by (cases t) (simp_all add: attr_base_type_def attr_size_def)
  have "kind_of C (expr_message t) ''varRef'' = Some (KMsg ''VarRef'')"
    using list_message [OF assms(1) b(1)] by (simp add: list_message_def)
  then show ?thesis
    unfolding visit_list_expression_def
    by (intro safe_or_else safe_var_ref_field [OF assms(3)] safe_top)
      (simp_all add: b, intro safe_or_else safe_curve_value [OF assms(1) b(1) assms(3,4)]
        safe_list_values [OF assms(1) b(1) assms(3,4)])
qed

end

section \<open>Operators\<close>

text \<open>A complex power and a shift by a float are compared with a bound.\<close>

lemma check_binop_error: "check_binop_bounds E k left bin_op right = Inl e \<Longrightarrow> expected_error e"
proof -
  have less: "val_less E v j = Inl e \<Longrightarrow> expected_error e" for v j
    by (cases v) (auto simp: val_less_def expected_error_def)
  have greater: "val_greater E v j = Inl e \<Longrightarrow> expected_error e" for v j
    by (cases v) (auto simp: val_greater_def expected_error_def)
  have amount: "shift_amount E v = Inl e \<Longrightarrow> expected_error e" for v
    by (auto simp: shift_amount_def expected_error_def split: option.splits)
  have bind: "bindR r q = Inl e \<Longrightarrow> r = Inl e \<or> (\<exists>x. r = Inr x \<and> q x = Inl e)" for r :: "'x res" and q :: "'x \<Rightarrow> 'y res"
    by (cases r) auto
  have pow: "pow_operands E l r = Inl e \<Longrightarrow> expected_error e" for l r
    by (cases "py_eval E r") (auto simp: pow_operands_def less dest!: bind)
  have shift: "shift_operand E r = Inl e \<Longrightarrow> expected_error e" for r
    by (cases "py_eval E r") (auto simp: shift_operand_def greater amount dest!: bind split: if_splits)
  show "check_binop_bounds E k left bin_op right = Inl e \<Longrightarrow> expected_error e"
    by (auto simp: check_binop_bounds_def Let_def pow shift dest!: bind split: if_splits)
qed

lemma safe_bin_op_of:
  assumes "good C u m" and "kind_of C u ''op'' = Some (KEnum c)" and "c \<le> length ops" and "ops \<noteq> []"
  shows "safe P (bin_op_of C m ops)"
proof -
  have op: "safe P (liftR (get_bin_op i ops))" if "int_of_kind (KEnum c) i" for i
    using that assms(3,4) by (auto simp: int_of_kind_def get_bin_op_def safe_def)
  show ?thesis
    unfolding bin_op_of_def by (rule safe_num [OF assms(1,2)], simp add: is_int_kind_def, rule op)
qed

context safe_visitor begin

lemma safe_operands:
  assumes "good C u m" and "kind_of C u ''left'' = Some (KMsg (expr_message t))"
    and "kind_of C u ''right'' = Some (KMsg (expr_message t))" and "h = handler_of t"
    and "typed (decimals (penv C)) t" and "deep n m"
  shows "safe (in_type C t z) (operands C visitor h m)"
  unfolding operands_def
  by (rule assms safe_rules safe_bind refl | erule deepD [OF assms(6)] | assumption)+

lemma safe_plain_bin_op:
  assumes "good C u m" and "kind_of C u ''left'' = Some (KMsg (expr_message t))"
    and "kind_of C u ''right'' = Some (KMsg (expr_message t))" and "h = handler_of t"
    and "typed (decimals (penv C)) t" and "deep n m"
    and "kind_of C u ''op'' = Some (KEnum c)" and "c \<le> length ops" and "ops \<noteq> []"
  shows "safe (in_type C t z) (plain_bin_op C visitor h ops m)"
  unfolding plain_bin_op_def
  by (intro safe_bind safe_prod safe_with_op safe_code_offset safe_bin_op_of [OF assms(1,7-9)]
      safe_operands [OF assms(1-6)])

lemma safe_comparison:
  assumes "good C u m" and "kind_of C u ''left'' = Some (KMsg (expr_message t))"
    and "kind_of C u ''right'' = Some (KMsg (expr_message t))" and "h = handler_of t"
    and "typed (decimals (penv C)) t" and "deep n m" and "kind_of C u ''op'' = Some (KEnum 6)"
  shows "safe (state_ok C Q) (comparison C visitor h t m)"
proof -
  have "safe P (bin_op_of C m INT_BIN_OP_BOOL_MAP)" for P
    by (rule safe_bin_op_of [OF assms(1,7)]) (simp_all add: INT_BIN_OP_BOOL_MAP_def)
  then show ?thesis
    unfolding comparison_def
    by (intro safe_bind safe_with_type safe_prod safe_with_op safe_code_offset safe_return safe_operands [OF assms(1-6)])
qed

lemma safe_not_op:
  assumes "good C ''BoolUnOp'' m" and "deep n m"
  shows "safe (in_type C Bool z) (not_op C visitor m)"
  unfolding not_op_def
  by (rule assms safe_rules safe_bind schema | erule deepD [OF assms(2)] | assumption | (simp; fail))+

lemma safe_int_bin_op:
  assumes "good C ''IntBinOp'' m" and "deep n m"
  shows "safe (in_type C (IntT w sgd) z) (int_bin_op C visitor (IntT w sgd) m)"
proof -
  have ops: "safe P (bin_op_of C m (int_bin_op_map (conv_class C)))" for P
    by (rule safe_bin_op_of [OF assms(1)], rule schema)
      (cases "conv_class C"; simp add: int_bin_op_map_def BIN_OP_MAP_def)+
  have bounds: "safe P (liftR (binop_bounds_of C (IntT w sgd) l bin_op r))" for P :: "conv_state \<Rightarrow> bool" and l bin_op r
    by (rule safe_lift) (simp add: binop_bounds_of_def check_binop_error)
  have check: "safe P (liftR (check_bounds_of C (IntT w sgd) acc))" for P :: "conv_state \<Rightarrow> bool" and acc
    by (simp add: check_bounds_of_def safe_def)
  show ?thesis
    unfolding int_bin_op_def
    by (rule ops bounds check safe_code_offset safe_with_op safe_prod safe_operands [OF assms(1)] safe_bind
        | rule schema | rule assms | (simp add: schema; fail))+
qed

lemma safe_int_un_op:
  assumes "good C ''IntUnOp'' m" and "deep n m"
  shows "safe (in_type C (IntT w sgd) z) (int_un_op C visitor (IntT w sgd) m)"
proof -
  have check: "safe P (liftR (check_bounds_of C (IntT w sgd) acc))" for P :: "conv_state \<Rightarrow> bool" and acc
    by (simp add: check_bounds_of_def safe_def)
  have signed: "attr_signed (IntT w sgd) = Inr sgd" by (simp add: attr_signed_def)
  show ?thesis
    unfolding int_un_op_def signed bind_liftR
    by (rule assms check safe_rules safe_bind | rule schema | erule deepD [OF assms(2)] | assumption | (simp; fail))+
qed

lemma safe_decimal_un_op:
  assumes "good C ''DecimalUnOp'' m" and "deep n m" and "decimals (penv C)"
  shows "safe (in_type C Decimal z) (decimal_un_op C visitor m)"
  unfolding decimal_un_op_def
  by (rule assms safe_rules safe_bind | rule schema | erule deepD [OF assms(2)] | assumption | (simp add: assms; fail))+

section \<open>The handlers\<close>

lemma safe_int:
  assumes "good C ''IntExpression'' m" and "weight m \<le> n"
  shows "safe (in_type C (IntT w sgd) z) (visit_int_expression C visitor m)"
proof -
  have end_of: "safe (in_type C (IntT w sgd) z) (convert_or_literal C visitor m)"
    by (rule safe_convert_or_literal) (use assms in simp_all)
  show ?thesis
    unfolding visit_int_expression_def
    by (rule assms(1) end_of safe_rules safe_int_bin_op safe_int_un_op | rule schema | erule deep_sub [OF assms(2)]
        | assumption)+
qed

lemma safe_decimal:
  assumes "good C ''DecimalExpression'' m" and "weight m \<le> n" and "decimals (penv C)"
  shows "safe (in_type C Decimal z) (visit_decimal_expression C visitor m)"
proof -
  have end_of: "safe (in_type C Decimal z) (convert_or_literal C visitor m)"
    by (rule safe_convert_or_literal) (use assms in simp_all)
  have bin: "safe (in_type C Decimal z) (plain_bin_op C visitor H_decimal (decimal_bin_op_map (conv_class C)) x)"
    if "good C ''DecimalBinOp'' x" "deep n x" for x
    by (rule safe_plain_bin_op [OF that(1), where c = 5])
      (use assms(3) that(2) in \<open>cases "conv_class C"; simp add: schema decimal_bin_op_map_def BIN_OP_MAP_def\<close>)+
  show ?thesis
    unfolding visit_decimal_expression_def
    by (rule assms(1,3) end_of bin safe_rules safe_decimal_un_op | rule schema | erule deep_sub [OF assms(2)]
        | assumption)+
qed

lemma safe_bytes_m:
  assumes "good C ''BytesMExpression'' m" and "weight m \<le> n"
  shows "safe (in_type C (BytesM k) z) (visit_bytes_m_expression C visitor m)"
proof -
  have end_of: "safe (in_type C (BytesM k) z) (convert_or_literal C visitor m)"
    by (rule safe_convert_or_literal) (use assms in simp_all)
  have hash: "good C u x \<Longrightarrow> u = ''Sha256'' \<or> u = ''Keccak256'' \<Longrightarrow> deep n x \<Longrightarrow>
      safe (in_type C (BytesM k) z) (hash_value C visitor name (BytesM k) x)" for u x name
    by (rule safe_hash_value) (simp_all add: attr_m_def)
  show ?thesis
    unfolding visit_bytes_m_expression_def
    by (rule assms(1) end_of hash safe_rules | rule schema | erule deep_sub [OF assms(2)] | assumption | (simp; fail))+
qed

lemma safe_bytes:
  assumes "good C ''BytesExpression'' m" and "weight m \<le> n"
  shows "safe (in_type C (Bytes k) z) (visit_bytes_expression C visitor m)"
proof -
  have end_of: "safe (in_type C (Bytes k) z) (convert_or_literal C visitor m)"
    by (rule safe_convert_or_literal) (use assms in simp_all)
  have concat: "safe (in_type C (Bytes k) z) (visit_concat C (bytes_part C visitor) x)"
    if "good C ''ConcatBytes'' x" "deep n x" for x
    by (rule safe_concat [OF that(1)], simp add: attr_m_def, (rule schema)+)
      (erule safe_bytes_part, erule deep_le [OF that(2)])
  have kind: "kind_of C ''BytesExpression'' ''raw_call'' = Some (KMsg ''RawCall'')" by (rule schema)
  obtain x where x: "get_msg (decimals (penv C)) m ''raw_call'' = Inr x" "good C ''RawCall'' x"
    and near: "present m ''raw_call'' \<noteq> None \<Longrightarrow> nesting x < nesting m"
    using good_sub [OF assms(1) kind] by metis
  have raw: "safe (in_type C (Bytes k) z) (bytes_raw_call C visitor (Bytes k) m)"
  proof (cases "present m ''raw_call''")
    case None
    then show ?thesis using good_HasField [OF assms(1) kind]
      by (simp add: bytes_raw_call_def has_def) (intro safe_bind safe_rules)
  next
    case (Some v)
    have "deep n x" by (rule deep_sub [OF assms(2) near]) (simp add: Some)
    then have call: "safe (in_type C (Bytes k) z) (visit_raw_call C visitor x j False)" for j
      by (rule safe_raw_call [OF x(2)])
    have has: "has C m ''raw_call'' = returnM True" and sub: "sub C m ''raw_call'' = returnM x"
      and att: "attr_m (Bytes k) = Inr k"
      using good_HasField [OF assms(1) kind] Some by (simp_all add: has_def sub_def x(1) attr_m_def fun_eq_iff)
    show ?thesis
      unfolding bytes_raw_call_def has sub att bind_returnM bind_liftR
      by (rule safe_rules call safe_bind | assumption)+
  qed
  show ?thesis
    unfolding visit_bytes_expression_def
    by (rule assms(1) end_of concat raw safe_rules | rule schema | erule deep_sub [OF assms(2)] | assumption)+
qed

lemma safe_string:
  assumes "good C ''StringExpression'' m" and "weight m \<le> n"
  shows "safe (in_type C (String k) z) (visit_string_expression C visitor m)"
proof -
  have end_of: "safe (in_type C (String k) z) (visit_conversion C visitor m (String k))"
    by (rule safe_conversion [OF assms(1) _ assms(2)]) (simp add: scalar_messages_def)
  have concat: "safe (in_type C (String k) z) (visit_concat C (string_part C visitor) x)"
    if "good C ''ConcatString'' x" "deep n x" for x
    by (rule safe_concat [OF that(1)], simp add: attr_m_def, (rule schema)+)
      (erule safe_string_part, erule deep_le [OF that(2)])
  show ?thesis
    unfolding visit_string_expression_def literal_field_def
    by (rule assms(1) end_of concat safe_rules safe_bind | rule schema | erule deep_sub [OF assms(2)] | assumption
        | (simp; fail))+
qed

lemma safe_bool:
  assumes "good C ''BoolExpression'' m" and "weight m \<le> n"
  shows "safe (in_type C Bool z) (visit_bool_expression C visitor m)"
proof -
  have end_of: "safe (in_type C Bool z) (convert_or_literal C visitor m)"
    by (rule safe_convert_or_literal) (use assms in simp_all)
  have bin: "safe (in_type C Bool z) (plain_bin_op C visitor H_bool BIN_OP_BOOL_MAP x)"
    if "good C ''BoolBinOp'' x" "deep n x" for x
    by (rule safe_plain_bin_op [OF that(1), where c = 4]) (simp_all add: that(2) schema BIN_OP_BOOL_MAP_def)
  have int: "safe (in_type C Bool z) (comparison C visitor H_int (IntT 256 False) x)"
    if "good C ''IntBoolBinOp'' x" "deep n x" for x
    by (rule safe_comparison [OF that(1)]) (simp_all add: that(2) schema)
  have dec: "safe (in_type C Bool z) (if has_soft C m ''decBoolBinOp''
         then bindM (bindM (sub C m ''decBoolBinOp'') (comparison C visitor H_decimal Decimal)) (\<lambda>x. returnM (Some x))
         else returnM None)"
  proof (rule safe_if [OF _ safe_return])
    assume set: "has_soft C m ''decBoolBinOp''"
    have "field_kind False ''BoolExpression'' ''decBoolBinOp'' = None" by (simp add: schema_eval message_fields)
    then have d: "decimals (penv C)" and here: "present m ''decBoolBinOp'' \<noteq> None"
      using set assms(1)
      by (cases "decimals (penv C)";
          auto simp: has_soft_def py_has_field_def HasField_def good_def split: option.splits fkind.splits)+
    have kind: "kind_of C ''BoolExpression'' ''decBoolBinOp'' = Some (KMsg ''DecimalBoolBinOp'')"
      by (rule schema) (rule d)
    obtain x where x: "get_msg (decimals (penv C)) m ''decBoolBinOp'' = Inr x" "good C ''DecimalBoolBinOp'' x" "deep n x"
      using good_sub [OF assms(1) kind] deep_sub [OF assms(2)] here by metis
    have "safe (in_type C Bool z) (comparison C visitor H_decimal Decimal x)"
      by (rule safe_comparison [OF x(2)]) (use d x(3) in \<open>simp_all add: schema\<close>)
    then show "safe (in_type C Bool z) (bindM (bindM (sub C m ''decBoolBinOp'') (comparison C visitor H_decimal Decimal))
        (\<lambda>x. returnM (Some x)))"
      unfolding bind_assocM sub_def x(1) bind_liftR by (rule safe_bind [OF _ safe_return])
  qed
  show ?thesis
    unfolding visit_bool_expression_def
    by (rule assms(1) end_of bin int dec safe_not_op safe_rules | rule schema | erule deep_sub [OF assms(2)]
        | assumption)+
qed

lemma safe_address:
  assumes "good C ''AddressExpression'' m" and "weight m \<le> n"
  shows "safe (in_type C Address z) (visit_address_expression C visitor m)"
proof -
  have end_of: "safe (in_type C Address z) (convert_or_literal C visitor m)"
    by (rule safe_convert_or_literal) (use assms in simp_all)
  show ?thesis
    unfolding visit_address_expression_def
    by (rule assms(1) end_of safe_rules | rule schema | erule deep_sub [OF assms(2)] | assumption | (simp; fail))+
qed

lemma safe_handler:
  assumes "typed (decimals (penv C)) t" and "good C (expr_message t) m" and "weight m \<le> n"
  shows "safe (in_type C t z) (visit_handler C visitor (handler_of t) m)"
proof (cases "handler_of t = H_list")
  case True
  then show ?thesis using safe_list_expression [OF assms(1) True assms(2,3)] by (simp add: visit_handler_def)
next
  case False
  then show ?thesis using assms
    by (cases t) (simp_all add: visit_handler_def safe_int safe_decimal safe_bytes_m safe_bytes safe_string
        safe_bool safe_address)
qed

end

section \<open>The recursion\<close>

theorem safe_visit_expr:
  assumes "typed (decimals (penv C)) t" and "good C (expr_message t) m" and "weight m < depth"
  shows "safe (in_type C t z) (visit_expr C depth (handler_of t) m)"
  using assms
proof (induction depth arbitrary: t m z)
  case (Suc depth)
  have "safe_visitor C (visit_expr C depth) depth" by unfold_locales (rule Suc.IH)
  from safe_visitor.safe_handler [OF this] show ?case using Suc.prems by simp
qed simp

interpretation visits: safe_visitor C "visit_expr C depth" depth for C depth
  by unfold_locales (rule safe_visit_expr)

end
