(* ===== verification/Conv_Safe_Stmt.thy ===== *)
theory Conv_Safe_Stmt imports Conv_Safe_Handlers begin

text \<open>
  Statements and blocks raise nothing unexpected either. Outside a constant, a statement may rely on
  the function that is being converted being known as soon as the contract has functions.
\<close>

section \<open>States between statements\<close>

definition stmt_view :: "state_view \<Rightarrow> bool" where
  "stmt_view y \<longleftrightarrow> (case y of (ts, ops, const, none, some) \<Rightarrow> \<not> const \<and> (none \<or> some))"

abbreviation stmt_ok :: "cenv \<Rightarrow> conv_state \<Rightarrow> bool" where
  "stmt_ok C \<equiv> state_ok C stmt_view"

lemma stmt_okD: "stmt_ok C s \<Longrightarrow> \<not> is_constant s"
  by (simp add: state_ok_def stmt_view_def view_of_def)

text \<open>A type that is pushed and not popped again on every way.\<close>

lemma safe_push:
  assumes "\<And>z. stmt_view (t # fst z, snd z) \<Longrightarrow> safe_to (in_type C t z) (stmt_ok C) m"
  shows "safe (stmt_ok C) (bindM (push_type t) (\<lambda>_. m))"
proof -
  have "case m (s\<lparr>type_stack := t # type_stack s\<rparr>) of Inl e \<Rightarrow> expected_error e | Inr (x, u) \<Rightarrow> stmt_ok C u"
    if "stmt_ok C s" for s
  proof -
    let ?z = "(type_stack s, snd (view_of s))"
    have "stmt_view (t # fst ?z, snd ?z)" using that by (simp add: state_ok_def stmt_view_def view_of_def)
    moreover have "in_type C t ?z (s\<lparr>type_stack := t # type_stack s\<rparr>)"
      using that by (simp add: state_ok_def inv_def view_of_def)
    ultimately show ?thesis using assms [of ?z] by (simp add: safe_to_def)
  qed
  then show ?thesis by (simp add: safe_def push_type_def bindM_def)
qed

lemma stmt_ok_in_type: "stmt_view (t # fst z, snd z) \<Longrightarrow> in_type C t z s \<Longrightarrow> stmt_ok C s"
  by (simp add: state_ok_def)

lemma safe_to_pop:
  assumes "stmt_view (t # fst z, snd z)"
  shows "safe_to (in_type C t z) (stmt_ok C) (bindM pop_type (\<lambda>_. returnM x))"
  using assms by (cases z)
    (auto simp: safe_to_def pop_type_def bindM_def state_ok_def inv_def view_of_def stmt_view_def split: list.splits)

lemma safe_to_in_type:
  "(\<And>z. safe (in_type C t z) m) \<Longrightarrow> safe_to (in_type C t z) (in_type C t z) m"
  by (rule safe_toI)

text \<open>Steps of statements.\<close>

lemma safe_next_id [safe_rules]: "safe (state_ok C Q) (next_id_of t)"
proof (rule safeI)
  fix s x u
  assume s: "state_ok C Q s" and run: "next_id_of t s = Inr (x, u)"
  have "u = s\<lparr>tracker := snd (next_id t (tracker s))\<rparr>"
    using run by (simp add: next_id_of_def split_beta Let_def)
  then show "state_ok C Q u"
    using state_ok_tracker [OF s tracker_ok_next_id [OF state_ok_tracked [OF s]]] by simp
qed (simp add: next_id_of_def split_beta Let_def)

lemma safe_register_var:
  assumes "typed (decimals (penv C)) t" and "nm \<noteq> []"
  shows "safe (state_ok C Q) (register_var nm l t mutable)"
  unfolding register_var_def
  by (rule safe_mod) (rule state_ok_tracker, assumption, rule tracker_ok_register, erule state_ok_tracked, rule assms, rule assms)

lemma state_ok_same:
  "state_ok C Q s \<Longrightarrow> tracker t = tracker s \<Longrightarrow> mut_level t = mut_level s \<Longrightarrow>
     function_output t = function_output s \<Longrightarrow> funcs t = funcs s \<Longrightarrow> view_of t = view_of s \<Longrightarrow> state_ok C Q t"
  by (simp add: state_ok_def inv_def)

lemma safe_level_steps [safe_rules]:
  "safe (state_ok C Q) enter_block" "safe (state_ok C Q) leave_block"
  "safe (state_ok C Q) (modM (\<lambda>s. s\<lparr>for_count := for_count s + 1\<rparr>))"
  "safe (state_ok C Q) (modM (\<lambda>s. s\<lparr>for_count := for_count s - 1\<rparr>))"
  unfolding enter_block_def leave_block_def
  by (rule safe_mod, erule state_ok_same; simp add: view_of_def)+

lemma safe_remove_level [safe_rules]: "safe (state_ok C Q) (remove_level mutable)"
  unfolding remove_level_def
  by (rule safe_mod) (rule state_ok_tracker, assumption, rule tracker_ok_remove, erule state_ok_tracked)

lemma safe_visit_type:
  assumes "good C u m" and "u \<in> {''VarRef'', ''VarDecl'', ''FuncParam''}"
    and "\<And>t. typed (decimals (penv C)) t \<Longrightarrow> safe P (k t)"
  shows "safe P (bindM (visit_type C m) k)"
proof -
  obtain t where "extract_vy_type TYPE_DEPTH (decimals (penv C)) False m = Inr t" "typed (decimals (penv C)) t"
    using extract_typed [of "decimals (penv C)" m] assms(1,2) by (auto simp: good_def)
  then show ?thesis using assms(3) by (simp add: visit_type_def)
qed

section \<open>Declarations, assignments, loops\<close>

context safe_visitor begin

lemma safe_var_decl:
  assumes "typed (decimals (penv C)) t" and "good C ''TypedExpression'' e" and "deep n e"
  shows "safe (state_ok C Q) (var_decl C visitor e t)"
  unfolding var_decl_def Let_def
  by (rule safe_rules safe_typed_expression [OF assms] safe_register_var [OF assms(1)] safe_bind
      | (simp add: var_name_def; fail))+

lemma safe_visit_var_decl:
  assumes "good C ''VarDecl'' m" and "deep n m"
  shows "safe (state_ok C Q) (visit_var_decl C visitor m)"
  unfolding visit_var_decl_def
  by (rule safe_visit_type [OF assms(1)], simp, rule safe_sub [OF assms(1)], rule schema)
    (erule safe_var_decl, assumption, erule deep_le [OF assms(2)])

lemma safe_assignment:
  assumes "good C ''AssignmentStatement'' m" and "deep n m"
  shows "safe (stmt_ok C) (visit_assignment C visitor m)"
proof -
  have body: "safe_to (in_type C t z) (stmt_ok C)
       (bindM (getM block_level) (\<lambda>level.
        bindM (visit_var_ref level True) (\<lambda>r.
        bindM (sub C m ''expr'') (\<lambda>expr.
        case r of
          None \<Rightarrow> var_decl C visitor expr t
        | Some v \<Rightarrow>
            bindM (visit_typed_expression C visitor expr t) (\<lambda>e.
            seqM pop_type (returnM (indent level @ v @ '' = '' @ e)))))))"
    if t: "typed (decimals (penv C)) t" and z: "stmt_view (t # fst z, snd z)" for t z
  proof (rule safe_to_get, rule safe_to_bind [OF safe_to_in_type [OF safe_var_ref]],
      rule safe_to_sub [OF assms(1)], rule schema)
    fix level r e
    assume e: "good C ''TypedExpression'' e" "nesting e \<le> nesting m"
    have deep: "deep n e" using deep_le [OF assms(2) e(2)] .
    have none: "safe_to (in_type C t z) (stmt_ok C) (var_decl C visitor e t)"
      by (rule safe_toI [OF safe_var_decl [OF t e(1) deep]], assumption) (rule stmt_ok_in_type [OF z])
    have some: "safe_to (in_type C t z) (stmt_ok C) (bindM (visit_typed_expression C visitor e t) (\<lambda>x.
            seqM pop_type (returnM (indent level @ v @ '' = '' @ x))))" for v
      by (rule safe_to_bind [OF safe_to_in_type [OF safe_typed_expression [OF t e(1) deep]] safe_to_pop [OF z]])
    show "safe_to (in_type C t z) (stmt_ok C) (case r of
          None \<Rightarrow> var_decl C visitor e t
        | Some v \<Rightarrow> bindM (visit_typed_expression C visitor e t) (\<lambda>x.
            seqM pop_type (returnM (indent level @ v @ '' = '' @ x))))"
      using none some by (simp split: option.split)
  qed
  show ?thesis
    unfolding visit_assignment_def bind_assocM
    by (rule safe_sub [OF assms(1)], rule schema, erule safe_visit_type, simp, rule safe_push) (erule body)
qed

end

lemma safe_loop_variable: "safe (state_ok C Q) loop_variable"
  unfolding loop_variable_def
  by (rule safe_rules safe_register_var safe_bind | (simp add: loop_name_def; fail))+

lemma safe_for_ranged:
  assumes "good C ''ForStmtRanged'' m"
  shows "safe (state_ok C Q) (visit_for_stmt_ranged C m)"
  unfolding visit_for_stmt_ranged_def Let_def
  by (rule assms safe_rules safe_loop_variable safe_bind | rule schema | (simp add: is_int_kind_def; fail))+

lemma safe_for_variable:
  assumes "good C ''ForStmtVariable'' m"
  shows "safe (state_ok C Q) (visit_for_stmt_variable C m)"
  unfolding visit_for_stmt_variable_def Let_def
  by (rule assms safe_rules safe_loop_variable safe_bind | rule schema | (simp add: is_int_kind_def; fail))+

section \<open>Blocks in statements\<close>

text \<open>\<open>below\<close>: a part of a block of a depth that leaves \<open>n\<close> frames.\<close>

definition below_block :: "nat \<Rightarrow> msg \<Rightarrow> bool" where
  "below_block n m \<longleftrightarrow> 3 * nesting m + 5 < n"

lemma below_blockD:
  "below_block n m \<Longrightarrow> nesting x \<le> nesting m \<Longrightarrow> deep n x"
  "below_block n m \<Longrightarrow> nesting x \<le> nesting m \<Longrightarrow> below_block n x"
  "below_block n m \<Longrightarrow> nesting x \<le> nesting m \<Longrightarrow> 3 * nesting x + 3 < n"
  by (simp_all add: below_block_def deep_def)

lemma below_block_sub: "deep n m \<Longrightarrow> nesting x < nesting m \<Longrightarrow> below_block n x"
  by (simp add: below_block_def deep_def)

locale safe_block_visitor = safe_visitor +
  fixes blk :: block_visitor
  assumes blk_safe: "good C ''Block'' m \<Longrightarrow> 3 * nesting m + 3 < n \<Longrightarrow> safe (stmt_ok C) (blk m)"
begin

lemma safe_for_stmt:
  assumes "good C ''ForStmt'' m" and "below_block n m"
  shows "safe (stmt_ok C) (visit_for_stmt C blk m)"
  unfolding visit_for_stmt_def
  by (rule safe_rules safe_has [OF assms(1)] safe_sub [OF assms(1)] safe_for_variable safe_for_ranged blk_safe safe_bind
      | rule schema | erule below_blockD [OF assms(2)] | assumption)+

lemma safe_scoped_block:
  "good C ''Block'' m \<Longrightarrow> 3 * nesting m + 3 < n \<Longrightarrow> safe (stmt_ok C) (scoped_block blk m)"
  unfolding scoped_block_def by (rule safe_rules blk_safe safe_bind | assumption)+

lemma safe_cases:
  assumes "\<And>x. x \<in> set ms \<Longrightarrow> good C ''IfStmtCase'' x \<and> below_block n x"
  shows "safe (stmt_ok C) (visit_cases C visitor blk is_first ms acc)"
  using assms
proof (induction ms arbitrary: is_first acc)
  case (Cons m ms)
  have m: "good C ''IfStmtCase'' m" "below_block n m" using Cons.prems by simp_all
  show ?case
    unfolding visit_cases.simps
    by (rule m(1) safe_rules safe_scoped_block safe_visit Cons.IH safe_bind | rule schema | erule below_blockD [OF m(2)]
        | erule deepD [OF below_blockD(1) [OF m(2)]] | assumption | (simp add: Cons.prems; fail))+
qed (simp add: safe_return)

lemma safe_if_stmt:
  assumes "good C ''IfStmt'' m" and "below_block n m"
  shows "safe (stmt_ok C) (visit_if_stmt C visitor blk m)"
proof -
  have cases: "safe (stmt_ok C) (visit_if_cases C visitor blk ms)"
    if "\<And>x. x \<in> set ms \<Longrightarrow> good C ''IfStmtCase'' x \<and> nesting x < nesting m" for ms
    unfolding visit_if_cases_def
    by (rule safe_rules safe_cases)+ (use that below_blockD(2) [OF assms(2)] less_imp_le_nat in blast)
  have els: "safe (stmt_ok C) (visit_else_case blk x)" if "good C ''Block'' x" "nesting x \<le> nesting m" for x
    unfolding visit_else_case_def
    by (rule safe_rules safe_scoped_block that(1) below_blockD(3) [OF assms(2) that(2)] safe_bind)+
  show ?thesis
    unfolding visit_if_stmt_def
    by (rule safe_rep [OF assms(1)] safe_sub [OF assms(1)] safe_has [OF assms(1)] safe_rules cases els safe_bind
        | rule schema | assumption)+
qed

end

section \<open>Statements without a block\<close>

context safe_visitor begin

lemma safe_simple_statements:
  "good C ''Selfdestruct'' m \<Longrightarrow> deep n m \<Longrightarrow> safe (state_ok C Q) (visit_selfd C visitor m)"
  "good C ''RaiseStatement'' m \<Longrightarrow> deep n m \<Longrightarrow> safe (state_ok C Q) (visit_raise_statement C visitor m)"
  "good C ''RawRevert'' m \<Longrightarrow> deep n m \<Longrightarrow> safe (state_ok C Q) (visit_raw_revert C visitor m)"
  "good C ''AssertStatement'' m \<Longrightarrow> deep n m \<Longrightarrow> safe (state_ok C Q) (visit_assert_stmt C visitor m)"
  unfolding visit_selfd_def visit_raise_statement_def visit_raw_revert_def visit_assert_stmt_def Let_def
  by (rule safe_rules safe_bind | rule schema | erule (1) deepD | assumption | (simp; fail))+

lemma safe_raw_log:
  assumes "good C ''RawLog'' m" and "deep n m"
  shows "safe (state_ok C Q) (visit_raw_log C visitor m)"
  unfolding visit_raw_log_def Let_def
  by (rule assms safe_rules safe_bind | rule schema | erule deepD [OF assms(2)] | assumption
      | (simp add: is_int_kind_def element_typed_def byte_class_def; fail))+

lemma safe_send_stmt:
  assumes "good C ''SendStatement'' m" and "deep n m"
  shows "safe (state_ok C Q) (visit_send_stmt C visitor m)"
  unfolding visit_send_stmt_def
  by (rule assms safe_rules safe_raw_call_arg [OF assms(1) _ assms(2)] safe_bind | rule schema
      | erule deepD [OF assms(2)] | assumption | (simp; fail))+

text \<open>An array to append to has an element type, by which the expression is chosen.\<close>

lemma var_ref_offered:
  assumes "with_type t (visit_var_ref level True) s = Inr (Some v, u)" and "\<not> is_constant s"
  shows "v \<in> set (get_mutable_variables level t False (tracker s))" and "tracker u = tracker s"
proof -
  let ?s = "s\<lparr>type_stack := t # type_stack s\<rparr>"
  let ?vs = "get_mutable_variables level t False (tracker s)"
  obtain w where w: "visit_var_ref level True ?s = Inr (Some v, w)" and u: "pop_type w = Inr ((), u)"
    using assms(1) by (auto simp: with_type_def push_type_def bindM_Inr_iff)
  have "?vs \<noteq> [] \<and> (\<exists>w'. choice ?vs ?s = Inr (v, w') \<and> note_global True v t w' = Inr ((), w))"
    using w assms(2)
    by (auto simp: visit_var_ref_def top_type_def bindM_Inr_iff split: if_splits)
  then obtain w' where ne: "?vs \<noteq> []" and c: "choice ?vs ?s = Inr (v, w')"
    and g: "note_global True v t w' = Inr ((), w)" by blast
  have "v \<in> set ?vs \<and> tracker w' = tracker s"
    using c ne by (auto simp: choice_def split_beta)
  moreover have "tracker w = tracker w'"
    using g by (auto simp: note_global_def bindM_Inr_iff raise_mut_def split: if_splits)
  moreover have "tracker u = tracker w" using u by (auto simp: pop_type_def split: list.splits)
  ultimately show "v \<in> set ?vs" "tracker u = tracker s" by simp_all
qed

lemma safe_append:
  assumes "good C ''AppendArray'' m" and "deep n m"
  shows "safe (stmt_ok C) (visit_append_stmt C visitor m)"
proof -
  let ?S = "\<lambda>r u. \<forall>v. r = Some v \<longrightarrow> (\<exists>t. get_dyn_array_base_type v True (tracker u) = Some t \<and> typed (decimals (penv C)) t)"
  have found: "?S r u" if "stmt_ok C s" and run: "with_type any_dyn_array (visit_var_ref level True) s = Inr (r, u)" for level s r u
  proof (intro allI impI)
    fix v
    assume v: "r = Some v"
    have "v \<in> set (get_vars any_dyn_array level True False (tracker s))" and same: "tracker u = tracker s"
      using var_ref_offered [OF run [unfolded v] stmt_okD [OF that(1)]] by (simp_all add: get_mutable_variables_def)
    then show "\<exists>t. get_dyn_array_base_type v True (tracker u) = Some t \<and> typed (decimals (penv C)) t"
      using array_element_type [OF state_ok_tracked [OF that(1)]] by metis
  qed
  have body: "safe (stmt_ok C)
      (bindM (with_type t (bindM (sub C m ''expr'') (\<lambda>e. visit_typed_expression C visitor e t))) (\<lambda>v. returnM (g v)))"
    if "typed (decimals (penv C)) t" for t and g :: "string \<Rightarrow> string option"
    by (rule safe_rules assms(1) safe_typed_expression [OF that] safe_bind | rule schema | erule deep_le [OF assms(2)]
        | assumption)+
  have rest: "safe_to (\<lambda>s. stmt_ok C s \<and> ?S r s) (stmt_ok C) (case r of
       None \<Rightarrow> returnM None
     | Some name \<Rightarrow>
         bindM (getM (\<lambda>s. get_dyn_array_base_type name True (tracker s))) (\<lambda>bt.
         let t = (case bt of None \<Rightarrow> NoneType | Some t \<Rightarrow> t) in
         bindM (with_type t (bindM (sub C m ''expr'') (\<lambda>e. visit_typed_expression C visitor e t))) (\<lambda>v.
           returnM (Some (indent level @ name @ ''.append('' @ v @ '')'')))))" for r level
  proof (cases r)
    case None
    then show ?thesis by (simp add: safe_to_def)
  next
    case (Some name)
    show ?thesis
      unfolding Some option.case
    proof (rule safe_to_get, elim conjE)
      fix s
      assume "\<forall>v. Some name = Some v \<longrightarrow>
        (\<exists>t. get_dyn_array_base_type v True (tracker s) = Some t \<and> typed (decimals (penv C)) t)"
      then obtain t where t: "get_dyn_array_base_type name True (tracker s) = Some t" "typed (decimals (penv C)) t" by blast
      show "safe_to (\<lambda>s. stmt_ok C s \<and> ?S (Some name) s) (stmt_ok C)
         (let t = (case get_dyn_array_base_type name True (tracker s) of None \<Rightarrow> NoneType | Some t \<Rightarrow> t) in
         bindM (with_type t (bindM (sub C m ''expr'') (\<lambda>e. visit_typed_expression C visitor e t))) (\<lambda>v.
           returnM (Some (indent level @ name @ ''.append('' @ v @ '')''))))"
        unfolding t(1) option.case Let_def by (rule safe_toI [OF body [OF t(2)]]) simp_all
    qed
  qed
  show ?thesis
    unfolding visit_append_stmt_def
    by (rule safe_bind_get, rule safe_bind_post [OF safe_with_type [OF safe_var_ref] found rest])
qed

end

lemma safe_pop_stmt: "safe (stmt_ok C) visit_pop_stmt"
proof -
  have body: "safe_to (in_type C any_dyn_array z) (stmt_ok C) (case r of None \<Rightarrow> returnM None
        | Some name \<Rightarrow> seqM pop_type (returnM (Some (indent level @ name @ ''.pop()''))))"
    if z: "stmt_view (any_dyn_array # fst z, snd z)" for z r level
  proof (cases r)
    case None
    then show ?thesis using stmt_ok_in_type [OF z] by (simp add: safe_to_def)
  next
    case (Some name)
    then show ?thesis using safe_to_pop [OF z] by simp
  qed
  show ?thesis
    unfolding visit_pop_stmt_def
    by (rule safe_bind_get, rule safe_push, rule safe_to_bind [OF safe_to_in_type [OF safe_var_ref]], erule body)
qed

section \<open>Calls of functions of the contract\<close>

text \<open>Two cases of the state, and a step that only reads it.\<close>

lemma safe_split:
  assumes "safe (state_ok C (\<lambda>y. Q y \<and> R y)) m" and "safe (state_ok C (\<lambda>y. Q y \<and> \<not> R y)) m"
  shows "safe (state_ok C Q) m"
proof (rule safeI)
  fix s e
  assume "state_ok C Q s" and run: "m s = Inl e"
  then have "state_ok C (\<lambda>y. Q y \<and> R y) s \<or> state_ok C (\<lambda>y. Q y \<and> \<not> R y) s" by (auto simp: state_ok_def)
  then show "expected_error e" using safe_error [OF assms(1) _ run] safe_error [OF assms(2) _ run] by blast
next
  fix s x u
  assume "state_ok C Q s" and run: "m s = Inr (x, u)"
  then have "state_ok C (\<lambda>y. Q y \<and> R y) s \<or> state_ok C (\<lambda>y. Q y \<and> \<not> R y) s" by (auto simp: state_ok_def)
  then have "state_ok C (\<lambda>y. Q y \<and> R y) u \<or> state_ok C (\<lambda>y. Q y \<and> \<not> R y) u"
    using safe_post [OF assms(1) _ run] safe_post [OF assms(2) _ run] by blast
  then show "state_ok C Q u" by (auto simp: state_ok_def)
qed

lemma safe_read:
  assumes "\<And>s. P s \<Longrightarrow> \<exists>x. m s = Inr (x, s) \<and> S x" and "\<And>x. S x \<Longrightarrow> safe P (k x)"
  shows "safe P (bindM m k)"
proof (rule safeI)
  fix s e
  assume P: "P s" and run: "bindM m k s = Inl e"
  obtain x where "m s = Inr (x, s)" "S x" using assms(1) [OF P] by blast
  then show "expected_error e" using safe_error [OF assms(2) P] run by (simp add: bindM_def)
next
  fix s y u
  assume P: "P s" and run: "bindM m k s = Inr (y, u)"
  obtain x where "m s = Inr (x, s)" "S x" using assms(1) [OF P] by blast
  then show "P u" using safe_post [OF assms(2) P] run by (simp add: bindM_def)
qed

definition no_functions :: "state_view \<Rightarrow> bool" where
  "no_functions y \<longleftrightarrow> fst (snd (snd (snd y)))"

abbreviation call_ok :: "cenv \<Rightarrow> conv_state \<Rightarrow> bool" where
  "call_ok C \<equiv> state_ok C (\<lambda>y. stmt_view y \<and> \<not> no_functions y)"

lemma call_okD:
  assumes "call_ok C s"
  shows "ft_functions (funcs s) \<noteq> []" and "current_func s \<noteq> None"
    and "f \<in> set (ft_functions (funcs s)) \<Longrightarrow> func_ok (decimals (penv C)) f"
  using assms by (auto simp: state_ok_def stmt_view_def no_functions_def view_of_def inv_def)

lemma safe_callee:
  assumes "good C ''FuncCall'' m" and "\<And>f. func_ok (decimals (penv C)) f \<Longrightarrow> safe (call_ok C) (k f)"
  shows "safe (call_ok C) (bindM (bindM (callee_of C m) function_at) k)"
  unfolding callee_of_def bind_assocM
proof (rule safe_num [OF assms(1)], rule schema, simp add: is_int_kind_def)
  fix i :: int
  let ?at = "\<lambda>s. nat (i mod int (length (ft_functions (funcs s))))"
  have "\<exists>f. bindM (getM ?at) function_at s = Inr (f, s) \<and> func_ok (decimals (penv C)) f" if s: "call_ok C s" for s
  proof -
    have "0 < int (length (ft_functions (funcs s)))" using call_okD(1) [OF s] by simp
    then have "?at s < length (ft_functions (funcs s))"
      using pos_mod_sign pos_mod_bound by (simp add: nat_less_iff)
    then show ?thesis using call_okD(3) [OF s] by (simp add: bindM_def function_at_def)
  qed
  from safe_read [OF this assms(2)]
  show "safe (call_ok C) (bindM (getM ?at) (\<lambda>x. bindM (function_at x) k))" by (simp add: bind_assocM)
qed

lemma safe_callee_number:
  "good C ''FuncCall'' m \<Longrightarrow> safe (state_ok C Q) (callee_of C m)"
  unfolding callee_of_def by (rule safe_num, assumption, rule schema) (simp_all add: is_int_kind_def safe_get)

lemma safe_output_variable:
  assumes "typed (decimals (penv C)) t"
  shows "safe (state_ok C Q) (output_variable t vs)"
proof -
  have new: "safe (state_ok C Q) (bindM (create_var t level REGULAR) (\<lambda>v. returnM (v, g v)))" for level and g :: "string \<Rightarrow> string"
    by (rule safe_bind [OF safe_create_var [OF assms] safe_return]) simp
  have offered: "safe (state_ok C Q) (bindM (choice xs) (\<lambda>v. returnM (Some v)))" if "xs \<noteq> []" for xs :: "string list"
    by (rule safe_choice [OF that safe_return])
  show ?thesis
    unfolding output_variable_def by (rule new offered safe_rules safe_bind | assumption)+
qed

lemma safe_output_variables:
  "\<forall>t \<in> set ts. typed (decimals (penv C)) t \<Longrightarrow> safe (state_ok C Q) (output_variables ts vs acc)"
proof (induction ts arbitrary: vs acc)
  case (Cons t ts)
  show ?case
    unfolding output_variables.simps
    by (rule safe_bind, rule safe_output_variable) (use Cons in \<open>simp_all add: safe_prod\<close>)
qed (simp add: safe_return)

context safe_visitor begin

lemma safe_payloads:
  assumes "good C ''ReturnPayload'' m" and "deep n m"
    and "\<forall>(t, a) \<in> set ps. typed (decimals (penv C)) t \<and> a \<in> set params_attrs"
  shows "safe (state_ok C Q) (visit_payloads C visitor m ps)"
  using assms(3)
proof (induction ps)
  case (Cons p ps)
  obtain t a where p: "p = (t, a)" by (cases p)
  have t: "typed (decimals (penv C)) t" and "a \<in> set params_attrs" using Cons.prems by (simp_all add: p)
  then have kind: "kind_of C ''ReturnPayload'' a = Some (KMsg ''TypedExpression'')"
    by (auto simp: params_attrs_def statement_fields)
  have "safe (in_type C t z) (bindM (sub C m a) (\<lambda>e. visit_typed_expression C visitor e t))" for z
    by (rule safe_sub [OF assms(1) kind], rule safe_typed_expression [OF t], assumption) (rule deep_le [OF assms(2)])
  then show ?case
    unfolding p visit_payloads.simps
  proof (rule safe_bind [OF safe_with_type])
    show "safe (state_ok C Q) (bindM (visit_payloads C visitor m ps) (\<lambda>vs. returnM (v # vs)))" for v
      by (rule safe_bind [OF Cons.IH safe_return]) (use Cons.prems in simp)
  qed
qed (simp add: safe_return)

lemma safe_payload_list:
  assumes "good C ''ReturnPayload'' m" and "deep n m" and "\<forall>t \<in> set ts. typed (decimals (penv C)) t"
  shows "safe (state_ok C Q) (visit_payloads C visitor m (zip ts params_attrs))"
  by (rule safe_payloads [OF assms(1,2)]) (use assms(3) in \<open>auto dest: set_zip_leftD set_zip_rightD\<close>)

lemma safe_func_call:
  assumes "good C ''FuncCall'' m" and "deep n m"
  shows "safe (call_ok C) (visit_func_call C visitor m)"
  unfolding visit_func_call_def
proof (rule safe_callee [OF assms(1)])
  fix f
  assume "func_ok (decimals (penv C)) f"
  then have f: "0 \<le> f_mutability f" "f_mutability f \<le> PAYABLE" "\<forall>t \<in> set (f_inputs f). typed (decimals (penv C)) t"
    "\<forall>t \<in> set (f_outputs f). typed (decimals (penv C)) t"
    by (simp_all add: func_ok_def)
  show "safe (call_ok C) (seqM (raise_mut (f_mutability f)) (bindM (output_variables (f_outputs f) [] '''') (\<lambda>(output_vars, decls).
        bindM code_offset (\<lambda>off.
        bindM (sub C m ''params'') (\<lambda>params.
        bindM (visit_payloads C visitor params (zip (f_inputs f) params_attrs)) (\<lambda>input_values.
          returnM (decls @ off @ (if output_vars \<noteq> [] then py_join '', '' output_vars @ '' = '' else '''') @
            render_call f input_values)))))))"
    by (rule safe_raise_mut [OF f(1,2)] safe_output_variables [OF f(4)] safe_prod safe_code_offset safe_return
        safe_payload_list [OF _ _ f(3)] safe_sub [OF assms(1)] safe_bind
        | rule schema | erule deep_le [OF assms(2)] | assumption)+
qed

lemma safe_statement_call:
  assumes "good C ''Statement'' m" and "\<And>x. nesting x < nesting m \<Longrightarrow> deep n x"
  shows "safe (stmt_ok C) (statement_call C visitor m)"
proof -
  let ?call = "\<lambda>ok. if ok then bindM (bindM (sub C m ''func_call'') (visit_func_call C visitor)) (\<lambda>x. returnM (Some x))
      else returnM None"
  have kind: "kind_of C ''Statement'' ''func_call'' = Some (KMsg ''FuncCall'')" by (rule schema)
  obtain x where x: "get_msg (decimals (penv C)) m ''func_call'' = Inr x" "good C ''FuncCall'' x"
    and near: "present m ''func_call'' \<noteq> None \<Longrightarrow> nesting x < nesting m" using good_sub [OF assms(1) kind] by metis
  have sub: "sub C m ''func_call'' = returnM x" by (simp add: sub_def x(1) fun_eq_iff)
  have none: "safe (state_ok C (\<lambda>y. stmt_view y \<and> no_functions y)) (bindM (call_allowed C m) ?call)"
  proof (rule safe_read [where S = Not])
    fix s
    assume "state_ok C (\<lambda>y. stmt_view y \<and> no_functions y) s"
    then have "ft_functions (funcs s) = []" by (simp add: state_ok_def no_functions_def view_of_def)
    then show "\<exists>ok. call_allowed C m s = Inr (ok, s) \<and> \<not> ok" by (intro exI [of _ False]) (simp add: call_allowed_def bindM_def)
  qed (simp only: if_False safe_return)
  have some: "safe (call_ok C) (bindM (call_allowed C m) ?call)" if "deep n x"
  proof (rule safe_bind)
    show "safe (call_ok C) (call_allowed C m)"
      unfolding call_allowed_def sub bind_returnM
    proof (rule safe_bind_get, rule safe_if [OF safe_return], rule safe_bind [OF safe_callee_number [OF x(2)]], rule safe_bind_get)
      fix s i
      assume "call_ok C s"
      then obtain j where "current_func s = Some j" using call_okD(2) by blast
      then show "safe (call_ok C) (case current_func s of None \<Rightarrow> raiseM (AttributeError ''id'')
          | Some i' \<Rightarrow> getM (\<lambda>s. i \<in> set (call_map s i')))" by (simp add: safe_get)
    qed
    show "safe (call_ok C) (?call ok)" for ok
      unfolding sub bind_returnM by (intro safe_if safe_bind safe_return safe_func_call [OF x(2) that])
  qed
  show ?thesis
  proof (cases "present m ''func_call''")
    case None
    then have has: "has C m ''func_call'' = returnM False"
      using good_HasField [OF assms(1) kind] by (simp add: has_def fun_eq_iff)
    show ?thesis unfolding statement_call_def has bind_returnM by (simp only: if_False safe_return)
  next
    case (Some v)
    have has: "has C m ''func_call'' = returnM True"
      using good_HasField [OF assms(1) kind] Some by (simp add: has_def fun_eq_iff)
    have "deep n x" by (rule assms(2) [OF near]) (simp add: Some)
    from safe_split [OF none some [OF this]] show ?thesis
      unfolding statement_call_def has bind_returnM by simp
  qed
qed

end

section \<open>Statements and blocks\<close>

lemma safe_loop_control:
  assumes "good C ''Statement'' m"
  shows "safe (state_ok C Q) (loop_control C m)"
  unfolding loop_control_def
  by (rule safe_rules safe_when_set [OF assms] safe_bind | rule schema)+

context safe_block_visitor begin

lemma safe_statement:
  assumes "good C ''Statement'' m" and "below_block n m"
  shows "safe (stmt_ok C) (visit_statement C visitor blk m)"
proof -
  have deep: "deep n x" if "nesting x < nesting m" for x
    by (rule below_blockD(1) [OF assms(2)]) (use that in simp)
  have below: "below_block n x" if "nesting x < nesting m" for x
    by (rule below_blockD(2) [OF assms(2)]) (use that in simp)
  have call: "safe (stmt_ok C) (visit_raw_call C visitor x 0 False)" if "good C ''RawCall'' x" "deep n x" for x
    by (rule safe_raw_call [OF that])
  show ?thesis
    unfolding visit_statement_def
    by (rule safe_or_else safe_first_of safe_loop_control [OF assms(1)] safe_statement_call [OF assms(1)]
        safe_when_has [OF assms(1)] safe_when_has_option [OF assms(1)] safe_when_set_option [OF assms(1) _ safe_pop_stmt]
        safe_visit_var_decl safe_for_stmt safe_if_stmt safe_simple_statements(4) safe_append safe_send_stmt call
        safe_raw_log safe_assignment safe_sub [OF assms(1)]
        | rule schema | erule deep below | rule below_blockD(1) [OF assms(2)] | assumption)+
qed

lemma safe_statements:
  assumes "\<And>x. x \<in> set ms \<Longrightarrow> good C ''Statement'' x \<and> below_block n x"
  shows "safe (stmt_ok C) (visit_statements C visitor blk ms acc)"
  using assms
proof (induction ms arbitrary: acc)
  case (Cons m ms)
  have m: "good C ''Statement'' m" "below_block n m" using Cons.prems by simp_all
  show ?case
    unfolding visit_statements.simps
    by (rule safe_bind [OF safe_statement [OF m] Cons.IH]) (use Cons.prems in simp)
qed (simp add: safe_return)

end

context safe_visitor begin

lemma safe_return_payload:
  assumes "good C ''ReturnPayload'' m" and "deep n m"
  shows "safe (state_ok C Q) (visit_return_payload C visitor m)"
  unfolding visit_return_payload_def
proof (rule safe_bind_get)
  fix s
  assume "state_ok C Q s"
  then have outs: "\<forall>t \<in> set (function_output s). typed (decimals (penv C)) t" by (simp add: state_ok_def inv_def)
  show "safe (state_ok C Q) (bindM (visit_payloads C visitor m (zip (function_output s) params_attrs)) (\<lambda>vs.
     bindM code_offset (\<lambda>off. returnM (off @ butlast (''return '' @ concat (map (\<lambda>v. v @ '','') vs))))))"
    by (rule safe_payload_list [OF assms outs] safe_bind safe_code_offset safe_return)+
qed

lemma safe_exit_statement:
  assumes "good C ''ExitStatement'' m" and "deep n m"
  shows "safe (state_ok C Q) (visit_exit_statement C visitor m force_return)"
  unfolding visit_exit_statement_def
  by (rule safe_or_else safe_first_of safe_when_has [OF assms(1)] safe_simple_statements(1-3) safe_bind_get safe_if
      safe_flag [OF assms(1)] safe_sub [OF assms(1)] safe_return_payload safe_return
      | rule schema | erule deep_le [OF assms(2) less_imp_le] deep_le [OF assms(2)] | assumption)+

end

context safe_block_visitor begin

lemma safe_block_body:
  assumes "good C ''Block'' m" and "deep n m"
  shows "safe (stmt_ok C) (block_body C visitor blk m)"
proof -
  have statements: "safe (stmt_ok C) (visit_statements C visitor blk ms acc)"
    if "\<And>x. x \<in> set ms \<Longrightarrow> good C ''Statement'' x \<and> nesting x < nesting m" for ms acc
    by (rule safe_statements) (use that below_block_sub [OF assms(2)] in simp)
  show ?thesis
    unfolding block_body_def
    by (rule safe_rep [OF assms(1)] safe_bind [OF statements] safe_sub [OF assms(1)] safe_flag safe_bind_get safe_if
        safe_bind [OF safe_exit_statement] safe_return
        | rule schema | erule deep_le [OF assms(2)] | assumption)+
qed

end

text \<open>Three frames for each level of a block and three for what it holds.\<close>

theorem safe_visit_block:
  assumes "good C ''Block'' m" and "3 * nesting m + 3 < depth"
  shows "safe (stmt_ok C) (visit_block C depth m)"
  using assms
proof (induction depth arbitrary: m)
  case (Suc depth)
  have "safe_block_visitor C (visit_expr C depth) depth (visit_block C depth)"
    by unfold_locales (rule Suc.IH)
  from safe_block_visitor.safe_block_body [OF this Suc.prems(1)] Suc.prems(2)
  show ?case by (simp add: deep_def)
qed simp

interpretation blocks: safe_block_visitor C "visit_expr C depth" depth "visit_block C depth" for C depth
  by unfold_locales (rule safe_visit_block)

end
