(* ===== verification/Conv_Safe_Contract.thy ===== *)
theory Conv_Safe_Contract imports Conv_Safe_Stmt Conv_Signature begin

text \<open>
  From statements to the whole contract: parameters, global variables, functions, the order of their
  conversion and their definitions. A conversion of a conforming contract with enough frames raises
  only the expected errors.
\<close>

section \<open>Parameters and global variables\<close>

lemma safe_iff_to: "safe P m \<longleftrightarrow> safe_to P P m"
  by (simp add: safe_def safe_to_def)

lemma visit_type_returns:
  assumes "good C ''FuncParam'' m"
  obtains t where "visit_type C m = returnM t" and "typed (decimals (penv C)) t"
proof -
  obtain t where "extract_vy_type TYPE_DEPTH (decimals (penv C)) False m = Inr t" "typed (decimals (penv C)) t"
    using extract_typed [of "decimals (penv C)" m] assms by (auto simp: good_def)
  then show thesis using that by (simp add: visit_type_def fun_eq_iff)
qed

lemma rep_returns:
  assumes "good C t m" and "kind_of C t f = Some (KRep u)"
  obtains xs where "rep C m f = returnM xs" and "\<And>x. x \<in> set xs \<Longrightarrow> good C u x \<and> nesting x < nesting m"
proof -
  obtain xs where "get_rep (decimals (penv C)) m f = Inr xs"
    and "\<And>x. x \<in> set xs \<Longrightarrow> good C u x \<and> nesting x < nesting m" using good_rep [OF assms] by blast
  then show thesis using that by (simp add: rep_def fun_eq_iff)
qed

lemma safe_input_parameters:
  assumes "\<And>x. x \<in> set ms \<Longrightarrow> good C ''FuncParam'' x" and "\<forall>t \<in> set its. typed (decimals (penv C)) t"
    and "length names = length its"
    and "\<And>a b c. \<forall>t \<in> set b. typed (decimals (penv C)) t \<Longrightarrow> length c = length b \<Longrightarrow>
      safe_to (state_ok C Q) R (k (a, b, c))"
  shows "safe_to (state_ok C Q) R (bindM (input_parameters C i ms acc its names) k)"
  using assms(1-3)
proof (induction ms arbitrary: i acc its names)
  case (Cons m ms)
  obtain t where vis: "visit_type C m = returnM t" and t: "typed (decimals (penv C)) t"
    using visit_type_returns Cons.prems(1) by (metis list.set_intros(1))
  have create: "safe_to (state_ok C Q) (state_ok C Q) (create_var t 1 IMMUTABLE)"
    by (rule safe_toI [OF safe_create_var [OF t]]) simp_all
  show ?case
    unfolding input_parameters.simps bind_assocM vis bind_returnM
  proof (rule safe_to_bind [OF create])
    fix name
    let ?its = "its @ [t]" and ?names = "names @ [name]"
    have its: "\<forall>t \<in> set ?its. typed (decimals (penv C)) t" and len: "length ?names = length ?its"
      using Cons.prems(2,3) t by simp_all
    have "safe_to (state_ok C Q) R (bindM (if i + 1 = MAX_FUNCTION_INPUT then returnM (a, ?its, ?names)
        else input_parameters C (i + 1) ms a ?its ?names) k)" for a
      using Cons.IH [OF _ its len] Cons.prems(1) assms(4) [OF its len]
      by (cases "i + 1 = MAX_FUNCTION_INPUT") (simp_all del: input_parameters.simps)
    then show "safe_to (state_ok C Q) R (bindM (let
         acc = (if 0 < i then acc @ '', '' else acc) @ name @ '': '' @ vyper_type t; its = ?its; names = ?names
       in if i + 1 = MAX_FUNCTION_INPUT then returnM (acc, its, names)
          else input_parameters C (i + 1) ms acc its names) k)" by (simp only: Let_def)
  qed
qed (simp add: assms(4))

lemma safe_output_parameters:
  assumes "\<And>x. x \<in> set ms \<Longrightarrow> good C ''FuncParam'' x" and "\<forall>t \<in> set ots. typed (decimals (penv C)) t"
    and "\<And>b. \<forall>t \<in> set b. typed (decimals (penv C)) t \<Longrightarrow> safe_to P R (k b)"
  shows "safe_to P R (bindM (output_parameters C i ms ots) k)"
  using assms(1,2)
proof (induction ms arbitrary: i ots)
  case (Cons m ms)
  obtain t where vis: "visit_type C m = returnM t" and t: "typed (decimals (penv C)) t"
    using visit_type_returns Cons.prems(1) by (metis list.set_intros(1))
  let ?ots = "ots @ [t]"
  have ots: "\<forall>t \<in> set ?ots. typed (decimals (penv C)) t" using Cons.prems(2) t by simp
  have IH: "safe_to P R (bindM (output_parameters C j ms ?ots) k)" for j
    by (rule Cons.IH [OF _ ots]) (simp add: Cons.prems(1))
  show ?case
    unfolding output_parameters.simps bind_assocM vis bind_returnM
    by (cases "i + 1 = MAX_FUNCTION_OUTPUT"; simp only: simp_thms if_True if_False bind_returnM IH assms(3) [OF ots])
qed (simp add: assms(3))

lemma safe_inputs:
  assumes "good C u m" and "kind_of C u ''input_params'' = Some (KRep ''FuncParam'')"
    and "\<And>a b c. \<forall>t \<in> set b. typed (decimals (penv C)) t \<Longrightarrow> length c = length b \<Longrightarrow>
      safe_to (state_ok C Q) R (k (a, b, c))"
  shows "safe_to (state_ok C Q) R (bindM (bindM (rep C m ''input_params'') (visit_input_parameters C)) k)"
proof -
  obtain xs where xs: "rep C m ''input_params'' = returnM xs" "\<And>x. x \<in> set xs \<Longrightarrow> good C ''FuncParam'' x"
    using rep_returns [OF assms(1,2)] by metis
  show ?thesis
    unfolding xs(1) bind_returnM visit_input_parameters_def
    by (rule safe_input_parameters) (simp_all add: assms(3) xs(2))
qed

lemma safe_outputs:
  assumes "good C u m" and "kind_of C u ''output_params'' = Some (KRep ''FuncParam'')"
    and "\<And>b. \<forall>t \<in> set b. typed (decimals (penv C)) t \<Longrightarrow> safe_to P R (k b)"
  shows "safe_to P R (bindM (bindM (rep C m ''output_params'') (visit_output_parameters C)) k)"
proof -
  obtain xs where xs: "rep C m ''output_params'' = returnM xs" "\<And>x. x \<in> set xs \<Longrightarrow> good C ''FuncParam'' x"
    using rep_returns [OF assms(1,2)] by metis
  show ?thesis
    unfolding xs(1) bind_returnM visit_output_parameters_def
    by (rule safe_output_parameters) (simp_all add: assms(3) xs(2))
qed

lemma state_ok_const:
  "state_ok C (\<lambda>y. y = (ts, ops, c, r)) s \<Longrightarrow> state_ok C (\<lambda>y. y = (ts, ops, b, r)) (s\<lparr>is_constant := b\<rparr>)"
  by (simp add: state_ok_def inv_def view_of_def)

text \<open>A value that may be converted as a constant.\<close>

lemma safe_constant_value:
  assumes "\<And>z. safe (in_type C t z) m" and "\<not> fst (snd (snd z))" and "\<And>v. safe (in_type C t z) (k v)"
  shows "safe (in_type C t z) (seqM (if b then set_constant True else returnM ())
       (bindM m (\<lambda>v. seqM (set_constant False) (k v))))"
proof -
  obtain ts ops c r where z: "z = (ts, ops, c, r)" by (cases z)
  have set: "safe_to (in_type C t (ts, ops, c, r)) (in_type C t (ts, ops, b, r)) (set_constant b)" for c b
    using state_ok_const [of C "t # ts" ops c r _ b] by (simp add: safe_to_def set_constant_def)
  have c: "\<not> c" using assms(2) z by simp
  have "safe_to (in_type C t z) (in_type C t (ts, ops, b, r)) (if b then set_constant True else returnM ())"
    using set [of c True] c by (cases b) (simp_all add: z safe_to_def)
  moreover have "safe_to (in_type C t (ts, ops, b, r)) (in_type C t (ts, ops, b, r)) m"
    by (rule safe_toI [OF assms(1)])
  moreover have "safe_to (in_type C t (ts, ops, b, r)) (in_type C t z) (set_constant False)"
    using set [of b False] c by (simp add: z)
  moreover have "safe_to (in_type C t z) (in_type C t z) (k v)" for v by (rule safe_toI [OF assms(3)])
  ultimately have "safe_to (in_type C t z) (in_type C t z) (seqM (if b then set_constant True else returnM ())
       (bindM m (\<lambda>v. seqM (set_constant False) (k v))))"
    by (intro safe_to_bind)
  then show ?thesis by (simp add: safe_to_def safe_def)
qed

lemma safe_quiet_steps [safe_rules]:
  "safe (state_ok C Q) (modM (\<lambda>s. s\<lparr>immutable_exp := g s\<rparr>))"
  "safe (state_ok C Q) (emit acc)" "safe (state_ok C Q) (note_inputs name ts)" "safe (state_ok C Q) (set_level l)"
  by (simp_all only: emit_def note_inputs_def set_level_def)
    (rule safe_mod, erule state_ok_same; simp add: view_of_def)+

context safe_visitor begin

lemma safe_global:
  assumes "good C ''VarDecl'' m" and "deep n m"
  shows "safe (stmt_ok C) (var_decl_global C visitor m)"
  unfolding var_decl_global_def
proof (rule safe_visit_type [OF assms(1)], simp, rule safe_with_type_in, rule safe_num [OF assms(1)], rule schema)
  fix t z i
  assume t: "typed (decimals (penv C)) t" and z: "stmt_view z" and i: "int_of_kind (KEnum 3) i"
  have i: "i \<in> {REGULAR, CONSTANT, IMMUTABLE}"
    using i by (auto simp: int_of_kind_def REGULAR_def CONSTANT_def IMMUTABLE_def)
  have create: "safe (in_type C t z) (create_var t 0 i)" by (rule safe_create_var [OF t]) (use i in simp)
  have val: "safe (in_type C t y) (bindM (sub C m ''expr'') (\<lambda>e. visit_typed_expression C visitor e t))" for y
    by (rule safe_sub [OF assms(1)], rule schema, rule safe_typed_expression [OF t], assumption)
      (rule deep_le [OF assms(2)])
  have const: "\<not> fst (snd (snd z))" using z by (simp add: stmt_view_def split: prod.splits)
  show "safe (in_type C t z) (if i = REGULAR then
          bindM (create_var t 0 i) (\<lambda>name. returnM (name @ '': '' @ vyper_type t))
        else
          seqM (if i = CONSTANT then set_constant True else returnM ())
          (bindM (bindM (sub C m ''expr'') (\<lambda>e. visit_typed_expression C visitor e t)) (\<lambda>v.
           seqM (set_constant False)
           (bindM (create_var t 0 i) (\<lambda>name.
            if i = CONSTANT then
              returnM (name @ '': constant('' @ vyper_type t @ '') = '' @ v)
            else
              seqM (modM (\<lambda>s. s\<lparr>immutable_exp := immutable_exp s @ [(name, v)]\<rparr>))
                (returnM (name @ '': immutable('' @ vyper_type t @ '')'')))))))"
    by (rule safe_if safe_constant_value [OF val const] create safe_return safe_quiet_steps safe_bind)+
qed (simp add: is_int_kind_def)

lemma safe_decls:
  assumes "\<And>x. x \<in> set ms \<Longrightarrow> good C ''VarDecl'' x \<and> deep n x"
  shows "safe (stmt_ok C) (visit_decls C visitor i ms)"
  using assms
proof (induction ms arbitrary: i)
  case (Cons m ms)
  have m: "good C ''VarDecl'' m" "deep n m" using Cons.prems by simp_all
  show ?case
    unfolding visit_decls.simps
    by (rule safe_if safe_return safe_global [OF m] safe_quiet_steps Cons.IH safe_bind | (simp add: Cons.prems; fail))+
qed (simp add: safe_return)

end

section \<open>Functions\<close>

lemma safe_set_mut: "safe (state_ok C Q) (set_mut 0)"
  unfolding set_mut_def by (rule safe_mod) (simp add: state_ok_mut PAYABLE_def)

lemma safe_set_output:
  "\<forall>t \<in> set ts. typed (decimals (penv C)) t \<Longrightarrow> safe (state_ok C Q) (set_output ts)"
  unfolding set_output_def by (rule safe_mod) (simp add: state_ok_def inv_def view_of_def)

lemma safe_function_body:
  "safe (state_ok C Q) body \<Longrightarrow> safe (state_ok C Q) (function_body body)"
  unfolding function_body_def by (rule safe_quiet_steps safe_remove_level safe_return safe_bind | assumption)+

lemma safe_value: "safe P (liftR (Inr x))"
  by (simp add: safe_def)

lemma safe_reentrancy:
  assumes "good C u m" and "kind_of C u ''ret'' = Some (KMsg ''Reentrancy'')"
  shows "safe (state_ok C Q) (reentrancy_of C m)"
proof -
  have key: "safe (state_ok C Q) (visit_reentrancy C r)" if r: "good C ''Reentrancy'' r" for r
  proof -
    have "kind_of C ''Reentrancy'' ''key'' = Some KString" by (rule schema)
    then obtain cs where cs: "get_str (decimals (penv C)) r ''key'' = Inr cs" using good_str [OF r] by blast
    then show ?thesis
      unfolding visit_reentrancy_def by (cases "conv_class C") (simp_all add: cs safe_return safe_value Let_def)
  qed
  show ?thesis
    unfolding reentrancy_of_def
    by (rule safe_has [OF assms] safe_bind_get safe_if safe_sub [OF assms] key safe_return | assumption)+
qed

lemma safe_update_function:
  assumes "\<And>f. func_ok (decimals (penv C)) f \<Longrightarrow> func_ok (decimals (penv C)) (g f)"
  shows "safe (state_ok C Q) (update_function i g)"
proof -
  have upd: "Ball (set (fs[i := g (fs ! i)])) (func_ok (decimals (penv C)))"
    if "Ball (set fs) (func_ok (decimals (penv C)))" for fs
  proof (cases "i < length fs")
    case True
    then have "func_ok (decimals (penv C)) (g (fs ! i))" by (intro assms) (use that in simp)
    then show ?thesis using that set_update_subset_insert [of fs i "g (fs ! i)"] by blast
  next
    case False
    then show ?thesis using that by (simp add: list_update_beyond)
  qed
  show ?thesis
    unfolding update_function_def
  proof (rule safe_mod)
    fix s
    assume s: "state_ok C Q s"
    let ?fs = "ft_functions (funcs s)" and ?s = "s\<lparr>funcs := (funcs s)\<lparr>ft_functions := (ft_functions (funcs s))
      [i := g (ft_functions (funcs s) ! i)]\<rparr>\<rparr>"
    have "Ball (set ?fs) (func_ok (decimals (penv C)))" using s by (simp add: state_ok_def inv_def)
    from upd [OF this] have "inv C ?s" using s by (simp add: state_ok_def inv_def)
    moreover have "view_of ?s = view_of s" by (simp add: view_of_def)
    ultimately show "state_ok C Q ?s" using s by (simp add: state_ok_def)
  qed
qed

abbreviation idle_ok :: "cenv \<Rightarrow> conv_state \<Rightarrow> bool" where
  "idle_ok C \<equiv> state_ok C (\<lambda>y. \<not> fst (snd (snd y)))"

lemma stmt_idle: "stmt_ok C s \<Longrightarrow> idle_ok C s"
  by (auto simp: state_ok_def stmt_view_def split: prod.splits)

lemma state_ok_muts:
  assumes "state_ok C Q s" and "int_of_kind (KEnum 4) k"
  shows "0 \<le> max (mut_level s) k" and "max (mut_level s) k \<le> PAYABLE"
  using assms by (auto simp: state_ok_def inv_def int_of_kind_def PAYABLE_def)

context safe_block_visitor begin

lemma safe_block_of:
  assumes "good C u m" and "kind_of C u ''block'' = Some (KMsg ''Block'')" and "3 * nesting m + 3 < n"
  shows "safe (stmt_ok C) (bindM (sub C m ''block'') blk)"
  by (rule safe_sub [OF assms(1,2)], erule blk_safe) (use assms(3) in simp)

lemma safe_func:
  assumes "good C ''Func'' m" and "3 * nesting m + 3 < n"
  shows "safe_to (idle_ok C) (stmt_ok C) (visit_func C blk i m)"
proof -
  have enter: "safe_to (idle_ok C) (stmt_ok C) (modM (\<lambda>s. s\<lparr>current_func := Some i\<rparr>))"
    by (simp add: safe_to_def state_ok_def inv_def view_of_def stmt_view_def)
  have upd: "safe (stmt_ok C) (update_function i (\<lambda>f. f\<lparr>f_mutability := max mut fmut, f_body := block,
            f_reentrancy := reentrancy, f_outputs := outs\<rparr>))"
    if "0 \<le> max mut fmut" "max mut fmut \<le> PAYABLE" "\<forall>t \<in> set outs. typed (decimals (penv C)) t"
    for mut fmut block reentrancy outs
    by (rule safe_update_function) (use that in \<open>auto simp: func_ok_def\<close>)
  have rest: "safe (stmt_ok C) (bindM (function_body (bindM (sub C m ''block'') blk)) (\<lambda>block.
        bindM (reentrancy_of C m) (\<lambda>reentrancy.
        bindM (num C m ''mut'') (\<lambda>fmut.
        bindM (getM mut_level) (\<lambda>mut.
        bindM (getM function_output) (\<lambda>outs.
          update_function i (\<lambda>f. f\<lparr>f_mutability := max mut fmut, f_body := block,
            f_reentrancy := reentrancy, f_outputs := outs\<rparr>)))))))"
  proof (rule safe_bind [OF safe_function_body [OF safe_block_of [OF assms(1) _ assms(2)]]], rule schema,
      rule safe_bind [OF safe_reentrancy [OF assms(1)]], rule schema, rule safe_num [OF assms(1)], rule schema)
    fix block reentrancy k
    assume k: "int_of_kind (KEnum 4) k"
    show "safe (stmt_ok C) (bindM (getM mut_level) (\<lambda>mut.
        bindM (getM function_output) (\<lambda>outs.
          update_function i (\<lambda>f. f\<lparr>f_mutability := max mut k, f_body := block,
            f_reentrancy := reentrancy, f_outputs := outs\<rparr>))))"
    proof (rule safe_bind_get, rule safe_bind_get, rule upd)
      fix s t
      assume s: "stmt_ok C s" and t: "stmt_ok C t"
      show "0 \<le> max (mut_level s) k" "max (mut_level s) k \<le> PAYABLE" by (rule state_ok_muts [OF s k])+
      show "\<forall>t \<in> set (function_output t). typed (decimals (penv C)) t" using t by (simp add: state_ok_def inv_def)
    qed
  qed (simp add: is_int_kind_def)
  show ?thesis
    unfolding visit_func_def
    by (rule safe_to_bind [OF safe_toI [OF safe_set_mut]], assumption, assumption,
        rule safe_to_bind [OF enter], rule safe_toI [OF rest]) assumption+
qed

lemma safe_init:
  assumes "good C ''ContractInit'' m" and "3 * nesting m + 3 < n"
  shows "safe (stmt_ok C) (visit_init C blk m)"
  unfolding visit_init_def visit_init_immutables_def prod.case
proof (rule safe_bind [OF safe_set_mut], subst safe_iff_to, rule safe_inputs [OF assms(1)], rule schema)
  fix params types nms
  have blk: "safe (stmt_ok C) (bindM (bindM (sub C m ''block'') blk) (\<lambda>b. returnM (imm @ b)))" for imm
    by (rule safe_bind [OF safe_block_of [OF assms(1) _ assms(2)] safe_return], rule schema)
  have body: "safe (stmt_ok C) (function_body (bindM (getM g) (\<lambda>imm.
      bindM (bindM (sub C m ''block'') blk) (\<lambda>b. returnM (imm @ b)))))" for g
    by (rule safe_function_body, rule safe_bind_get, rule blk)
  show "safe_to (stmt_ok C) (stmt_ok C) (case (params, types, nms) of (params, types, _) \<Rightarrow>
        seqM (if types \<noteq> [] then note_inputs ''__init__'' types else returnM ())
        (bindM (function_body (bindM (getM (\<lambda>s. concat (map (\<lambda>(var, expr). TAB @ var @ '' = '' @ expr @ newline)
           (immutable_exp s)))) (\<lambda>imm. bindM (bindM (sub C m ''block'') blk) (\<lambda>b. returnM (imm @ b))))) (\<lambda>block.
         bindM (num C m ''mut'') (\<lambda>mut.
           returnM (init_visibility (conv_class C) @ newline @
             (if mut \<noteq> 0 then ''@payable'' @ newline else '''') @
             ''def __init__('' @ params @ ''):'' @ newline @ block)))))"
    unfolding prod.case safe_iff_to [symmetric]
    by (rule safe_num [OF assms(1)] safe_bind [OF body] safe_if safe_quiet_steps safe_return safe_bind | rule schema
        | (simp add: is_int_kind_def; fail))+
qed

lemma safe_default:
  assumes "good C ''DefaultFunc'' m" and "3 * nesting m + 3 < n"
  shows "safe (stmt_ok C) (visit_default_func C blk m)"
  unfolding visit_default_func_def
proof (rule safe_bind [OF safe_set_mut], rule safe_bind [OF safe_function_body [OF safe_block_of [OF assms(1) _ assms(2)]]],
    rule schema, rule safe_bind_get, rule safe_bind [OF safe_reentrancy [OF assms(1)]], rule schema,
    rule safe_num [OF assms(1)], rule schema)
  fix k and block reentrancy :: string and outs
  assume k: "int_of_kind (KEnum 4) k"
  show "safe (stmt_ok C) (bindM (getM mut_level) (\<lambda>mut.
        bindM (liftR (mutability_decorator (max mut k))) (\<lambda>mutability.
          returnM (''@external'' @ newline @ reentrancy @ mutability @ newline @ ''def __default__()'' @
            output_text outs @ '':'' @ newline @ block))))" for outs
  proof (rule safe_bind_get)
    fix s
    assume "stmt_ok C s"
    note mut = state_ok_muts [OF this k]
    then have "nat (max (mut_level s) k) < length MUTABILITY_MAPPING"
      by (simp add: MUTABILITY_MAPPING_def PAYABLE_def nat_less_iff)
    then obtain dec where "mutability_decorator (max (mut_level s) k) = Inr dec"
      using mut(1) unfolding mutability_decorator_def by simp
    then show "safe (stmt_ok C) (bindM (liftR (mutability_decorator (max (mut_level s) k))) (\<lambda>mutability.
          returnM (''@external'' @ newline @ reentrancy @ mutability @ newline @ ''def __default__()'' @
            output_text outs @ '':'' @ newline @ block)))" by (simp only: bind_liftR safe_return)
  qed
qed (simp add: is_int_kind_def)

end

section \<open>Numbers and inputs of the functions\<close>

text \<open>What the definitions rely on: the numbers are positions, and as many names as types are kept.\<close>

definition shape :: "conv_state \<Rightarrow> (nat \<times> nat) list" where
  "shape s = map (\<lambda>f. (f_id f, length (f_inputs f))) (ft_functions (funcs s))"

definition shape_frame :: "conv_state \<Rightarrow> conv_state \<Rightarrow> bool" where
  "shape_frame s t \<longleftrightarrow> shape t = shape s"

interpretation shaped: frame_rel shape_frame
  by unfold_locales (simp_all add: shape_frame_def)

lemma shaped_funcs: "sf.keepsM m \<Longrightarrow> shaped.keepsM m"
  by (auto simp: sf.keepsM_def shaped.keepsM_def view_frame_def shape_frame_def shape_def)

lemma update_function_shape:
  assumes "update_function i g s = Inr (x, t)" and "\<And>f. f_id (g f) = f_id f" and "\<And>f. length (f_inputs (g f)) = k f"
  shows "shape t = (shape s)[i := (fst (shape s ! i), k (ft_functions (funcs s) ! i))]"
proof -
  let ?fs = "ft_functions (funcs s)"
  have t: "ft_functions (funcs t) = ?fs[i := g (?fs ! i)]" using assms(1) by (auto simp: update_function_def)
  show ?thesis
    unfolding shape_def t
    by (cases "i < length ?fs") (simp_all add: map_update assms(2,3) list_update_beyond)
qed

lemma shaped_update:
  assumes "\<And>f. f_id (g f) = f_id f" and "\<And>f. f_inputs (g f) = f_inputs f"
  shows "shaped.keepsM (update_function i g)"
proof (rule shaped.keepsI)
  fix s x t
  assume run: "update_function i g s = Inr (x, t)"
  have "(shape s)[i := (fst (shape s ! i), length (f_inputs (ft_functions (funcs s) ! i)))] = shape s"
    by (cases "i < length (ft_functions (funcs s))")
      (simp_all add: shape_def list_update_same_conv list_update_beyond)
  then show "shape_frame s t"
    using update_function_shape [OF run assms(1), of "\<lambda>f. length (f_inputs f)"] assms(2)
    by (simp add: shape_frame_def)
qed

lemma shaped_visit_func: "shaped.keepsM (visit_func C (visit_block C depth) i m)"
  unfolding visit_func_def
  by (intro shaped.keeps_bind shaped.keeps_get shaped_update; (rule shaped_funcs, intro keeps | simp))

lemma input_parameters_names:
  assumes "input_parameters C i ms acc its names s = Inr ((a, b, c), t)" and "length names = length its"
  shows "length c = length b"
  using assms
proof (induction ms arbitrary: i acc its names s)
  case (Cons m ms)
  then show ?case by (auto simp: bindM_Inr_iff Let_def split: if_splits)
qed simp

lemma convert_function_shape:
  assumes "convert_function C (visit_block C depth) fs i s = Inr (names, t)"
  shows "i < length (shape s)" and "shape t = (shape s)[i := (fst (shape s ! i), length names)]"
proof -
  obtain f where f: "function_at i s = Inr (f, s)" "i < length (shape s)"
    using assms by (auto simp: convert_function_def bindM_Inr_iff function_at_def shape_def split: if_splits)
  then have i: "i < length fs"
    using assms by (auto simp: convert_function_def bindM_Inr_iff split: if_splits)
  obtain ptext ts nms s1 where ins: "bindM (rep C (fs ! i) ''input_params'') (visit_input_parameters C) s = Inr ((ptext, ts, nms), s1)"
    and body: "seqM (update_function i (\<lambda>f. f\<lparr>f_inputs := ts\<rparr>))
     (bindM (bindM (rep C (fs ! i) ''output_params'') (visit_output_parameters C)) (\<lambda>outs.
      seqM (update_function i (\<lambda>f. f\<lparr>f_outputs := outs\<rparr>))
      (seqM (set_output outs)
      (seqM (note_inputs (f_name f) ts)
      (seqM (visit_func C (visit_block C depth) i (fs ! i)) (returnM nms)))))) s1 = Inr (names, t)"
    using assms f i
    by (auto simp: convert_function_def Let_def bindM_Inr_iff [of "function_at i"] bindM_Inr_iff [of "bindM a b" for a b])
  have len: "length nms = length ts"
    using ins by (auto simp: bindM_Inr_iff visit_input_parameters_def dest!: input_parameters_names)
  have "shaped.keepsM (bindM (rep C (fs ! i) ''input_params'') (visit_input_parameters C))"
    by (rule shaped_funcs, intro keeps)
  from shaped.keepsD [OF this ins] have s1: "shape s1 = shape s" by (simp add: shape_frame_def)
  obtain u s2 where upd: "update_function i (\<lambda>f. f\<lparr>f_inputs := ts\<rparr>) s1 = Inr (u, s2)"
    and rest: "bindM (bindM (rep C (fs ! i) ''output_params'') (visit_output_parameters C)) (\<lambda>outs.
      seqM (update_function i (\<lambda>f. f\<lparr>f_outputs := outs\<rparr>))
      (seqM (set_output outs)
      (seqM (note_inputs (f_name f) ts)
      (seqM (visit_func C (visit_block C depth) i (fs ! i)) (returnM nms))))) s2 = Inr (names, t)"
    using body by (rule bindM_InrE)
  have s2: "shape s2 = (shape s)[i := (fst (shape s ! i), length ts)]"
    using update_function_shape [OF upd, of "\<lambda>_. length ts"] s1 by simp
  have noted: "shaped.keepsM (note_inputs name ts)" for name
    by (rule shaped.keepsI) (auto simp: note_inputs_def shape_frame_def shape_def)
  have "shaped.keepsM (bindM (bindM (rep C (fs ! i) ''output_params'') (visit_output_parameters C)) (\<lambda>outs.
      seqM (update_function i (\<lambda>f. f\<lparr>f_outputs := outs\<rparr>))
      (seqM (set_output outs)
      (seqM (note_inputs (f_name f) ts)
      (seqM (visit_func C (visit_block C depth) i (fs ! i)) (returnM nms))))))"
    by (rule shaped.keeps_bind [OF shaped_funcs], intro keeps,
        rule shaped.keeps_bind [OF shaped_update], simp, simp,
        rule shaped.keeps_bind [OF shaped_funcs], intro keeps,
        rule shaped.keeps_bind [OF noted shaped.keeps_bind [OF shaped_visit_func shaped.keeps_return]])
  from shaped.keepsD [OF this rest] have "shape t = shape s2" by (simp add: shape_frame_def)
  moreover have "names = nms" using rest by (auto simp: bindM_Inr_iff)
  ultimately show "shape t = (shape s)[i := (fst (shape s ! i), length names)]" using s2 len by simp
  show "i < length (shape s)" by (rule f(2))
qed

lemma convert_functions_shape:
  assumes "convert_functions C (visit_block C depth) fs is s = Inr (nss, t)" and "distinct is"
  shows "map fst (shape t) = map fst (shape s) \<and> length nss = length is \<and>
    (\<forall>j. j \<notin> set is \<longrightarrow> shape t ! j = shape s ! j) \<and>
    (\<forall>j < length is. is ! j < length (shape t) \<and> snd (shape t ! (is ! j)) = length (nss ! j))"
  using assms
proof (induction "is" arbitrary: s nss)
  case (Cons i "is")
  obtain names s1 rest where one: "convert_function C (visit_block C depth) fs i s = Inr (names, s1)"
    and more: "convert_functions C (visit_block C depth) fs is s1 = Inr (rest, t)" and nss: "nss = names # rest"
    using Cons.prems(1) by (auto simp: bindM_Inr_iff)
  note i = convert_function_shape [OF one]
  have dist: "i \<notin> set is" "distinct is" using Cons.prems(2) by simp_all
  note IH = Cons.IH [OF more dist(2)]
  have ids: "map fst (shape t) = map fst (shape s)"
    using IH i by (simp add: map_update list_update_same_conv)
  then have len: "length (shape t) = length (shape s)" using map_eq_imp_length_eq by blast
  have "shape t ! i = (fst (shape s ! i), length names)" using IH dist(1) i by simp
  moreover have "shape t ! j = shape s ! j" if "j \<notin> set (i # is)" for j using IH that i(2) by simp
  ultimately show ?case using IH ids i(1) len nss by (auto simp: nth_Cons split: nat.split)
qed auto

end
