(* ===== verification/Conv_Total.thy ===== *)
theory Conv_Total imports Conv_Safe_Contract begin

text \<open>
  The functions of a contract in the order of their calls, their definitions, and the contract: a
  conforming message and enough frames are all a conversion needs to end in a source or in one of the
  expected errors.
\<close>

section \<open>Posts of steps between different states\<close>

lemma safe_to_error: "safe_to A B m \<Longrightarrow> A s \<Longrightarrow> m s = Inl e \<Longrightarrow> expected_error e"
  by (auto simp: safe_to_def)

lemma safe_to_post: "safe_to A B m \<Longrightarrow> A s \<Longrightarrow> m s = Inr (x, t) \<Longrightarrow> B t"
  by (force simp: safe_to_def)

lemma safe_to_bind_post:
  assumes "safe_to A B m" and "\<And>s x t. A s \<Longrightarrow> m s = Inr (x, t) \<Longrightarrow> S x t"
    and "\<And>x. safe_to (\<lambda>t. B t \<and> S x t) R (k x)"
  shows "safe_to A R (bindM m k)"
  unfolding safe_to_def
proof (intro allI impI)
  fix s
  assume A: "A s"
  show "case bindM m k s of Inl e \<Rightarrow> expected_error e | Inr (x, t) \<Rightarrow> R t"
  proof (cases "m s")
    case (Inl e)
    then show ?thesis using safe_to_error [OF assms(1) A Inl] by (simp add: bindM_def)
  next
    case (Inr p)
    obtain x t where p: "p = (x, t)" by (cases p)
    have "B t \<and> S x t" using safe_to_post [OF assms(1) A] assms(2) [OF A] Inr p by blast
    then have "case k x t of Inl e \<Rightarrow> expected_error e | Inr (y, u) \<Rightarrow> R u"
      using assms(3) [of x] unfolding safe_to_def by blast
    then show ?thesis by (simp add: bindM_def Inr p)
  qed
qed

lemma safe_to_weaken: "safe_to B R m \<Longrightarrow> (\<And>s. A s \<Longrightarrow> B s) \<Longrightarrow> safe_to A R m"
  by (simp add: safe_to_def)

lemma bindM_at: "m s = Inr (x, t) \<Longrightarrow> bindM m k s = k x t"
  by (simp add: bindM_def)

lemmas safe_same = safe_iff_to [THEN iffD1]

section \<open>Converting the functions\<close>

context safe_block_visitor begin

lemma safe_convert_function:
  assumes "i < length fs" and "good C ''Func'' (fs ! i)" and "3 * nesting (fs ! i) + 3 < n"
  shows "safe_to (\<lambda>s. idle_ok C s \<and> i < length (shape s)) (stmt_ok C) (convert_function C blk fs i)"
proof -
  let ?rest = "\<lambda>f. bindM (bindM (rep C (fs ! i) ''input_params'') (visit_input_parameters C)) (\<lambda>(_, types, names).
     seqM (update_function i (\<lambda>f. f\<lparr>f_inputs := types\<rparr>))
     (bindM (bindM (rep C (fs ! i) ''output_params'') (visit_output_parameters C)) (\<lambda>outs.
      seqM (update_function i (\<lambda>f. f\<lparr>f_outputs := outs\<rparr>))
      (seqM (set_output outs)
      (seqM (note_inputs (f_name f) types)
      (seqM (visit_func C blk i (fs ! i)) (returnM names)))))))"
  have names: "safe_to (idle_ok C) (stmt_ok C) (seqM (visit_func C blk i (fs ! i)) (returnM names))" for names :: "string list"
    by (rule safe_to_bind [OF safe_func [OF assms(2,3)] safe_same [OF safe_return]])
  have outs: "safe_to (idle_ok C) (stmt_ok C) (seqM (update_function i (\<lambda>f. f\<lparr>f_outputs := outs\<rparr>))
      (seqM (set_output outs) (seqM (note_inputs name types) (seqM (visit_func C blk i (fs ! i)) (returnM names)))))"
    if "\<forall>t \<in> set outs. typed (decimals (penv C)) t" for outs name types and names :: "string list"
  proof (rule safe_to_bind [OF safe_same [OF safe_update_function]])
    show "safe_to (idle_ok C) (stmt_ok C) (seqM (set_output outs) (seqM (note_inputs name types)
        (seqM (visit_func C blk i (fs ! i)) (returnM names))))"
      by (rule safe_to_bind [OF safe_same [OF safe_set_output [OF that]]
            safe_to_bind [OF safe_same [OF safe_quiet_steps(3)] names]])
  qed (use that in \<open>auto simp: func_ok_def\<close>)
  have rest: "safe_to (idle_ok C) (stmt_ok C) (?rest f)" for f
  proof (rule safe_inputs [OF assms(2)], rule schema)
    fix a and b :: "vy_type list" and c :: "string list"
    assume b: "\<forall>t \<in> set b. typed (decimals (penv C)) t"
    show "safe_to (idle_ok C) (stmt_ok C) (case (a, b, c) of (_, types, names) \<Rightarrow>
     seqM (update_function i (\<lambda>f. f\<lparr>f_inputs := types\<rparr>))
     (bindM (bindM (rep C (fs ! i) ''output_params'') (visit_output_parameters C)) (\<lambda>outs.
      seqM (update_function i (\<lambda>f. f\<lparr>f_outputs := outs\<rparr>))
      (seqM (set_output outs)
      (seqM (note_inputs (f_name f) types)
      (seqM (visit_func C blk i (fs ! i)) (returnM names)))))))"
      unfolding prod.case
    proof (rule safe_to_bind [OF safe_same [OF safe_update_function]])
      show "safe_to (idle_ok C) (stmt_ok C) (bindM (bindM (rep C (fs ! i) ''output_params'') (visit_output_parameters C)) (\<lambda>outs.
        seqM (update_function i (\<lambda>f. f\<lparr>f_outputs := outs\<rparr>)) (seqM (set_output outs)
        (seqM (note_inputs (f_name f) b) (seqM (visit_func C blk i (fs ! i)) (returnM c))))))"
        by (rule safe_outputs [OF assms(2)], rule schema, rule outs)
    qed (use b in \<open>auto simp: func_ok_def\<close>)
  qed
  have run: "convert_function C blk fs i s = ?rest (ft_functions (funcs s) ! i) s" if "i < length (shape s)" for s
  proof -
    have at: "function_at i s = Inr (ft_functions (funcs s) ! i, s)" using that by (simp add: function_at_def shape_def)
    have i: "(length fs \<le> i) = False" using assms(1) by simp
    show ?thesis unfolding convert_function_def bindM_at [where m = "function_at i", OF at] i if_False Let_def ..
  qed
  show ?thesis
    unfolding safe_to_def
  proof (intro allI impI, elim conjE)
    fix s
    assume s: "idle_ok C s" and i: "i < length (shape s)"
    show "case convert_function C blk fs i s of Inl e \<Rightarrow> expected_error e | Inr (x, t) \<Rightarrow> stmt_ok C t"
      unfolding run [OF i] by (rule rest [unfolded safe_to_def, rule_format, OF s])
  qed
qed

end

lemma safe_convert_functions:
  assumes "\<And>i. i \<in> set is \<Longrightarrow> i < N" and "N \<le> length fs"
    and "\<And>x. x \<in> set fs \<Longrightarrow> good C ''Func'' x \<and> 3 * nesting x + 3 < depth"
  shows "safe_to (\<lambda>s. idle_ok C s \<and> length (shape s) = N \<and> (is = [] \<longrightarrow> stmt_ok C s)) (stmt_ok C)
     (convert_functions C (visit_block C depth) fs is)"
  using assms(1)
proof (induction "is")
  case (Cons i "is")
  have i: "i < length fs" "i < N" using Cons.prems assms(2) by fastforce+
  have m: "good C ''Func'' (fs ! i)" "3 * nesting (fs ! i) + 3 < depth" using assms(3) i(1) by simp_all
  have one: "safe_to (\<lambda>s. idle_ok C s \<and> length (shape s) = N \<and> (i # is = [] \<longrightarrow> stmt_ok C s)) (stmt_ok C)
      (convert_function C (visit_block C depth) fs i)"
    by (rule safe_to_weaken [OF blocks.safe_convert_function [OF i(1) m]]) (use i in simp)
  show ?case
    unfolding convert_functions.simps
  proof (rule safe_to_bind_post [OF one])
    fix s names t
    assume "idle_ok C s \<and> length (shape s) = N \<and> (i # is = [] \<longrightarrow> stmt_ok C s)"
      and "convert_function C (visit_block C depth) fs i s = Inr (names, t)"
    then show "length (shape t) = N" using convert_function_shape(2) by fastforce
  next
    fix names
    have "safe_to (\<lambda>s. idle_ok C s \<and> length (shape s) = N \<and> (is = [] \<longrightarrow> stmt_ok C s)) (stmt_ok C)
     (convert_functions C (visit_block C depth) fs is)" by (rule Cons.IH) (simp add: Cons.prems)
    then have "safe_to (\<lambda>t. stmt_ok C t \<and> length (shape t) = N) (stmt_ok C)
       (bindM (convert_functions C (visit_block C depth) fs is) (\<lambda>rest. returnM (names # rest)))"
      by (rule safe_to_bind [OF safe_to_weaken safe_same [OF safe_return]]) (simp add: stmt_idle)
    then show "safe_to (\<lambda>t. stmt_ok C t \<and> length (shape t) = N) (stmt_ok C)
       (bindM (convert_functions C (visit_block C depth) fs is) (\<lambda>rest. returnM (names # rest)))" .
  qed
qed (simp add: safe_to_def)

section \<open>The definitions\<close>

lemma safe_render:
  assumes "\<And>f. f \<in> set gs \<Longrightarrow> 0 \<le> f_mutability f \<and> f_mutability f \<le> PAYABLE"
    and "\<And>f. f \<in> set gs \<Longrightarrow> \<exists>nm. names_of order nss (f_id f) = Inr nm \<and> length nm = length (f_inputs f)"
  shows "safe (state_ok C Q) (render_functions order nss gs)"
  using assms
proof (induction gs)
  case (Cons f gs)
  obtain nm where nm: "names_of order nss (f_id f) = Inr nm" "length nm = length (f_inputs f)"
    using Cons.prems(2) [of f] by auto
  obtain sig where sig: "render_signature f nm = Inr sig" using nm(2) by (simp add: render_signature_def)
  have mut: "0 \<le> f_mutability f" "f_mutability f \<le> PAYABLE" using Cons.prems(1) by simp_all
  then have "nat (f_mutability f) < length MUTABILITY_MAPPING"
    by (simp add: MUTABILITY_MAPPING_def PAYABLE_def nat_less_iff)
  then obtain dec where "mutability_decorator (f_mutability f) = Inr dec"
    using mut(1) unfolding mutability_decorator_def by simp
  then obtain out where out: "render_definition f nm = Inr out" using sig by (simp add: render_definition_def Let_def)
  show ?case
    unfolding render_functions.simps nm(1) bind_liftR out
    by (rule safe_bind [OF safe_quiet_steps(2)], rule Cons.IH) (simp_all add: Cons.prems)
qed (simp add: safe_return)

text \<open>Every function of the order has its names.\<close>

lemma names_of_position:
  assumes "set order = {..<length order}" and "length nss = length order"
    and "map fst (shape s) = [0..<length order]" and "f \<in> set (ft_functions (funcs s))"
    and "\<And>j. j < length order \<Longrightarrow> snd (shape s ! (order ! j)) = length (nss ! j)"
  shows "\<exists>nm. names_of order nss (f_id f) = Inr nm \<and> length nm = length (f_inputs f)"
proof -
  obtain k where k: "k < length (ft_functions (funcs s))" "f = ft_functions (funcs s) ! k"
    using assms(4) by (auto simp: in_set_conv_nth)
  have len: "length (shape s) = length order" using assms(3) map_eq_imp_length_eq [of fst "shape s" id] by simp
  have at: "shape s ! k = (f_id f, length (f_inputs f))" using k by (simp add: shape_def)
  have kl: "k < length order" using k(1) len by (simp add: shape_def)
  have "map fst (shape s) ! k = k" using assms(3) kl by simp
  then have id: "f_id f = k" using at kl len by simp
  have "fst ` set (zip order nss) = set order"
    using assms(2) by (metis list.set_map map_fst_zip)
  then have "k \<in> fst ` set (zip order nss)" using assms(1) kl by simp
  then obtain nm where nm: "map_of (zip order nss) k = Some nm"
    by (cases "map_of (zip order nss) k") (auto simp: map_of_eq_None_iff)
  then obtain j where "j < length order" "order ! j = k" "nss ! j = nm"
    using map_of_SomeD [OF nm] assms(2) by (auto simp: in_set_zip)
  then have "length nm = length (f_inputs f)" using assms(5) [of j] at by simp
  then show ?thesis using nm id by (simp add: names_of_def)
qed

section \<open>Registering and ordering\<close>

lemma register_functions_returns:
  assumes "\<And>m. m \<in> set ms \<Longrightarrow> good C ''Func'' m"
    and "\<forall>f \<in> set (ft_functions ft). func_ok d f \<and> f_inputs f = []"
  shows "\<exists>ft'. register_functions (decimals (penv C)) ms ft = Inr ft' \<and>
    (\<forall>f \<in> set (ft_functions ft'). func_ok d f \<and> f_inputs f = [])"
  using assms
proof (induction ms arbitrary: ft)
  case (Cons m ms)
  have m: "good C ''Func'' m" using Cons.prems(1) by simp
  obtain k where k: "get_int (decimals (penv C)) m ''mut'' = Inr k" "int_of_kind (KEnum 4) k"
    by (rule good_num [OF m]) (rule schema, simp_all add: is_int_kind_def)
  obtain v where v: "get_int (decimals (penv C)) m ''vis'' = Inr v"
    by (rule good_num [OF m]) (rule schema, simp_all add: is_int_kind_def)
  let ?ft = "register_function (generate_function_name ft) k v [] [] ft"
  have "func_ok d (new_function i name k v [] [])" for i name
    using k(2) by (auto simp: func_ok_def new_function_def int_of_kind_def PAYABLE_def)
  then have "\<forall>f \<in> set (ft_functions ?ft). func_ok d f \<and> f_inputs f = []"
    using Cons.prems(2) by (auto simp: register_function_def Let_def new_function_def)
  from Cons.IH [OF _ this] Cons.prems(1) obtain ft' where "register_functions (decimals (penv C)) ms ?ft = Inr ft'"
    "\<forall>f \<in> set (ft_functions ft'). func_ok d f \<and> f_inputs f = []" by auto
  then show ?case using Cons.prems(2) by (simp add: k(1) v)
qed simp

text \<open>A state between the order and the first function.\<close>

definition ordered :: "cenv \<Rightarrow> msg list \<Rightarrow> nat list \<Rightarrow> conv_state \<Rightarrow> bool" where
  "ordered C fs order s \<longleftrightarrow>
     idle_ok C s \<and> map fst (shape s) = [0..<length order] \<and> set order = {..<length order} \<and>
     length order \<le> length fs \<and> (order = [] \<longrightarrow> stmt_ok C s)"

lemma safe_register_order:
  assumes "\<And>m. m \<in> set fs \<Longrightarrow> good C ''Func'' m"
    and "\<And>order. safe_to (ordered C fs order) R (k order)"
  shows "safe_to (\<lambda>s. stmt_ok C s \<and> funcs s = new_func_tracker MAX_FUNCTIONS) R
     (seqM (register_contract_functions C fs) (bindM (order_functions C fs) k))"
  unfolding safe_to_def
proof (intro allI impI)
  fix s
  assume s: "stmt_ok C s \<and> funcs s = new_func_tracker MAX_FUNCTIONS"
  let ?d = "decimals (penv C)" and ?new = "new_func_tracker MAX_FUNCTIONS"
  have "\<forall>f \<in> set (ft_functions ?new). func_ok ?d f \<and> f_inputs f = []" by (simp add: new_func_tracker_def)
  from register_functions_returns [OF assms(1) this] obtain ft where ft: "register_functions ?d fs ?new = Inr ft"
    and ok: "\<forall>f \<in> set (ft_functions ft). func_ok ?d f \<and> f_inputs f = []" by blast
  have wf: "ft_wf ft" by (rule register_functions_wf [OF ft_wf_new ft])
  have len: "length (ft_functions ft) \<le> length fs" "length (ft_functions ft) \<le> MAX_FUNCTIONS"
    using register_functions_length [OF ft] by (simp_all add: new_func_tracker_def)
  have fs: "\<forall>m \<in> set fs. conforms ?d m \<and> mtype m = ''Func''" using assms(1) by (simp add: good_def)
  have reg: "register_contract_functions C fs s = Inr ((), s\<lparr>funcs := ft\<rparr>)"
    using s ft by (simp add: register_contract_functions_def)
  from setup_order_returns [OF wf fs len(2)]
  show "case seqM (register_contract_functions C fs) (bindM (order_functions C fs) k) s of
      Inl e \<Rightarrow> expected_error e | Inr (x, t) \<Rightarrow> R t"
  proof
    assume "setup_order MAX_FUNCTIONS ?d ft fs = Inl (ValueError ''list.remove(x): x not in list'')"
    then show ?thesis by (simp add: bindM_def reg order_functions_def expected_error_def)
  next
    assume "\<exists>order tree. setup_order MAX_FUNCTIONS ?d ft fs = Inr (order, tree)"
    then obtain order tree where run: "setup_order MAX_FUNCTIONS ?d ft fs = Inr (order, tree)" by blast
    let ?t = "s\<lparr>funcs := ft, call_map := tree\<rparr>"
    note perm = setup_order_permutes [OF wf run]
    have "map fst (shape ?t) = [0..<length order]" using wf perm by (simp add: shape_def ft_wf_def comp_def)
    moreover have "\<not> is_constant s" by (rule stmt_okD) (rule conjunct1 [OF s])
    then have "idle_ok C ?t" using s ok
      by (simp add: state_ok_def inv_def view_of_def)
    moreover have "stmt_ok C ?t" if "order = []"
      using s ok that perm by (simp add: state_ok_def inv_def view_of_def stmt_view_def)
    ultimately have "ordered C fs order ?t" using perm len(1) by (simp add: ordered_def)
    then have "case k order ?t of Inl e \<Rightarrow> expected_error e | Inr (x, t) \<Rightarrow> R t"
      using assms(2) [of order] unfolding safe_to_def by blast
    moreover have "order_functions C fs (s\<lparr>funcs := ft\<rparr>) = Inr (order, ?t)" using run by (simp add: order_functions_def)
    ultimately show ?thesis using reg by (simp add: bindM_def)
  qed
qed

section \<open>The contract\<close>

lemma safe_functions_part:
  assumes "good C ''Contract'' m" and "3 * nesting m + 3 < depth"
  shows "safe_to (\<lambda>s. stmt_ok C s \<and> funcs s = new_func_tracker MAX_FUNCTIONS) (stmt_ok C)
     (visit_functions_part C (visit_block C depth) m)"
proof -
  have "kind_of C ''Contract'' ''functions'' = Some (KRep ''Func'')" by (rule schema)
  then obtain fs where fs: "rep C m ''functions'' = returnM fs"
    and "\<And>x. x \<in> set fs \<Longrightarrow> good C ''Func'' x \<and> nesting x < nesting m" using rep_returns [OF assms(1)] by metis
  then have good: "\<And>x. x \<in> set fs \<Longrightarrow> good C ''Func'' x"
    and deep: "\<And>x. x \<in> set fs \<Longrightarrow> good C ''Func'' x \<and> 3 * nesting x + 3 < depth" using assms(2) by fastforce+
  have "safe_to (ordered C fs order) (stmt_ok C) (bindM (convert_functions C (visit_block C depth) fs order) (\<lambda>nss.
      bindM (getM (\<lambda>s. ft_functions (funcs s))) (render_functions order nss)))" for order
  proof (cases "\<exists>s. ordered C fs order s")
    case False
    then show ?thesis by (simp add: safe_to_def)
  next
    case True
    then have order: "set order = {..<length order}" "length order \<le> length fs" by (auto simp: ordered_def)
    then have dist: "distinct order" by (simp add: card_distinct)
    have conv: "safe_to (ordered C fs order) (stmt_ok C) (convert_functions C (visit_block C depth) fs order)"
    proof (rule safe_to_weaken [OF safe_convert_functions [OF _ order(2) deep]])
      fix s
      assume "ordered C fs order s"
      moreover from this have "length (shape s) = length order"
        using map_eq_imp_length_eq [of fst "shape s" id] by (simp add: ordered_def)
      ultimately show "idle_ok C s \<and> length (shape s) = length order \<and> (order = [] \<longrightarrow> stmt_ok C s)"
        by (simp add: ordered_def)
    qed (use order(1) in auto)
    let ?S = "\<lambda>nss t. map fst (shape t) = [0..<length order] \<and> length nss = length order \<and>
      (\<forall>j < length order. snd (shape t ! (order ! j)) = length (nss ! j))"
    show ?thesis
    proof (rule safe_to_bind_post [OF conv])
      show "?S nss t" if "ordered C fs order s" and "convert_functions C (visit_block C depth) fs order s = Inr (nss, t)"
        for s nss t using convert_functions_shape [OF that(2) dist] that(1) by (simp add: ordered_def)
    next
      fix nss
      show "safe_to (\<lambda>t. stmt_ok C t \<and> ?S nss t) (stmt_ok C)
         (bindM (getM (\<lambda>s. ft_functions (funcs s))) (render_functions order nss))"
      proof (rule safe_to_get, elim conjE)
        fix s
        assume s: "stmt_ok C s" and ids: "map fst (shape s) = [0..<length order]" and nss: "length nss = length order"
          and names: "\<forall>j < length order. snd (shape s ! (order ! j)) = length (nss ! j)"
        have "safe (stmt_ok C) (render_functions order nss (ft_functions (funcs s)))"
        proof (rule safe_render)
          show "0 \<le> f_mutability f \<and> f_mutability f \<le> PAYABLE" if "f \<in> set (ft_functions (funcs s))" for f
            using s that by (simp add: state_ok_def inv_def func_ok_def)
          show "\<exists>nm. names_of order nss (f_id f) = Inr nm \<and> length nm = length (f_inputs f)"
            if "f \<in> set (ft_functions (funcs s))" for f
            by (rule names_of_position [OF order(1) nss ids that]) (use names in blast)
        qed
        then show "safe_to (\<lambda>t. stmt_ok C t \<and> ?S nss t) (stmt_ok C)
           (render_functions order nss (ft_functions (funcs s)))" by (rule safe_toI) simp_all
      qed
    qed
  qed
  then show ?thesis
    unfolding visit_functions_part_def fs bind_returnM by (intro safe_register_order good)
qed

text \<open>Steps that leave the functions alone.\<close>

lemma safe_to_funcs:
  assumes "safe P m" and "sf.keepsM m"
  shows "safe (\<lambda>s. P s \<and> funcs s = F) m"
proof (rule safeI)
  show "expected_error e" if "P s \<and> funcs s = F" and "m s = Inl e" for s e
    using safe_error [OF assms(1)] that by blast
  show "P t \<and> funcs t = F" if "P s \<and> funcs s = F" and "m s = Inr (x, t)" for s x t
    using safe_post [OF assms(1) _ that(2)] sf.keepsD [OF assms(2) that(2)] that(1) by (simp add: view_frame_def)
qed

lemma safe_init_part:
  assumes "good C ''Contract'' m" and "3 * nesting m + 3 < depth"
  shows "safe (stmt_ok C) (visit_init_part C (visit_block C depth) m)"
proof -
  have init: "safe (stmt_ok C) (visit_init C (visit_block C depth) x)"
    if "good C ''ContractInit'' x" "nesting x \<le> nesting m" for x
    by (rule blocks.safe_init [OF that(1)]) (use that(2) assms(2) in simp)
  show ?thesis
    unfolding visit_init_part_def
    by (rule safe_sub [OF assms(1)] safe_flag safe_bind_get safe_if safe_bind [OF init] safe_quiet_steps safe_return
        | rule schema | assumption)+
qed

lemma safe_default_part:
  assumes "good C ''Contract'' m" and "3 * nesting m + 3 < depth"
  shows "safe (stmt_ok C) (visit_default_part C (visit_block C depth) m)"
proof -
  have df: "safe (stmt_ok C) (visit_default_func C (visit_block C depth) x)"
    if "good C ''DefaultFunc'' x" "nesting x \<le> nesting m" for x
    by (rule blocks.safe_default [OF that(1)]) (use that(2) assms(2) in simp)
  have outs: "safe (stmt_ok C) (bindM (bindM (rep C x ''output_params'') (visit_output_parameters C)) (\<lambda>outs.
      seqM (set_output outs) (bindM (visit_default_func C (visit_block C depth) x) (\<lambda>acc. emit (acc @ newline)))))"
    if "good C ''DefaultFunc'' x" "nesting x \<le> nesting m" for x
    unfolding safe_iff_to
    by (rule safe_outputs [OF that(1)], rule schema, unfold safe_iff_to [symmetric])
      (rule safe_bind [OF safe_set_output safe_bind [OF df [OF that] safe_quiet_steps(2)]])
  show ?thesis
    unfolding visit_default_part_def
    by (rule safe_has [OF assms(1)] safe_if safe_sub [OF assms(1)] outs safe_return | rule schema | assumption)+
qed

theorem safe_contract:
  assumes "good C ''Contract'' m" and "3 * nesting m + 3 < depth"
  shows "safe_to (\<lambda>s. stmt_ok C s \<and> funcs s = new_func_tracker MAX_FUNCTIONS) (stmt_ok C) (visit C depth m)"
proof -
  let ?A = "\<lambda>s. stmt_ok C s \<and> funcs s = new_func_tracker MAX_FUNCTIONS"
  have "kind_of C ''Contract'' ''decls'' = Some (KRep ''VarDecl'')" by (rule schema)
  then obtain ds where ds: "rep C m ''decls'' = returnM ds"
    and "\<And>x. x \<in> set ds \<Longrightarrow> good C ''VarDecl'' x \<and> nesting x < nesting m" using rep_returns [OF assms(1)] by metis
  then have "\<And>x. x \<in> set ds \<Longrightarrow> good C ''VarDecl'' x \<and> deep depth x"
    using assms(2) by (fastforce simp: deep_def)
  then have decls: "safe ?A (visit_decls C (visit_expr C depth) 0 ds)"
    by (intro safe_to_funcs visits.safe_decls sf.keeps_decls)
  have nl: "safe ?A (if r \<noteq> '''' then emit newline else returnM ())" for r :: string
    by (rule safe_to_funcs [OF safe_if [OF safe_quiet_steps(2) safe_return]], rule sf.keepsI)
      (auto simp: emit_def view_frame_def split: if_splits)
  have init: "safe ?A (visit_init_part C (visit_block C depth) m)"
    by (rule safe_to_funcs [OF safe_init_part [OF assms] sf_init_part])
  show ?thesis
    unfolding visit_def ds bind_returnM
    by (rule safe_to_bind [OF safe_same [OF decls]], rule safe_to_get,
        rule safe_to_bind [OF safe_same [OF nl]], rule safe_to_bind [OF safe_same [OF init]],
        rule safe_to_bind [OF safe_functions_part [OF assms] safe_same [OF safe_default_part [OF assms]]])
qed

lemma init_state_ok: "stmt_ok C (init_state r) \<and> funcs (init_state r) = new_func_tracker MAX_FUNCTIONS"
  by (simp add: init_state_def state_ok_def inv_def view_of_def stmt_view_def tracker_ok_new
      new_func_tracker_def PAYABLE_def)

lemma convert_errors:
  assumes "mtype m = ''Contract''" and "conforms (decimals (penv C)) m" and "3 * nesting m + 3 < depth"
    and "convert_contract C depth r m = Inl e"
  shows "expected_error e"
proof -
  have "good C ''Contract'' m" using assms(1,2) by (simp add: good_def)
  note visit = safe_contract [OF this assms(3)]
  have "visit C depth m (init_state r) = Inl e"
    using assms(4) by (auto simp: convert_contract_def bindR_def split: sum.splits)
  then show ?thesis using safe_to_error [OF visit init_state_ok] by blast
qed

end
