(* ===== verification/Conv_Depth.thy ===== *)
theory Conv_Depth imports Conv_Contract begin

text \<open>
  The depth of the stack only bounds the recursion: a deeper stack changes no result but
  \<open>RecursionError\<close>. The rules follow the two runs through the monad in step.
\<close>

section \<open>Runs in step\<close>

definition deeper :: "('s, 'a) stm \<Rightarrow> ('s, 'a) stm \<Rightarrow> bool" where
  "deeper m m' \<longleftrightarrow> (\<forall>s. m s \<noteq> Inl RecursionError \<longrightarrow> m' s = m s)"

named_theorems deeper_rules "what the deeper run keeps"

lemma deeperD: "deeper m m' \<Longrightarrow> m s \<noteq> Inl RecursionError \<Longrightarrow> m' s = m s"
  by (simp add: deeper_def)

lemma deeper_refl: "deeper m m"
  by (simp add: deeper_def)

lemma deeper_bind [deeper_rules]:
  assumes "deeper m m'" and "\<And>x. deeper (k x) (k' x)"
  shows "deeper (bindM m k) (bindM m' k')"
  unfolding deeper_def
proof (intro allI impI)
  fix s
  assume ne: "bindM m k s \<noteq> Inl RecursionError"
  show "bindM m' k' s = bindM m k s"
  proof (cases "m s")
    case (Inl e)
    then have "m' s = Inl e" using deeperD [OF assms(1), of s] ne by (auto simp: bindM_def)
    then show ?thesis using Inl by (simp add: bindM_def)
  next
    case (Inr p)
    obtain x t where p: "p = (x, t)" by (cases p)
    have "m' s = Inr (x, t)" using deeperD [OF assms(1), of s] Inr p by simp
    moreover have "k' x t = k x t" by (rule deeperD [OF assms(2)]) (use ne Inr p in \<open>simp add: bindM_def\<close>)
    ultimately show ?thesis using Inr p by (simp add: bindM_def)
  qed
qed

lemma deeper_if [deeper_rules]:
  "(b \<Longrightarrow> deeper m m') \<Longrightarrow> (\<not> b \<Longrightarrow> deeper n n') \<Longrightarrow> deeper (if b then m else n) (if b then m' else n')"
  by simp

lemma deeper_option [deeper_rules]:
  "deeper n n' \<Longrightarrow> (\<And>x. deeper (f x) (f' x)) \<Longrightarrow>
     deeper (case z of None \<Rightarrow> n | Some x \<Rightarrow> f x) (case z of None \<Rightarrow> n' | Some x \<Rightarrow> f' x)"
  by (simp split: option.split)

lemma deeper_prod [deeper_rules]:
  "(\<And>a b. deeper (f a b) (f' a b)) \<Longrightarrow> deeper (case p of (a, b) \<Rightarrow> f a b) (case p of (a, b) \<Rightarrow> f' a b)"
  by (simp split: prod.split)

lemma deeper_with [deeper_rules]:
  "deeper m m' \<Longrightarrow> deeper (with_type t m) (with_type t m')"
  "deeper m m' \<Longrightarrow> deeper (with_op opr m) (with_op opr m')"
  unfolding with_type_def with_op_def by (rule deeper_refl | rule deeper_rules | assumption)+

lemma deeper_when [deeper_rules]:
  "deeper k k' \<Longrightarrow> deeper (when_has C m f k) (when_has C m f k')"
  "deeper k k' \<Longrightarrow> deeper (when_variable C m f k) (when_variable C m f k')"
  "deeper k2 k2' \<Longrightarrow> deeper (when_has_option C m f k2) (when_has_option C m f k2')"
  unfolding when_has_def when_variable_def when_has_option_def
  by (rule deeper_refl | rule deeper_rules | assumption)+

lemma deeper_or_else [deeper_rules]: "deeper m m' \<Longrightarrow> deeper k k' \<Longrightarrow> deeper (or_else m k) (or_else m' k')"
  unfolding or_else_def by (rule deeper_refl | rule deeper_rules | assumption)+

lemma deeper_first_of [deeper_rules]:
  "deeper m m' \<Longrightarrow> deeper (first_of ms) (first_of ms') \<Longrightarrow> deeper (first_of (m # ms)) (first_of (m' # ms'))"
  unfolding first_of.simps by (rule deeper_refl | rule deeper_rules | assumption)+

section \<open>Expressions\<close>

locale deeper_visitor =
  fixes v w :: visitor
  assumes deeper_visit [deeper_rules]: "deeper (v h m) (w h m)"
begin

lemma deeper_typed [deeper_rules]: "deeper (visit_typed_expression C v e t) (visit_typed_expression C w e t)"
  unfolding visit_typed_expression_def by (rule deeper_refl | rule deeper_rules)+

lemma deeper_conversion_of [deeper_rules]: "deeper (conversion_of C v m t u b) (conversion_of C w m t u b)"
  unfolding conversion_of_def by (rule deeper_refl | rule deeper_rules)+

lemma deeper_conversions [deeper_rules]:
  "deeper (convert_int_field C v m t) (convert_int_field C w m t)"
  "deeper (convert_field C v m f t u ok) (convert_field C w m f t u ok)"
  "deeper (convert_bytesm_field C v m t) (convert_bytesm_field C w m t)"
  unfolding convert_int_field_def convert_field_def convert_bytesm_field_def
  by (rule deeper_refl | rule deeper_rules)+

lemma deeper_convert_decimal [deeper_rules]: "deeper (convert_decimal_field C v m t) (convert_decimal_field C w m t)"
  unfolding convert_decimal_field_def
  by (rule deeper_if [OF deeper_bind [OF deeper_refl] deeper_refl], cases t)
    (simp_all only: vy_type.case, (rule deeper_refl | rule deeper_rules)+)

lemma deeper_conversion [deeper_rules]:
  "deeper (visit_conversion C v m t) (visit_conversion C w m t)"
  "deeper (convert_or_literal C v m) (convert_or_literal C w m)"
  unfolding visit_conversion_def convert_or_literal_def by (rule deeper_refl | rule deeper_rules)+

lemma deeper_args [deeper_rules]:
  "deeper (optional_arg C v m f t h k acc) (optional_arg C w m f t h k acc)"
  "deeper (blueprint_raw_args C v m acc) (blueprint_raw_args C w m acc)"
  "deeper (raw_call_arg C v m f) (raw_call_arg C w m f)"
  unfolding optional_arg_def blueprint_raw_args_def raw_call_arg_def by (rule deeper_refl | rule deeper_rules)+

lemma deeper_create [deeper_rules]:
  "deeper (visit_create_min_proxy_or_copy_of C v m name) (visit_create_min_proxy_or_copy_of C w m name)"
  "deeper (visit_create_from_blueprint C v m) (visit_create_from_blueprint C w m)"
  unfolding visit_create_min_proxy_or_copy_of_def visit_create_from_blueprint_def
  by (rule deeper_refl | rule deeper_rules)+

lemma deeper_ecrecover [deeper_rules]: "deeper (visit_ecrecover C v m) (visit_ecrecover C w m)"
  unfolding visit_ecrecover_def ecrecover_bytes_def ec_part_def ec_int_def by (rule deeper_refl | rule deeper_rules)+

lemma deeper_raw_call [deeper_rules]: "deeper (visit_raw_call C v m k b) (visit_raw_call C w m k b)"
  unfolding visit_raw_call_def raw_call_outputs_def Let_def by (rule deeper_refl | rule deeper_rules)+

lemma deeper_calls [deeper_rules]:
  "deeper (visit_hash256 C v m name) (visit_hash256 C w m name)"
  "deeper (visit_ecadd C v m) (visit_ecadd C w m)"
  "deeper (visit_ecmul C v m) (visit_ecmul C w m)"
  unfolding visit_hash256_def visit_ecadd_def visit_ecmul_def by (rule deeper_refl | rule deeper_rules)+

lemma deeper_concat_rest [deeper_rules]:
  assumes "\<And>e j. deeper (p e j) (q e j)"
  shows "deeper (concat_rest C p lim es k acc) (concat_rest C q lim es k acc)"
proof (induction es arbitrary: k acc)
  case (Cons e es)
  show ?case unfolding concat_rest.simps by (rule deeper_refl | rule deeper_rules assms Cons.IH)+
qed (simp add: deeper_refl)

lemma deeper_concat [deeper_rules]:
  assumes "\<And>e j. deeper (p e j) (q e j)"
  shows "deeper (visit_concat C p m) (visit_concat C q m)"
  unfolding visit_concat_def Let_def by (rule deeper_refl | rule deeper_rules assms)+

lemma deeper_parts [deeper_rules]:
  "deeper (string_part C v m k) (string_part C w m k)" "deeper (bytes_part C v m k) (bytes_part C w m k)"
  unfolding string_part_def bytes_part_def Let_def by (rule deeper_refl | rule deeper_rules)+

lemma deeper_list_items [deeper_rules]:
  "deeper (list_items (v h) lim es k acc) (list_items (w h) lim es k acc)"
proof (induction es arbitrary: k acc)
  case (Cons e es)
  show ?case unfolding list_items.simps by (rule deeper_refl | rule deeper_rules Cons.IH)+
qed (simp add: deeper_refl)

lemma deeper_lists [deeper_rules]:
  "deeper (list_values C v m t b k) (list_values C w m t b k)"
  "deeper (curve_value C v m b k) (curve_value C w m b k)"
  unfolding list_values_def curve_value_def by (rule deeper_refl | rule deeper_rules)+

lemma deeper_operands [deeper_rules]: "deeper (operands C v h m) (operands C w h m)"
  unfolding operands_def by (rule deeper_refl | rule deeper_rules)+

lemma deeper_operators [deeper_rules]:
  "deeper (plain_bin_op C v h ops m) (plain_bin_op C w h ops m)"
  "deeper (comparison C v h t m) (comparison C w h t m)"
  "deeper (not_op C v m) (not_op C w m)" "deeper (int_bin_op C v t m) (int_bin_op C w t m)"
  "deeper (int_un_op C v t m) (int_un_op C w t m)" "deeper (decimal_un_op C v m) (decimal_un_op C w m)"
  "deeper (hash_value C v name t m) (hash_value C w name t m)"
  "deeper (bytes_raw_call C v t m) (bytes_raw_call C w t m)"
  unfolding plain_bin_op_def comparison_def not_op_def int_bin_op_def int_un_op_def decimal_un_op_def
    hash_value_def bytes_raw_call_def
  by (rule deeper_refl | rule deeper_rules)+

lemma deeper_scalars [deeper_rules]:
  "deeper (visit_int_expression C v m) (visit_int_expression C w m)"
  "deeper (visit_decimal_expression C v m) (visit_decimal_expression C w m)"
  "deeper (visit_bytes_m_expression C v m) (visit_bytes_m_expression C w m)"
  "deeper (visit_bytes_expression C v m) (visit_bytes_expression C w m)"
  "deeper (visit_string_expression C v m) (visit_string_expression C w m)"
  "deeper (visit_bool_expression C v m) (visit_bool_expression C w m)"
  "deeper (visit_address_expression C v m) (visit_address_expression C w m)"
  "deeper (visit_list_expression C v m) (visit_list_expression C w m)"
  unfolding visit_int_expression_def visit_decimal_expression_def visit_bytes_m_expression_def
    visit_bytes_expression_def visit_string_expression_def visit_bool_expression_def
    visit_address_expression_def visit_list_expression_def
  by (rule deeper_refl | rule deeper_rules)+

lemma deeper_handler: "deeper (visit_handler C v h m) (visit_handler C w h m)"
  unfolding visit_handler_def by (cases h) (simp_all add: deeper_scalars)

end

lemma deeper_visit_expr: "depth \<le> depth' \<Longrightarrow> deeper (visit_expr C depth h m) (visit_expr C depth' h m)"
proof (induction depth arbitrary: depth' h m)
  case 0
  show ?case by (simp add: deeper_def)
next
  case (Suc depth)
  then obtain d where d: "depth' = Suc d" "depth \<le> d" by (cases depth') auto
  have "deeper_visitor (visit_expr C depth) (visit_expr C d)" by unfold_locales (rule Suc.IH [OF d(2)])
  from deeper_visitor.deeper_handler [OF this] show ?case by (simp add: d(1))
qed

section \<open>Statements and blocks\<close>

locale deeper_blocks = deeper_visitor +
  fixes blk blk' :: block_visitor
  assumes deeper_block [deeper_rules]: "deeper (blk m) (blk' m)"
begin

lemma deeper_declarations [deeper_rules]:
  "deeper (var_decl C v e t) (var_decl C w e t)"
  "deeper (visit_var_decl C v m) (visit_var_decl C w m)"
  "deeper (visit_assignment C v m) (visit_assignment C w m)"
  unfolding visit_assignment_def visit_var_decl_def var_decl_def Let_def by (rule deeper_refl | rule deeper_rules)+

lemma deeper_for [deeper_rules]: "deeper (visit_for_stmt C blk m) (visit_for_stmt C blk' m)"
  unfolding visit_for_stmt_def by (rule deeper_refl | rule deeper_rules)+

lemma deeper_scoped [deeper_rules]: "deeper (scoped_block blk m) (scoped_block blk' m)"
  unfolding scoped_block_def by (rule deeper_refl | rule deeper_rules)+

lemma deeper_cases [deeper_rules]: "deeper (visit_cases C v blk b ms acc) (visit_cases C w blk' b ms acc)"
proof (induction ms arbitrary: b acc)
  case (Cons m ms)
  show ?case unfolding visit_cases.simps by (rule deeper_refl | rule deeper_rules Cons.IH)+
qed (simp add: deeper_refl)

lemma deeper_if_stmt [deeper_rules]: "deeper (visit_if_stmt C v blk m) (visit_if_stmt C w blk' m)"
  unfolding visit_if_stmt_def visit_if_cases_def visit_else_case_def by (rule deeper_refl | rule deeper_rules)+

lemma deeper_statements [deeper_rules]:
  "deeper (visit_selfd C v m) (visit_selfd C w m)"
  "deeper (visit_raise_statement C v m) (visit_raise_statement C w m)"
  "deeper (visit_raw_revert C v m) (visit_raw_revert C w m)"
  "deeper (visit_raw_log C v m) (visit_raw_log C w m)"
  "deeper (visit_assert_stmt C v m) (visit_assert_stmt C w m)"
  "deeper (visit_send_stmt C v m) (visit_send_stmt C w m)"
  "deeper (visit_append_stmt C v m) (visit_append_stmt C w m)"
  unfolding visit_selfd_def visit_raise_statement_def visit_raw_revert_def visit_raw_log_def
    visit_assert_stmt_def visit_send_stmt_def visit_append_stmt_def Let_def
  by (rule deeper_refl | rule deeper_rules)+

lemma deeper_payloads [deeper_rules]: "deeper (visit_payloads C v m ps) (visit_payloads C w m ps)"
proof (induction ps)
  case (Cons p ps)
  obtain t a where p: "p = (t, a)" by (cases p)
  show ?case unfolding p visit_payloads.simps by (rule deeper_refl | rule deeper_rules Cons.IH)+
qed (simp add: deeper_refl)

lemma deeper_call [deeper_rules]: "deeper (statement_call C v m) (statement_call C w m)"
  unfolding statement_call_def visit_func_call_def by (rule deeper_refl | rule deeper_rules)+

lemma deeper_statement [deeper_rules]: "deeper (visit_statement C v blk m) (visit_statement C w blk' m)"
  unfolding visit_statement_def by (rule deeper_refl | rule deeper_rules)+

lemma deeper_statement_list [deeper_rules]: "deeper (visit_statements C v blk ms acc) (visit_statements C w blk' ms acc)"
proof (induction ms arbitrary: acc)
  case (Cons m ms)
  show ?case unfolding visit_statements.simps by (rule deeper_refl | rule deeper_rules Cons.IH)+
qed (simp add: deeper_refl)

lemma deeper_block_body: "deeper (block_body C v blk m) (block_body C w blk' m)"
  unfolding block_body_def visit_exit_statement_def visit_return_payload_def by (rule deeper_refl | rule deeper_rules)+

end

lemma deeper_visit_block: "depth \<le> depth' \<Longrightarrow> deeper (visit_block C depth m) (visit_block C depth' m)"
proof (induction depth arbitrary: depth' m)
  case 0
  show ?case by (simp add: deeper_def)
next
  case (Suc depth)
  then obtain d where d: "depth' = Suc d" "depth \<le> d" by (cases depth') auto
  have "deeper_blocks (visit_expr C depth) (visit_expr C d) (visit_block C depth) (visit_block C d)"
    by unfold_locales (rule deeper_visit_expr [OF d(2)], rule Suc.IH [OF d(2)])
  from deeper_blocks.deeper_block_body [OF this] show ?case by (simp add: d(1))
qed

section \<open>The contract\<close>

lemma deeper_function_body [deeper_rules]: "deeper m m' \<Longrightarrow> deeper (function_body m) (function_body m')"
  unfolding function_body_def by (rule deeper_refl | rule deeper_rules | assumption)+

context deeper_blocks begin

lemma deeper_decls [deeper_rules]: "deeper (visit_decls C v i ms) (visit_decls C w i ms)"
proof (induction ms arbitrary: i)
  case (Cons m ms)
  show ?case
    unfolding visit_decls.simps var_decl_global_def by (rule deeper_refl | rule deeper_rules Cons.IH)+
qed (simp add: deeper_refl)

lemma deeper_convert_function [deeper_rules]: "deeper (convert_function C blk fs i) (convert_function C blk' fs i)"
  unfolding convert_function_def visit_func_def Let_def by (rule deeper_refl | rule deeper_rules)+

lemma deeper_convert_functions [deeper_rules]: "deeper (convert_functions C blk fs is) (convert_functions C blk' fs is)"
proof (induction "is")
  case (Cons i "is")
  show ?case unfolding convert_functions.simps by (rule deeper_refl | rule deeper_rules Cons.IH)+
qed (simp add: deeper_refl)

lemma deeper_contract_parts [deeper_rules]:
  "deeper (visit_init_part C blk m) (visit_init_part C blk' m)"
  "deeper (visit_functions_part C blk m) (visit_functions_part C blk' m)"
  "deeper (visit_default_part C blk m) (visit_default_part C blk' m)"
  unfolding visit_init_part_def visit_init_def visit_functions_part_def visit_default_part_def visit_default_func_def
  by (rule deeper_refl | rule deeper_rules)+

end

interpretation deeper_at: deeper_blocks "visit_expr C depth" "visit_expr C (depth + k)" "visit_block C depth"
  "visit_block C (depth + k)" for C depth k
  by unfold_locales (simp_all add: deeper_visit_expr deeper_visit_block)

lemma deeper_visit: "deeper (visit C depth m) (visit C (depth + k) m)"
  unfolding visit_def
  by (rule deeper_refl | rule deeper_bind deeper_at.deeper_decls deeper_at.deeper_contract_parts)+

lemma deeper_convert:
  assumes "convert_contract C depth r m \<noteq> Inl RecursionError" and "depth \<le> depth'"
  shows "convert_contract C depth' r m = convert_contract C depth r m"
proof -
  have "visit C depth m (init_state r) \<noteq> Inl RecursionError" using assms(1) by (auto simp: convert_contract_def)
  then have "visit C (depth + (depth' - depth)) m (init_state r) = visit C depth m (init_state r)"
    by (rule deeperD [OF deeper_visit])
  then show ?thesis using assms(2) by (simp add: convert_contract_def)
qed

end
