(* ===== verification/Safety_Claims.thy ===== *)
theory Safety_Claims imports Conv_Total Conv_Depth Generator_Claims begin

text \<open>
  What a conversion and a generator can end in: on a message that conforms to the protocol file and
  with a stack that is deep enough for it, a source that is published, or one of six errors that the
  code is known to raise.
\<close>

section \<open>Conversions\<close>

text \<open>
  Claim C2. A contract that conforms to the protocol file is converted to the end: with three frames for
  each level of its nesting, the conversion returns a source and the reported inputs, or raises one of
  the six errors below. So there is no exhausted stack, no unknown key, attribute or index and no type
  whose size is out of range, whatever the message, the random draws and the class of the converter.
\<close>

theorem conversion_ends:
  assumes "mtype contract = ''Contract''" and "conforms (decimals (penv C)) contract"
    and "3 * nesting contract + 3 < depth"
  shows "(\<exists>source fis. convert_contract C depth r contract = Inr (source, fis)) \<or>
    (\<exists>e. e \<in> {ValueError ''ecadd'', ValueError ''list.remove(x): x not in list'', TypeError ''<'',
        TypeError ''>'', TypeError ''%'', OverflowError} \<and> convert_contract C depth r contract = Inl e)"
  using convert_errors [OF assms]
  by (cases "convert_contract C depth r contract") (auto simp: expected_error_def)

text \<open>A loop with an assignment in it; the blocks nest twice.\<close>

definition nested_contract :: msg where
  "nested_contract = sample_contract [loop_over (block_of [int_assign (int_bin 0 (int_lit 1) int_var)])]"

lemma nested_contract_facts:
  "mtype nested_contract = ''Contract''" "conforms True nested_contract" "nesting nested_contract = 12"
  by (simp add: nested_contract_def sample_contract_def, code_simp, code_simp)

theorem conversion_ends_witness:
  "(\<exists>source fis. convert_contract sample_env 40 [3, 1, 4] nested_contract = Inr (source, fis)) \<or>
    (\<exists>e. e \<in> {ValueError ''ecadd'', ValueError ''list.remove(x): x not in list'', TypeError ''<'',
        TypeError ''>'', TypeError ''%'', OverflowError} \<and>
      convert_contract sample_env 40 [3, 1, 4] nested_contract = Inl e)"
  by (rule conversion_ends) (simp_all add: nested_contract_facts sample_env_def sample_penv_def)

text \<open>
  The stack only bounds a conversion: when it does not run out of frames, a deeper stack gives
  the same source, the same reported inputs, or the same error.
\<close>

theorem deeper_stack_same_result:
  assumes "convert_contract C depth r contract \<noteq> Inl RecursionError" and "depth \<le> depth'"
  shows "convert_contract C depth' r contract = convert_contract C depth r contract"
  by (rule deeper_convert [OF assms])

theorem deeper_stack_same_result_witness:
  "\<exists>source. convert_contract sample_env 1000 [] init_contract = Inr (source, [(''__init__'', [IntT 256 False])])"
proof -
  obtain source where run: "convert_contract sample_env (Suc (Suc (Suc 0))) [] init_contract =
     Inr (source, [(''__init__'', [IntT 256 False])])" using run_init by blast
  then have "convert_contract sample_env (Suc (Suc (Suc 0))) [] init_contract \<noteq> Inl RecursionError" by simp
  from deeper_stack_same_result [OF this, of 1000] run show ?thesis by simp
qed

section \<open>The errors of the input generator\<close>

text \<open>Only a random decimal that does not fit into a float can fail.\<close>

lemma scalar_input_error:
  assumes "scalar_typed True t" and "scalar_input st E t r = Inl e"
  shows "e = OverflowError"
proof (cases "t = Decimal \<and> st = DEFAULT")
  case True
  then show ?thesis using assms(2)
    by (auto simp: scalar_input_def strategy_gens_def default_gen_def convert_gen_output_def decimal_random_def
        Let_def split_beta split: option.splits pyval.splits)
next
  case False
  then show ?thesis using assms
    by (cases st; cases t)
      (auto simp: scalar_input_def strategy_gens_def default_gen_def zero_gen_def convert_gen_output_def
        bytesM_random_def split_beta Let_def fromhex_bytes_hex zero_hex)
qed

lemma repeated_value_error: "gen_list g k r = Inl e \<Longrightarrow> \<exists>r. g r = Inl e"
  by (induction k arbitrary: r) (auto simp: bindR_def split: sum.splits)

lemma list_value_scalar: "scalar_typed True t \<Longrightarrow> list_value g t r = g t r"
  by (cases t) simp_all

lemma list_value_error:
  assumes "typed True t" and "list_value g t r = Inl e"
  shows "\<exists>u r. scalar_typed True u \<and> g u r = Inl e"
proof (cases "scalar_typed True t")
  case True
  then show ?thesis using assms(2) list_value_scalar by metis
next
  case False
  show ?thesis using assms
  proof (induction t arbitrary: r)
    case (FixedList k b)
    then obtain r' where "list_value g b r' = Inl e"
      using repeated_value_error [of "list_value g b" k r e] by (auto simp: bindR_def split: sum.splits)
    then show ?case using FixedList.IH typed_list_elem(2) FixedList.prems(1) by blast
  next
    case (DynArray k b cur)
    then obtain r' where "list_value g b r' = Inl e"
      using repeated_value_error [of "list_value g b" k r e] by (auto simp: bindR_def split: sum.splits)
    then show ?case using DynArray.IH typed_list_elem(1) DynArray.prems(1) by blast
  qed (simp only: typed.simps list_value.simps, blast)+
qed

lemma input_value_error: "declarable t \<Longrightarrow> input_value st E t r = Inl e \<Longrightarrow> e = OverflowError"
  unfolding input_value_def
  using list_value_error declarable_typed [of t True] scalar_input_error by blast

lemma generate_inputs_error:
  "\<forall>t \<in> set ts. declarable t \<Longrightarrow> generate_inputs st E ts r = Inl e \<Longrightarrow> e = OverflowError"
proof (induction ts arbitrary: r)
  case (Cons t ts)
  then show ?case
    using input_value_error [of t st E r e]
    by (cases "input_value st E t r") (auto split: sum.splits simp: bindR_def)
qed simp

lemma strategy_inputs_error:
  "\<forall>t \<in> set types. declarable t \<Longrightarrow> strategy_inputs E name types sts ins r = Inl e \<Longrightarrow> e = OverflowError"
proof (induction sts arbitrary: ins r)
  case (Cons st sts)
  then show ?case
    using generate_inputs_error [of types st E r e]
    by (cases "generate_inputs st E types r") (auto simp: bindR_def)
qed simp

lemma function_input_values_error:
  "inputs_ok fis \<Longrightarrow> function_input_values E sts fis ins r = Inl e \<Longrightarrow> e = OverflowError"
proof (induction fis arbitrary: ins r)
  case (Cons f fis)
  obtain name types where f: "f = (name, types)" by (cases f)
  have "\<forall>t \<in> set types. declarable t" "inputs_ok fis" using Cons.prems(1) f by (simp_all add: inputs_ok_def)
  then show ?case
    using Cons f strategy_inputs_error [of types E name sts ins r e]
    by (cases "strategy_inputs E name types sts ins r") (auto simp: bindR_def)
qed simp

section \<open>Generators\<close>

text \<open>
  Claim C5. A generator handles every conforming message to the end: it publishes the contract to every
  queue and creates its entry, or it ends with one of the six errors and nothing has left it.
\<close>

theorem generator_ends:
  assumes "mtype contract = ''Contract''" and "conforms (decimals (gn_env G)) contract"
    and "3 * nesting contract + 3 < stack_depth G"
  shows "(\<exists>es entry m. test_one_input G cls i r r' contract = (es, Inr ()) \<and>
      es = LogCompilation i entry # map (\<lambda>q. Publish (snd q) m) (gn_queues G) @ [InsertEntry i]) \<or>
    (\<exists>es e. test_one_input G cls i r r' contract = (es, Inl e) \<and> \<not> publishes es \<and>
      e \<in> {ValueError ''ecadd'', ValueError ''list.remove(x): x not in list'', TypeError ''<'',
        TypeError ''>'', TypeError ''%'', OverflowError})"
proof -
  let ?C = "\<lparr>penv = gn_env G, conv_class = cls\<rparr>"
  have C: "conforms (decimals (penv ?C)) contract" using assms(2) by simp
  show ?thesis
  proof (cases "convert_contract ?C (stack_depth G) r contract")
    case (Inl e)
    have "expected_error e" by (rule convert_errors [OF assms(1) C assms(3) Inl])
    then show ?thesis using Inl by (simp add: test_one_input_def generate_source_def expected_error_def)
  next
    case (Inr p)
    obtain source fis where p: "p = (source, fis)" by (cases p)
    note conv = Inr [unfolded p]
    have run: "test_one_input G cls i r r' contract =
        log_and_publish G i [(''generation_result'', source)] source fis r' contract"
      using conv by (simp add: test_one_input_def generate_source_def)
    obtain es res where out: "log_and_publish G i [(''generation_result'', source)] source fis r' contract = (es, res)"
      by (cases "log_and_publish G i [(''generation_result'', source)] source fis r' contract")
    show ?thesis
    proof (cases res)
      case Inr': (Inr u)
      have sent: "log_and_publish G i [(''generation_result'', source)] source fis r' contract = (es, Inr ())"
        using out Inr' by simp
      from log_and_publish_effects [OF sent] show ?thesis
        using run sent by (auto simp: publish_multi_def)
    next
      case Inl': (Inl e)
      have "generate_inputs_json G fis r' = Inl e"
        using out Inl' by (cases "generate_inputs_json G fis r'")
          (auto simp: log_and_publish_def Let_def split_beta liftE_def tell_def)
      then have "function_input_values (gn_env G) (gn_strategies G) fis [] r' = Inl e"
        by (auto simp: generate_inputs_json_def bindR_def split: sum.splits)
      then have "e = OverflowError"
        by (rule function_input_values_error [OF convert_contract_inputs [OF conv assms(1) C]])
      then show ?thesis using run out Inl' log_and_publish_raise [OF out [unfolded Inl']] by simp
    qed
  qed
qed

definition deep_generator :: generator where
  "deep_generator = sample_generator\<lparr>stack_depth := 40\<rparr>"

theorem generator_ends_witness:
  "(\<exists>es entry m. test_one_input deep_generator NaginiConverter ''0'' [3, 1] [7] nested_contract = (es, Inr ()) \<and>
      es = LogCompilation ''0'' entry # map (\<lambda>q. Publish (snd q) m) (gn_queues deep_generator) @ [InsertEntry ''0'']) \<or>
    (\<exists>es e. test_one_input deep_generator NaginiConverter ''0'' [3, 1] [7] nested_contract = (es, Inl e) \<and>
      \<not> publishes es \<and>
      e \<in> {ValueError ''ecadd'', ValueError ''list.remove(x): x not in list'', TypeError ''<'',
        TypeError ''>'', TypeError ''%'', OverflowError})"
  by (rule generator_ends)
    (simp_all add: nested_contract_facts deep_generator_def sample_generator_def sample_penv_def)

end
