(* ===== verification/Redelivery_Claims.thy ===== *)
theory Redelivery_Claims imports Redelivery Service_Claims begin

text \<open>
  What holds when services stop in the middle of their work and messages are delivered again.
\<close>

text \<open>
  Claim C8. Crashes lose no result: with a queue for each compiler and runners that take longer than
  the generator needs for the entry, every entry has the results of all compilers as soon as the queues
  are empty, wherever generators, runners and the verifier stopped on the way. A runner acknowledges
  a message only after it stored the result.
\<close>

theorem crashes_lose_nothing:
  assumes "topology_of conf = Inr T" and "inj_on (queue_of conf) (set (cf_compilers conf))"
    and "(slow_faulty_step T)\<^sup>*\<^sup>* initial_world w" and "queued w = []" and "d \<in> set (run_docs w)"
  shows "ready_to_handle (target_fields (compilers T)) (doc_results d)"
  using drained_complete [OF assms(3) separate_topology [OF assms(1,2)] assms(4,5)] .

text \<open>The runner of \<^verbatim>\<open>adder\<close> stops before it acknowledges its first message.\<close>

definition crashed_runner :: "topology \<Rightarrow> world" where
  "crashed_runner T =
     stopped_after 2 (callback_writes (broker ''localhost'' 5672) ''adder'' (gen_id 0) [])
       (insert_entry 0 (publish_all T initial_world))"

definition restarted_run :: "topology \<Rightarrow> world" where
  "restarted_run T =
     store_result (broker ''localhost'' 5673) ''nagini'' (gen_id 0) []
       (store_result (broker ''localhost'' 5672) ''adder'' (gen_id 0) [] (crashed_runner T))"

lemmas run_restarted =
  crashed_runner_def restarted_run_def stopped_after_def callback_writes_def note_compiled_def save_result_def
  store_result_def insert_entry_def publish_all_def initial_world_def broker_def

lemma config_diff_restarted:
  obtains T where "topology_of config_diff = Inr T" and "compilers T = [''adder'', ''nagini'']"
    and "(slow_faulty_step T)\<^sup>*\<^sup>* initial_world (crashed_runner T)"
    and "(slow_faulty_step T)\<^sup>*\<^sup>* initial_world (restarted_run T)"
    and "queued (restarted_run T) = []" and "map doc_id (run_docs (restarted_run T)) = [0]"
proof -
  let ?q = "broker ''localhost'' 5672" and ?q' = "broker ''localhost'' 5673"
  obtain T where T: "topology_of config_diff = Inr T" "compilers T = [''adder'', ''nagini'']"
    "published T = [?q, ?q']" "reads T ''adder'' = Some ?q" "reads T ''nagini'' = Some ?q'"
    by (simp add: config_run config_diff_def broker_def)
  let ?w0 = "publish_all T initial_world"
  let ?w1 = "insert_entry 0 ?w0"
  let ?w3 = "store_result ?q ''adder'' (gen_id 0) [] (crashed_runner T)"
  have "slow_faulty_step T initial_world ?w0"
    unfolding slow_faulty_step_def by (rule disjI1, rule slow_step.publish) (simp add: initial_world_def)
  moreover have "slow_faulty_step T ?w0 ?w1"
    unfolding slow_faulty_step_def
    by (rule disjI1, rule slow_step.entry) (simp add: publish_all_def initial_world_def)
  moreover have "slow_faulty_step T ?w1 (crashed_runner T)"
    unfolding slow_faulty_step_def crashed_runner_def
    by (rule disjI2, rule crash.runner [OF T(4)]) (simp_all add: run_restarted T(3))
  ultimately have crashed: "(slow_faulty_step T)\<^sup>*\<^sup>* initial_world (crashed_runner T)"
    by (meson converse_rtranclp_into_rtranclp rtranclp.rtrancl_refl)
  have "slow_faulty_step T (crashed_runner T) ?w3"
    unfolding slow_faulty_step_def
    by (rule disjI1, rule slow_step.run [OF T(4)]) (simp_all add: run_restarted T(3))
  moreover have "slow_faulty_step T ?w3 (restarted_run T)"
    unfolding slow_faulty_step_def restarted_run_def
    by (rule disjI1, rule slow_step.run [OF T(5)]) (simp_all add: run_restarted T(3))
  ultimately have "(slow_faulty_step T)\<^sup>*\<^sup>* initial_world (restarted_run T)"
    using crashed by (meson rtranclp.rtrancl_into_rtrancl)
  with T(1,2) crashed show thesis by (rule that) (simp_all add: run_restarted set_result_def T(3))
qed

theorem crashes_lose_nothing_witness:
  "\<exists>T d. topology_of config_diff = Inr T \<and> d \<in> set (run_docs (restarted_run T)) \<and> doc_id d = 0 \<and>
     ready_to_handle (target_fields [''adder'', ''nagini'']) (doc_results d)"
proof -
  obtain T where T: "topology_of config_diff = Inr T" "compilers T = [''adder'', ''nagini'']"
    "(slow_faulty_step T)\<^sup>*\<^sup>* initial_world (restarted_run T)" "queued (restarted_run T) = []"
    "map doc_id (run_docs (restarted_run T)) = [0]" by (rule config_diff_restarted)
  have "inj_on (queue_of config_diff) (set (cf_compilers config_diff))"
    by (simp add: config_diff_def queue_of_def activate_def)
  from crashes_lose_nothing [OF T(1) this T(3,4)] T(1,2,5) show ?thesis by fastforce
qed

text \<open>
  Claim C24. In every interleaving of the services, and wherever they stop, the collections stay
  consistent: each generation has at most one entry, under its own id and a number that was given out,
  and an entry that is marked as handled has the results of all compilers and a report. The verifier
  reads, reports and marks in separate steps, with those of generators and runners in between.
\<close>

theorem crashes_keep_collections:
  assumes "(faulty_step T)\<^sup>*\<^sup>* initial_world w"
  shows "distinct (map doc_id (run_docs w)) \<and>
    (\<forall>d \<in> set (run_docs w). generation_id d = gen_id (doc_id d) \<and> doc_id d < next_gen w \<and>
      (is_handled d = Some True \<longrightarrow> ready_to_handle (target_fields (compilers T)) (doc_results d) \<and>
        generation_id d \<in> fst ` set (reports w)))"
  using faulty_run_ok [OF assms] by (auto simp: entries_ok_def handled_ready_def settled_def)

theorem crashes_keep_collections_witness:
  "\<exists>T. topology_of config_diff = Inr T \<and> distinct (map doc_id (run_docs (crashed_runner T)))"
proof -
  obtain T where T: "topology_of config_diff = Inr T" "(slow_faulty_step T)\<^sup>*\<^sup>* initial_world (crashed_runner T)"
    by (rule config_diff_restarted)
  have "(faulty_step T)\<^sup>*\<^sup>* initial_world (crashed_runner T)"
    using T(2) mono_rtranclp [of "slow_faulty_step T" "faulty_step T"] slow_faulty_step_faulty by metis
  then show ?thesis using crashes_keep_collections [of T] T(1) by blast
qed

end
