(* ===== verification/Spec2Isabelle.thy ===== *)
theory Spec2Isabelle
  imports Type_Claims Conv_Claims Service_Claims Generator_Claims Safety_Claims Redelivery_Claims
begin

text \<open>
  A model of vyzzer, the structure-aware fuzzer for the Vyper compiler, with the theorems that make its
  parts correct. All paths below are relative to \<^verbatim>\<open>src/fuzz/\<close>.

  \<^bold>\<open>The program.\<close> The fuzzing engine hands a protobuf message of type Contract to a
  generator. A converter turns the message into the source of a Vyper contract, together with the types
  of the parameters of its functions; an input generator draws arguments for them. The generator logs
  the generation, publishes source and arguments to the queue of every compiler and creates an empty
  result entry. One runner per compiler takes the message, deploys the contract with every list of
  constructor arguments, calls every external function with every list of arguments and stores the
  results in the entry. The verifier polls the entries, and when an entry has the results of all
  compilers it compares them pairwise and stores a report.

  \<^bold>\<open>Common ground.\<close>
  \<^item> \<open>Vyzzer_Prelude\<close>: Python exceptions as values of a sum type, the state-and-exception monad of
    the methods, the frame logic (locale \<open>frame_rel\<close> and the collection \<open>keeps\<close>) in
    which their effects are proved, texts of integers, dictionaries in insertion order.
  \<^item> \<open>Proto\<close>: messages, the schema of the two protocol files, HasField and the accessors with the
    errors they raise; \<open>conforms\<close> says that a message obeys the schema.
  \<^item> \<open>Py_Eval\<close>: what Python's eval makes of a generated expression. Float arithmetic is a parameter.

  \<^bold>\<open>Types and literals\<close> (\<^verbatim>\<open>types_d/\<close>, \<^verbatim>\<open>helpers/proto_helpers.py\<close>,
  \<^verbatim>\<open>converters/utils.py\<close>).
  \<open>Vy_Types\<close> has the type classes as one datatype, their constructors, names, equality and hash.
  \<open>Vy_Literals\<close> has the literal generators and the bounds checks of integer expressions on machine
  integers of any width; \<open>Vy_Values\<close> the generators of test inputs with both strategies and what it
  means for a value to inhabit a type. \<open>Type_Extract\<close> reads a type from a message. Their theorems
  (\<open>Type_Claims\<close>): extracted types are declarable, literals and replaced constants are in range, operands
  of division and shift are guarded, types are faithful as dictionary keys.

  \<^bold>\<open>Trackers\<close> (\<^verbatim>\<open>converters/var_tracker.py\<close>, \<^verbatim>\<open>func_tracker.py\<close>,
  \<^verbatim>\<open>function_converter.py\<close>).
  \<open>Var_Tracker\<close> is the nested dictionary of variables by kind, mutability, type and level.
  \<open>Var_Scope\<close> is its specification, a log of declarations: every operation is an operation on the log
  (\<open>tracks\<close>), lookups offer exactly what is in scope, new names are fresh. \<open>Func_Tracker\<close> has the functions and their
  rendering. \<open>Call_Order\<close> has the collection of calls, the removal of cycles and the order of conversion,
  with the theorem that callees come first and the call graph that is left is acyclic.

  \<^bold>\<open>The converter\<close> (\<^verbatim>\<open>converters/typed_converters.py\<close>, \<^verbatim>\<open>parameters_converter.py\<close>,
  \<^verbatim>\<open>typed_converters_4.py\<close>).
  \<open>Conv_State\<close> has the state of TypedConverter as a record, the primitive steps and references;
  \<open>Conv_Expr\<close> and \<open>Conv_Handlers\<close> the expressions, \<open>Conv_Stmt\<close> statements and blocks,
  \<open>Conv_Contract\<close> functions and contracts. NaginiConverter is a value of \<open>conv_class\<close>.
  Randomness is a list of draws in the state. The recursion of the visitors is bounded by their first
  argument, which stands for Python's stack: at zero they raise RecursionError.
  \<open>Conv_Frame\<close>, \<open>Conv_Scope\<close> and \<open>Conv_Function\<close> prove what expressions, statements
  and functions may change, by the rules of the frame logic in locales over an arbitrary visitor
  (\<open>expr_visitor\<close>, \<open>stmt_visitor\<close>, \<open>function_visitor\<close>) that are interpreted for the
  recursive visitors. \<open>Conv_Mutability\<close> follows the mutability from a statement at any depth
  (\<open>occurs\<close>) to the function that contains it. \<open>Conv_Signature\<close> computes the reported inputs from the message alone and proves
  that this is what the converter reports. \<open>Conv_Claims\<close> has the theorems: scopes are
  closed, references are in scope, integer literals are those of the 64-bit field, the mutability of a function
  covers the statements of its body.

  \<^bold>\<open>Exceptions and the stack of the converter.\<close>
  \<open>Msg_Schema\<close> evaluates the schema: the kind of every field the converter reads. \<open>Conv_Safe\<close> is a
  logic for exceptions, \<open>safe P m\<close>: from a state with \<open>P\<close> the method ends in such a state or raises an
  expected error. \<open>Conv_Typed\<close> relates types to the messages of their expressions and
  \<open>Conv_Steps\<close> has the invariant of the state with the primitive steps. \<open>Conv_Safe_Expr\<close>,
  \<open>Conv_Safe_Handlers\<close>, \<open>Conv_Safe_Stmt\<close>, \<open>Conv_Safe_Contract\<close> and \<open>Conv_Total\<close> follow the methods
  upwards, in locales over the visitors of sub-expressions and blocks (\<open>safe_visitor\<close>,
  \<open>safe_block_visitor\<close>), interpreted for the recursive ones. \<open>Conv_Depth\<close> runs two stacks in step and
  proves that the bound of the visitors is only a bound: a deeper stack changes no result. \<open>Safety_Claims\<close> has the theorems: conversions and
  generators end with a source that is published or with one of six known errors.

  \<^bold>\<open>Services\<close> (\<^verbatim>\<open>generators/\<close>, \<^verbatim>\<open>runners/\<close>, \<^verbatim>\<open>verifiers/\<close>,
  \<^verbatim>\<open>helpers/\<close>).
  \<open>Json_Codec\<close> is the encoding of arguments, \<open>Services\<close> the configuration, the connection and the runners,
  \<open>Conv_Inputs\<close> and \<open>Generator\<close> the generators with their effects in order (plain and differential),
  \<open>Verifier\<close> the transposition and comparison of results. \<open>Pipeline\<close> lets them run together: an inductive step
  relation over the queues and collections, with the queues as the configuration makes them. A pass of the
  verifier is three steps, reading, inserting and marking (\<open>verifier_step\<close>), with those of the others in between.
  \<open>Redelivery\<close> splits the steps of generators and runners into their single writes (\<open>callback_writes\<close>,
  \<open>publish_some\<close>) and adds the ones that stop after some of them, and a verifier that starts anew
  (\<open>crash\<close>): a message that was not acknowledged is delivered again.
  \<open>Generator_Claims\<close>, \<open>Service_Claims\<close> and \<open>Redelivery_Claims\<close> have the theorems: published arguments fit the
  contract, a generator does the steps of the service model effect by effect, runners finish, the verdict is exact
  for compilers that deploy, entries stay consistent in every interleaving and after every crash; which results are lost and when none is.

  \<^bold>\<open>Bounds.\<close> Types nest at most three deep in the schema, so \<open>TYPE_DEPTH\<close> is never
  exhausted (\<open>extract_top\<close>). The walks of the call graph take as much fuel as there are functions, five at most,
  and that is enough (\<open>find_cyclic_fuel\<close>, \<open>find_next_id_returns\<close>). The stack depth of the visitors is a
  parameter: it counts nested calls of handlers and of blocks, and more than three for each level at which
  messages nest (\<open>nesting\<close>) and three more are enough (\<open>conversion_ends\<close>). The walk of a message that collects its
  calls takes one frame for each level at which it nests; that stack is not counted. Three, because the
  message of a list is read even where it is absent, and absent lists chain twice (\<open>list_rank\<close>).

  \<^bold>\<open>Parameters.\<close> The compiler, the interpreter (titanoboa), the checksum function of vyper.utils, the
  text of decimals, float arithmetic, the limits of eval on large integers and nested parentheses and the outcome of
  connection attempts come from outside of the repository; what is assumed of them is written in the theorems that need it.

  \<^bold>\<open>Not modelled.\<close> Start-up of loggers, database and broker clients and of the fuzzing engine,
  which only call libraries; the log output; crashes of the broker or the database themselves, which are
  taken to keep what they were given; the generated protobuf modules, of which only the schema is used.
\<close>

end
